(* ===== verification/Prelude.thy ===== *)
theory Prelude
  imports Complex_Main "HOL-Library.Word" "HOL-Library.Signed_Division" "HOL-Library.Multiset"
begin

text \<open>
  The shared base of the development: type synonyms for the machine types of the code, the
  conversions C++ makes between floating-point and integer values, the arithmetic of ring
  indices, and the fact collections the component theories extend.

  Conventions used by every theory:
  \<^item> \<open>int64_t\<close> time stamps are \<open>int\<close>. Signed overflow is undefined in C++; the predicate
    \<open>in_i64\<close> states that a value is representable, and the lemmas that need it say so.
  \<^item> \<open>uint32_t\<close> and \<open>size_t\<close> ring indices are \<open>32 word\<close> and \<open>64 word\<close>: their wrap-around
    matters. \<open>uint64_t\<close> event counters, only ever incremented by one, are \<open>nat\<close>.
  \<^item> \<open>double\<close> is \<open>real\<close>: the rounding of IEEE arithmetic is not modelled.
  \<^item> integer division of the code truncates towards zero and is \<open>sdiv\<close>.
\<close>

type_synonym u8 = "8 word"
type_synonym u32 = "32 word"
type_synonym usize = "64 word"
type_synonym time_us = int

named_theorems ring_simps \<open>ring index and ring contents rewriting\<close>
named_theorems frame_simps \<open>fields an operation leaves unchanged\<close>

section \<open>Number conversions\<close>

definition in_i64 :: "int \<Rightarrow> bool" where
  "in_i64 x \<longleftrightarrow> - (2 ^ 63) \<le> x \<and> x < 2 ^ 63"

text \<open>\<open>std::llround\<close> and \<open>std::round\<close>: to the nearest integer, halves away from zero.\<close>

definition llround :: "real \<Rightarrow> int" where
  "llround x = (if 0 \<le> x then \<lfloor>x + 1 / 2\<rfloor> else \<lceil>x - 1 / 2\<rceil>)"

text \<open>\<open>static_cast<int64_t>\<close> of a floating-point value: truncation towards zero.\<close>

definition trunc_real :: "real \<Rightarrow> int" where
  "trunc_real x = (if 0 \<le> x then \<lfloor>x\<rfloor> else \<lceil>x\<rceil>)"

lemma llround_of_int [simp]: "llround (of_int k) = k"
proof -
  have "\<lfloor>real_of_int k + 1 / 2\<rfloor> = k" by (simp add: floor_eq_iff)
  moreover have "\<lceil>real_of_int k - 1 / 2\<rceil> = k" by (simp add: ceiling_eq_iff)
  ultimately show ?thesis by (simp add: llround_def)
qed

lemma trunc_real_of_int [simp]: "trunc_real (of_int k) = k"
  by (simp add: trunc_real_def)

lemma llround_mono: "x \<le> y \<Longrightarrow> llround x \<le> llround y"
proof -
  assume le: "x \<le> y"
  show ?thesis
  proof (cases "x < 0 \<and> 0 \<le> y")
    case True
    then have "\<lceil>x - 1 / 2\<rceil> \<le> 0" "0 \<le> \<lfloor>y + 1 / 2\<rfloor>" by (simp_all add: ceiling_le_iff)
    then have "\<lceil>x - 1 / 2\<rceil> \<le> \<lfloor>y + 1 / 2\<rfloor>" by linarith
    with True show ?thesis by (simp add: llround_def)
  next
    case False
    with le show ?thesis by (auto simp: llround_def intro!: floor_mono ceiling_mono)
  qed
qed

lemma llround_bounds: "\<bar>real_of_int (llround x) - x\<bar> \<le> 1 / 2"
proof (cases "0 \<le> x")
  case True
  have "real_of_int \<lfloor>x + 1 / 2\<rfloor> - x \<le> 1 / 2" "x - real_of_int \<lfloor>x + 1 / 2\<rfloor> \<le> 1 / 2" by linarith+
  with True show ?thesis unfolding llround_def by (simp only: abs_le_iff minus_diff_eq if_True)
next
  case False
  have "real_of_int \<lceil>x - 1 / 2\<rceil> - x \<le> 1 / 2" "x - real_of_int \<lceil>x - 1 / 2\<rceil> \<le> 1 / 2" by linarith+
  with False show ?thesis unfolding llround_def by (simp only: abs_le_iff minus_diff_eq if_False)
qed

lemma trunc_real_bounds: "0 \<le> x \<Longrightarrow> real_of_int (trunc_real x) \<le> x \<and> x < real_of_int (trunc_real x) + 1"
  by (simp add: trunc_real_def)

text \<open>Truncating division by a positive constant is monotone and agrees with \<open>div\<close> on
  non-negative dividends.\<close>

lemma sdiv_pos: "0 \<le> a \<Longrightarrow> 0 < b \<Longrightarrow> a sdiv b = a div (b :: int)"
  by (simp add: signed_divide_int_def sgn_if)

lemma sdiv_neg: "a < 0 \<Longrightarrow> 0 < b \<Longrightarrow> a sdiv b = - ((- a) div (b :: int))"
  by (simp add: signed_divide_int_def sgn_if)

lemma sdiv_mono: "a \<le> c \<Longrightarrow> 0 < b \<Longrightarrow> a sdiv b \<le> c sdiv (b :: int)"
proof -
  assume le: "a \<le> c" and b: "0 < b"
  consider "0 \<le> a" | "a < 0" "0 \<le> c" | "c < 0" using le by linarith
  then show ?thesis
  proof cases
    case 1
    with le b show ?thesis by (simp add: sdiv_pos zdiv_mono1)
  next
    case 2
    with b have "0 \<le> (- a) div b" "0 \<le> c div b"
      by (simp_all add: pos_imp_zdiv_nonneg_iff)
    with 2 b show ?thesis by (simp add: sdiv_pos sdiv_neg)
  next
    case 3
    with le have "a < 0" by linarith
    moreover have "(- c) div b \<le> (- a) div b" using le b by (simp add: zdiv_mono1)
    ultimately show ?thesis using 3 b by (simp add: sdiv_neg)
  qed
qed

section \<open>Ring index arithmetic\<close>

text \<open>
  A ring of \<open>n\<close> slots with read index \<open>r\<close> and write index \<open>w\<close> holds the slots \<open>r, r+1, \<dots>\<close>
  (modulo \<open>n\<close>) up to, not including, \<open>w\<close>.
\<close>

definition ring_count :: "nat \<Rightarrow> nat \<Rightarrow> nat \<Rightarrow> nat" where
  "ring_count n r w = (w + n - r) mod n"

definition ring_list :: "nat \<Rightarrow> nat \<Rightarrow> nat \<Rightarrow> 'a list \<Rightarrow> 'a list" where
  "ring_list n r w xs = map (\<lambda>i. xs ! ((r + i) mod n)) [0..<ring_count n r w]"

lemma ring_count_alt:
  "r < n \<Longrightarrow> w < n \<Longrightarrow> ring_count n r w = (if r \<le> w then w - r else w + n - r)"
  unfolding ring_count_def by (auto simp: mod_if)

lemma ring_count_less [ring_simps]: "r < n \<Longrightarrow> w < n \<Longrightarrow> ring_count n r w < n"
  by (auto simp: ring_count_alt)

lemma ring_count_0 [ring_simps]: "r < n \<Longrightarrow> w < n \<Longrightarrow> ring_count n r w = 0 \<longleftrightarrow> r = w"
  by (auto simp: ring_count_alt)

lemma mod_below_twice: "a < 2 * n \<Longrightarrow> a mod n = (if a < n then a else a - n)" for n :: nat
  by (auto simp: mod_if)

lemma Suc_mod_less: "w < n \<Longrightarrow> Suc w mod n = (if Suc w = n then 0 else Suc w)" for n :: nat
  by (auto simp: mod_if)

lemma ring_full_iff [ring_simps]:
  "r < n \<Longrightarrow> w < n \<Longrightarrow> Suc w mod n = r \<longleftrightarrow> Suc (ring_count n r w) = n"
  by (auto simp: ring_count_alt Suc_mod_less)

lemma ring_count_push [ring_simps]:
  "r < n \<Longrightarrow> w < n \<Longrightarrow> Suc w mod n \<noteq> r \<Longrightarrow> ring_count n r (Suc w mod n) = Suc (ring_count n r w)"
  by (auto simp: ring_count_alt Suc_mod_less)

lemma ring_count_pop:
  "r < n \<Longrightarrow> w < n \<Longrightarrow> r \<noteq> w \<Longrightarrow> ring_count n r w = Suc (ring_count n (Suc r mod n) w)"
  by (auto simp: ring_count_alt Suc_mod_less)

lemma length_ring_list [ring_simps]: "length (ring_list n r w xs) = ring_count n r w"
  by (simp add: ring_list_def)

lemma ring_list_Nil [ring_simps]: "r < n \<Longrightarrow> ring_list n r r xs = []"
  by (simp add: ring_list_def ring_simps)

lemma ring_offset_ne:
  assumes "r < n" "w < n" "i < ring_count n r w"
  shows "(r + i) mod n \<noteq> w"
proof -
  have "r + i < 2 * n" using assms by (auto simp: ring_count_alt split: if_splits)
  then show ?thesis using assms by (auto simp: mod_below_twice ring_count_alt split: if_splits)
qed

lemma ring_offset_end:
  assumes "r < n" "w < n"
  shows "(r + ring_count n r w) mod n = w"
proof -
  have "r + ring_count n r w < 2 * n" using assms by (simp add: ring_count_alt)
  then show ?thesis using assms by (auto simp: mod_below_twice ring_count_alt)
qed

lemma ring_list_write_free:
  assumes "r < n" "w < n"
  shows "ring_list n r w (xs[w := x]) = ring_list n r w xs"
  unfolding ring_list_def
proof (rule map_cong [OF refl])
  fix i
  assume "i \<in> set [0..<ring_count n r w]"
  then have "(r + i) mod n \<noteq> w" using ring_offset_ne [OF assms] by simp
  then show "xs[w := x] ! ((r + i) mod n) = xs ! ((r + i) mod n)" by simp
qed

lemma ring_list_push [ring_simps]:
  assumes "r < n" "w < n" "length xs = n" "Suc w mod n \<noteq> r"
  shows "ring_list n r (Suc w mod n) (xs[w := x]) = ring_list n r w xs @ [x]"
proof -
  have "ring_list n r (Suc w mod n) (xs[w := x])
      = ring_list n r w (xs[w := x]) @ [xs[w := x] ! w]"
    using assms by (simp add: ring_list_def ring_count_push ring_offset_end)
  then show ?thesis using assms by (simp add: ring_list_write_free)
qed

lemma ring_list_pop [ring_simps]:
  assumes "r < n" "w < n" "r \<noteq> w"
  shows "ring_list n r w xs = xs ! r # ring_list n (Suc r mod n) w xs"
proof -
  have "(r + Suc i) mod n = (Suc r mod n + i) mod n" for i
    by (simp add: mod_add_left_eq)
  then have "map (\<lambda>i. xs ! ((r + i) mod n)) [Suc 0..<Suc m]
      = map (\<lambda>i. xs ! ((Suc r mod n + i) mod n)) [0..<m]" for m
    by (simp only: map_Suc_upt [symmetric] map_map o_def)
  then show ?thesis
    using assms by (simp add: ring_list_def ring_count_pop upt_rec del: upt_Suc)
qed

section \<open>Decimal numerals\<close>

text \<open>\<open>std::to_string\<close> and stream output of integers.\<close>

fun decimal_of_nat :: "nat \<Rightarrow> string" where
  "decimal_of_nat n =
     (if 10 \<le> n then decimal_of_nat (n div 10) else []) @ [char_of (48 + n mod 10)]"

declare decimal_of_nat.simps [simp del]

definition decimal_of_int :: "int \<Rightarrow> string" where
  "decimal_of_int k = (if k < 0 then ''-'' else []) @ decimal_of_nat (nat \<bar>k\<bar>)"

definition nat_of_string :: "string \<Rightarrow> nat" where
  "nat_of_string s = foldl (\<lambda>n c. 10 * n + (of_char c - 48)) 0 s"

lemma of_char_digit: "d < 10 \<Longrightarrow> (of_char (char_of (48 + d)) :: nat) = 48 + d"
  by (simp add: of_char_of)

lemma nat_of_decimal [simp]: "nat_of_string (decimal_of_nat n) = n"
proof (induction n rule: decimal_of_nat.induct)
  case (1 n)
  show ?case
  proof (cases "n < 10")
    case True
    then show ?thesis
      using of_char_digit [of n] by (subst decimal_of_nat.simps) (simp add: nat_of_string_def)
  next
    case False
    with 1 have "nat_of_string (decimal_of_nat (n div 10)) = n div 10" by simp
    moreover have "n mod 10 < 10" by simp
    ultimately show ?thesis
      using False of_char_digit [of "n mod 10"]
      by (subst decimal_of_nat.simps) (simp add: nat_of_string_def)
  qed
qed

lemma decimal_of_nat_inject [simp]: "decimal_of_nat m = decimal_of_nat n \<longleftrightarrow> m = n"
  by (metis nat_of_decimal)

lemma decimal_of_nat_nonempty [simp]: "decimal_of_nat n \<noteq> []"
  by (subst decimal_of_nat.simps) simp

lemma decimal_of_nat_digits: "c \<in> set (decimal_of_nat n) \<Longrightarrow> 48 \<le> (of_char c :: nat) \<and> (of_char c :: nat) < 58"
proof (induction n rule: decimal_of_nat.induct)
  case (1 n)
  show ?case
  proof (cases "n < 10")
    case True
    with 1 show ?thesis
      using of_char_digit [of n] by (subst (asm) decimal_of_nat.simps) auto
  next
    case False
    with 1 show ?thesis
      using of_char_digit [of "n mod 10"] by (subst (asm) (2) decimal_of_nat.simps) auto
  qed
qed

lemma decimal_of_nat_no_minus: "decimal_of_nat n \<noteq> CHR ''-'' # s"
proof
  assume "decimal_of_nat n = CHR ''-'' # s"
  then have "CHR ''-'' \<in> set (decimal_of_nat n)" by simp
  from decimal_of_nat_digits [OF this] show False by simp
qed

lemma decimal_of_int_inject [simp]: "decimal_of_int a = decimal_of_int b \<longleftrightarrow> a = b"
  using decimal_of_nat_no_minus decimal_of_nat_no_minus [symmetric]
  by (auto simp: decimal_of_int_def nat_eq_iff2 split: if_splits)

end
