(* ===== verification/Bounded_Queue.thy ===== *)
theory Bounded_Queue
  imports Prelude
begin

text \<open>
  The contract of a bounded first-in-first-out queue, as the three rings of the program promise
  it to their clients: the video and audio rings of \<open>FrameRingBuffer\<close> and the event queue of
  \<open>MetricsExporter\<close>. The abstraction \<open>contents\<close> maps a queue to the list of its elements,
  oldest first; \<open>room\<close> is the number of elements it can hold. Inside the locale the
  contract is lifted from one operation to runs of operations: a run of the implementation
  returns exactly what the list queue returns.
\<close>

section \<open>Operations and their runs\<close>

datatype 'a queue_op = QPush 'a | QPop

datatype 'a queue_result = Pushed bool | Popped "'a option"

text \<open>A run of pushes and pops of an implementation, with the results in order.\<close>

fun run_queue :: "('q \<Rightarrow> 'a \<Rightarrow> bool \<times> 'q) \<Rightarrow> ('q \<Rightarrow> 'a option \<times> 'q) \<Rightarrow> 'q \<Rightarrow> 'a queue_op list
    \<Rightarrow> 'a queue_result list \<times> 'q" where
  "run_queue push pop q [] = ([], q)"
| "run_queue push pop q (QPush x # ops) =
     (let (ok, q') = push q x; (rs, q'') = run_queue push pop q' ops in (Pushed ok # rs, q''))"
| "run_queue push pop q (QPop # ops) =
     (let (y, q') = pop q; (rs, q'') = run_queue push pop q' ops in (Popped y # rs, q''))"

text \<open>The specification: a list bounded by \<open>n\<close>.\<close>

definition spec_push :: "nat \<Rightarrow> 'a list \<Rightarrow> 'a \<Rightarrow> bool \<times> 'a list" where
  "spec_push n xs x = (if length xs < n then (True, xs @ [x]) else (False, xs))"

definition spec_pop :: "'a list \<Rightarrow> 'a option \<times> 'a list" where
  "spec_pop xs = (case xs of [] \<Rightarrow> (None, []) | x # xs' \<Rightarrow> (Some x, xs'))"

text \<open>What went in and what came out of a run.\<close>

fun accepted :: "'a queue_op list \<Rightarrow> 'a queue_result list \<Rightarrow> 'a list" where
  "accepted (QPush x # ops) (Pushed ok # rs) = (if ok then x # accepted ops rs else accepted ops rs)"
| "accepted (QPop # ops) (Popped y # rs) = accepted ops rs"
| "accepted _ _ = []"

fun delivered :: "'a queue_result list \<Rightarrow> 'a list" where
  "delivered [] = []"
| "delivered (Popped (Some x) # rs) = x # delivered rs"
| "delivered (_ # rs) = delivered rs"

lemma spec_push_result:
  "spec_push n xs x = (ok, xs') \<Longrightarrow> xs' = xs @ (if ok then [x] else []) \<and> (length xs \<le> n \<longrightarrow> length xs' \<le> n)"
  by (auto simp: spec_push_def split: if_splits)

lemma spec_pop_result:
  "spec_pop xs = (y, xs') \<Longrightarrow> xs = (case y of None \<Rightarrow> [] | Some x \<Rightarrow> [x]) @ xs'"
  by (auto simp: spec_pop_def split: list.splits)

lemma spec_run_fifo:
  "run_queue (spec_push n) spec_pop xs ops = (rs, xs') \<Longrightarrow> xs @ accepted ops rs = delivered rs @ xs'"
proof (induction ops arbitrary: xs rs)
  case Nil
  then show ?case by simp
next
  case (Cons op ops)
  show ?case
  proof (cases op)
    case (QPush x)
    obtain ok xs1 where p: "spec_push n xs x = (ok, xs1)" by (cases "spec_push n xs x")
    with Cons.prems QPush obtain rs1 where
      r: "run_queue (spec_push n) spec_pop xs1 ops = (rs1, xs')" "rs = Pushed ok # rs1"
      by (auto split: prod.splits)
    from Cons.IH [OF r(1)] r(2) spec_push_result [OF p] QPush show ?thesis by (auto split: if_splits)
  next
    case QPop
    obtain y xs1 where p: "spec_pop xs = (y, xs1)" by (cases "spec_pop xs")
    with Cons.prems QPop obtain rs1 where
      r: "run_queue (spec_push n) spec_pop xs1 ops = (rs1, xs')" "rs = Popped y # rs1"
      by (auto split: prod.splits)
    from Cons.IH [OF r(1)] r(2) spec_pop_result [OF p] QPop show ?thesis by (auto split: option.splits)
  qed
qed

section \<open>The contract\<close>

locale bounded_queue =
  fixes push :: "'q \<Rightarrow> 'a \<Rightarrow> bool \<times> 'q"
    and pop :: "'q \<Rightarrow> 'a option \<times> 'q"
    and contents :: "'q \<Rightarrow> 'a list"
    and room :: "'q \<Rightarrow> nat"
    and invar :: "'q \<Rightarrow> bool"
  assumes push_full: "invar q \<Longrightarrow> length (contents q) = room q \<Longrightarrow> push q x = (False, q)"
    and push_room: "invar q \<Longrightarrow> length (contents q) < room q \<Longrightarrow>
      \<exists>q'. push q x = (True, q') \<and> contents q' = contents q @ [x] \<and> room q' = room q \<and> invar q'"
    and pop_empty: "invar q \<Longrightarrow> contents q = [] \<Longrightarrow> pop q = (None, q)"
    and pop_Cons: "invar q \<Longrightarrow> contents q = y # ys \<Longrightarrow>
      \<exists>q'. pop q = (Some y, q') \<and> contents q' = ys \<and> room q' = room q \<and> invar q'"
    and bounded: "invar q \<Longrightarrow> length (contents q) \<le> room q"
begin

lemma push_refines:
  assumes "invar q" "push q x = (ok, q')"
  shows "spec_push (room q) (contents q) x = (ok, contents q') \<and> room q' = room q \<and> invar q'"
proof (cases "length (contents q) < room q")
  case True
  with assms push_room [of q x] show ?thesis by (auto simp: spec_push_def)
next
  case False
  with assms(1) bounded [of q] have "length (contents q) = room q" by simp
  with assms push_full [of q x] show ?thesis by (simp add: spec_push_def)
qed

lemma pop_refines:
  assumes "invar q" "pop q = (y, q')"
  shows "spec_pop (contents q) = (y, contents q') \<and> room q' = room q \<and> invar q'"
proof (cases "contents q")
  case Nil
  with assms pop_empty [of q] show ?thesis by (simp add: spec_pop_def)
next
  case (Cons z zs)
  with assms pop_Cons [of q z zs] show ?thesis by (auto simp: spec_pop_def)
qed

theorem run_refines:
  assumes "invar q" "run_queue push pop q ops = (rs, q')"
  shows "run_queue (spec_push (room q)) spec_pop (contents q) ops = (rs, contents q')
    \<and> room q' = room q \<and> invar q'"
  using assms
proof (induction ops arbitrary: q rs)
  case Nil
  then show ?case by simp
next
  case (Cons op ops)
  show ?case
  proof (cases op)
    case (QPush x)
    obtain ok q1 where p: "push q x = (ok, q1)" by (cases "push q x")
    obtain rs1 q2 where r: "run_queue push pop q1 ops = (rs1, q2)"
      by (cases "run_queue push pop q1 ops")
    have "q2 = q'" "rs = Pushed ok # rs1" using Cons.prems(2) QPush p r by auto
    with Cons.IH [of q1 rs1] push_refines [OF Cons.prems(1) p] r QPush show ?thesis by simp
  next
    case QPop
    obtain y q1 where p: "pop q = (y, q1)" by (cases "pop q")
    obtain rs1 q2 where r: "run_queue push pop q1 ops = (rs1, q2)"
      by (cases "run_queue push pop q1 ops")
    have "q2 = q'" "rs = Popped y # rs1" using Cons.prems(2) QPop p r by auto
    with Cons.IH [of q1 rs1] pop_refines [OF Cons.prems(1) p] r QPop show ?thesis by simp
  qed
qed

text \<open>First in, first out, nothing lost and nothing made up: what was in the queue and what it
  accepted is, in order, what it delivered and what is left.\<close>

theorem run_fifo:
  assumes "invar q" "run_queue push pop q ops = (rs, q')"
  shows "contents q @ accepted ops rs = delivered rs @ contents q'"
  using run_refines [OF assms] spec_run_fifo by blast

lemma pop_after_push_empty:
  assumes "invar q" "contents q = []" "0 < room q"
  shows "\<exists>q1 q2. push q x = (True, q1) \<and> pop q1 = (Some x, q2) \<and> contents q2 = []"
proof -
  obtain q1 where "push q x = (True, q1)" "contents q1 = [x]" "invar q1"
    using push_room [of q x] assms by auto
  then show ?thesis using pop_Cons [of q1 x "[]"] by auto
qed

end

end
