(* ===== verification/FrameRingBuffer.thy ===== *)
theory FrameRingBuffer
  imports Bounded_Queue
begin

text \<open>
  The frame ring buffer (\<open>include/retrovue/buffer/FrameRingBuffer.h\<close>,
  \<open>src/buffer/FrameRingBuffer.cpp\<close>): two independent rings, video and audio, of the same
  number of slots, each with a read and a write index. The operations are sequential here; the
  interleavings of one producer with one consumer are in \<open>RingBuffer_SPSC\<close>. Indices are
  \<open>uint32_t\<close> and the capacity is a \<open>size_t\<close>, so the index step mixes 32-bit and 64-bit
  arithmetic, as \<open>next_index\<close> writes out. A slot access outside the array is undefined in C++;
  \<open>rb_wf\<close> shows that it never happens.
\<close>

section \<open>Data\<close>

record frame_metadata =
  md_pts :: int
  md_dts :: int
  md_duration :: real
  md_asset_uri :: string

record frame =
  fr_metadata :: frame_metadata
  fr_data :: "u8 list"
  fr_width :: int
  fr_height :: int

record audio_frame =
  af_data :: "u8 list"
  af_sample_rate :: int
  af_channels :: int
  af_pts_us :: int
  af_nb_samples :: int

definition empty_metadata :: frame_metadata where
  "empty_metadata = \<lparr>md_pts = 0, md_dts = 0, md_duration = 0, md_asset_uri = ''''\<rparr>"

definition empty_frame :: frame where
  "empty_frame = \<lparr>fr_metadata = empty_metadata, fr_data = [], fr_width = 0, fr_height = 0\<rparr>"

definition empty_audio_frame :: audio_frame where
  "empty_audio_frame =
     \<lparr>af_data = [], af_sample_rate = 0, af_channels = 0, af_pts_us = 0, af_nb_samples = 0\<rparr>"

record ring_buffer =
  rb_capacity :: usize
  rb_buffer :: "frame list"
  rb_audio_buffer :: "audio_frame list"
  rb_audio_write_index :: u32
  rb_audio_read_index :: u32
  rb_write_index :: u32
  rb_read_index :: u32

section \<open>Operations\<close>

definition FrameRingBuffer :: "usize \<Rightarrow> ring_buffer" where
  "FrameRingBuffer capacity =
     \<lparr>rb_capacity = capacity + 1,
      rb_buffer = replicate (unat (capacity + 1)) empty_frame,
      rb_audio_buffer = replicate (unat (capacity + 1)) empty_audio_frame,
      rb_audio_write_index = 0, rb_audio_read_index = 0,
      rb_write_index = 0, rb_read_index = 0\<rparr>"

text \<open>\<open>(index + 1) % capacity_\<close>, stored back into a \<open>uint32_t\<close>: the addition is 32-bit, the
  remainder 64-bit.\<close>

definition next_index :: "usize \<Rightarrow> u32 \<Rightarrow> u32" where
  "next_index cap i = ucast ((ucast (i + 1) :: usize) mod cap)"

definition Push :: "ring_buffer \<Rightarrow> frame \<Rightarrow> bool \<times> ring_buffer" where
  "Push q frame =
     (let current_write = rb_write_index q;
          next_write = next_index (rb_capacity q) current_write
      in if next_write = rb_read_index q then (False, q)
         else (True, q\<lparr>rb_buffer := (rb_buffer q)[unat current_write := frame],
                        rb_write_index := next_write\<rparr>))"

definition Peek :: "ring_buffer \<Rightarrow> frame option" where
  "Peek q =
     (let current_read = rb_read_index q
      in if current_read = rb_write_index q then None
         else Some (rb_buffer q ! unat current_read))"

definition Pop :: "ring_buffer \<Rightarrow> frame option \<times> ring_buffer" where
  "Pop q =
     (let current_read = rb_read_index q
      in if current_read = rb_write_index q then (None, q)
         else (Some (rb_buffer q ! unat current_read),
               q\<lparr>rb_read_index := next_index (rb_capacity q) current_read\<rparr>))"

definition Size :: "ring_buffer \<Rightarrow> usize" where
  "Size q =
     (let write = rb_write_index q; read = rb_read_index q
      in if read \<le> write then ucast (write - read)
         else rb_capacity q - ucast (read - write))"

definition Capacity :: "ring_buffer \<Rightarrow> usize" where
  "Capacity q = rb_capacity q"

definition IsEmpty :: "ring_buffer \<Rightarrow> bool" where
  "IsEmpty q \<longleftrightarrow> rb_read_index q = rb_write_index q"

definition IsFull :: "ring_buffer \<Rightarrow> bool" where
  "IsFull q \<longleftrightarrow> next_index (rb_capacity q) (rb_write_index q) = rb_read_index q"

definition PushAudioFrame :: "ring_buffer \<Rightarrow> audio_frame \<Rightarrow> bool \<times> ring_buffer" where
  "PushAudioFrame q audio_frame =
     (let current_write = rb_audio_write_index q;
          next_write = next_index (rb_capacity q) current_write
      in if next_write = rb_audio_read_index q then (False, q)
         else (True, q\<lparr>rb_audio_buffer := (rb_audio_buffer q)[unat current_write := audio_frame],
                        rb_audio_write_index := next_write\<rparr>))"

definition PopAudioFrame :: "ring_buffer \<Rightarrow> audio_frame option \<times> ring_buffer" where
  "PopAudioFrame q =
     (let current_read = rb_audio_read_index q
      in if current_read = rb_audio_write_index q then (None, q)
         else (Some (rb_audio_buffer q ! unat current_read),
               q\<lparr>rb_audio_read_index := next_index (rb_capacity q) current_read\<rparr>))"

definition PeekAudioFrame :: "ring_buffer \<Rightarrow> audio_frame option" where
  "PeekAudioFrame q =
     (let current_read = rb_audio_read_index q
      in if current_read = rb_audio_write_index q then None
         else Some (rb_audio_buffer q ! unat current_read))"

definition Clear :: "ring_buffer \<Rightarrow> ring_buffer" where
  "Clear q = q\<lparr>rb_write_index := 0, rb_read_index := 0,
               rb_audio_write_index := 0, rb_audio_read_index := 0\<rparr>"

section \<open>Well-formed rings and their contents\<close>

text \<open>The rings can be as large as the 32-bit indices can address.\<close>

definition rb_wf :: "ring_buffer \<Rightarrow> bool" where
  "rb_wf q \<longleftrightarrow>
     (let n = unat (rb_capacity q)
      in 0 < n \<and> n \<le> 2 ^ 32
         \<and> length (rb_buffer q) = n \<and> length (rb_audio_buffer q) = n
         \<and> unat (rb_write_index q) < n \<and> unat (rb_read_index q) < n
         \<and> unat (rb_audio_write_index q) < n \<and> unat (rb_audio_read_index q) < n)"

definition rb_frames :: "ring_buffer \<Rightarrow> frame list" where
  "rb_frames q = ring_list (unat (rb_capacity q)) (unat (rb_read_index q))
     (unat (rb_write_index q)) (rb_buffer q)"

definition rb_audio_frames :: "ring_buffer \<Rightarrow> audio_frame list" where
  "rb_audio_frames q = ring_list (unat (rb_capacity q)) (unat (rb_audio_read_index q))
     (unat (rb_audio_write_index q)) (rb_audio_buffer q)"

definition rb_room :: "ring_buffer \<Rightarrow> nat" where
  "rb_room q = unat (rb_capacity q) - 1"

lemma unat_next_index:
  assumes "0 < unat cap" "unat cap \<le> 2 ^ 32" "unat i < unat cap"
  shows "unat (next_index cap i) = Suc (unat i) mod unat cap"
proof -
  have less: "Suc (unat i) mod unat cap < 2 ^ 32"
    using assms mod_less_divisor [of "unat cap" "Suc (unat i)"] by linarith
  show ?thesis
  proof (cases "Suc (unat i) < 2 ^ 32")
    case True
    then have "unat (i + 1) = Suc (unat i)"
      by (simp add: unat_word_ariths)
    moreover from True have "Suc (unat i) < 2 ^ 64" by simp
    ultimately have "unat ((ucast (i + 1) :: usize) mod cap) = Suc (unat i) mod unat cap"
      by (simp add: unat_mod unsigned_ucast_eq take_bit_nat_eq_self)
    with less show ?thesis
      by (simp add: next_index_def unsigned_ucast_eq take_bit_nat_eq_self_iff)
  next
    case False
    with assms have cap: "Suc (unat i) = 2 ^ 32" "unat cap = 2 ^ 32"
      by linarith+
    then have "i + 1 = 0"
      by (simp add: unat_word_ariths word_unat_eq_iff)
    with cap show ?thesis by (simp add: next_index_def)
  qed
qed

lemma next_index_eq_iff:
  assumes "0 < unat cap" "unat cap \<le> 2 ^ 32" "unat i < unat cap"
  shows "next_index cap i = j \<longleftrightarrow> Suc (unat i) mod unat cap = unat j"
  using unat_next_index [OF assms] by (metis word_unat_eq_iff)

lemma rb_wfD:
  assumes "rb_wf q"
  shows "0 < unat (rb_capacity q)" "unat (rb_capacity q) \<le> 2 ^ 32"
    "length (rb_buffer q) = unat (rb_capacity q)" "length (rb_audio_buffer q) = unat (rb_capacity q)"
    "unat (rb_write_index q) < unat (rb_capacity q)" "unat (rb_read_index q) < unat (rb_capacity q)"
    "unat (rb_audio_write_index q) < unat (rb_capacity q)"
    "unat (rb_audio_read_index q) < unat (rb_capacity q)"
  using assms by (simp_all add: rb_wf_def Let_def)

lemma rb_wfI:
  assumes "0 < unat (rb_capacity q)" "unat (rb_capacity q) \<le> 2 ^ 32"
    "length (rb_buffer q) = unat (rb_capacity q)" "length (rb_audio_buffer q) = unat (rb_capacity q)"
    "unat (rb_write_index q) < unat (rb_capacity q)" "unat (rb_read_index q) < unat (rb_capacity q)"
    "unat (rb_audio_write_index q) < unat (rb_capacity q)"
    "unat (rb_audio_read_index q) < unat (rb_capacity q)"
  shows "rb_wf q"
  using assms by (simp add: rb_wf_def Let_def)

lemma unat_next_index_less:
  "rb_wf q \<Longrightarrow> unat i < unat (rb_capacity q) \<Longrightarrow>
    unat (next_index (rb_capacity q) i) = Suc (unat i) mod unat (rb_capacity q)
    \<and> unat (next_index (rb_capacity q) i) < unat (rb_capacity q)"
  using rb_wfD [of q] by (simp add: unat_next_index)

lemma IsEmpty_iff: "rb_wf q \<Longrightarrow> IsEmpty q \<longleftrightarrow> rb_frames q = []"
  using rb_wfD [of q]
  by (metis IsEmpty_def length_0_conv length_ring_list rb_frames_def ring_count_0 word_unat_eq_iff)

lemma IsFull_iff: "rb_wf q \<Longrightarrow> IsFull q \<longleftrightarrow> length (rb_frames q) = rb_room q"
  using rb_wfD [of q] ring_full_iff [of "unat (rb_read_index q)" "unat (rb_capacity q)" "unat (rb_write_index q)"]
  by (auto simp: IsFull_def next_index_eq_iff rb_frames_def rb_room_def length_ring_list)

lemma rb_frames_bounded: "rb_wf q \<Longrightarrow> length (rb_frames q) \<le> rb_room q"
  using rb_wfD [of q] ring_count_less [of "unat (rb_read_index q)" "unat (rb_capacity q)" "unat (rb_write_index q)"]
  by (simp add: rb_frames_def rb_room_def length_ring_list)

lemma rb_audio_frames_bounded: "rb_wf q \<Longrightarrow> length (rb_audio_frames q) \<le> rb_room q"
  using rb_wfD [of q] ring_count_less [of "unat (rb_audio_read_index q)" "unat (rb_capacity q)" "unat (rb_audio_write_index q)"]
  by (simp add: rb_audio_frames_def rb_room_def length_ring_list)

section \<open>Each operation on well-formed rings\<close>

lemma Push_full: "rb_wf q \<Longrightarrow> length (rb_frames q) = rb_room q \<Longrightarrow> Push q x = (False, q)"
  using IsFull_iff [of q] by (simp add: Push_def IsFull_def Let_def)

lemma Push_room:
  assumes wf: "rb_wf q" and room: "length (rb_frames q) < rb_room q"
  obtains q' where "Push q x = (True, q')" "rb_frames q' = rb_frames q @ [x]"
    "rb_audio_frames q' = rb_audio_frames q" "rb_room q' = rb_room q" "rb_wf q'"
proof -
  let ?q' = "q\<lparr>rb_buffer := (rb_buffer q)[unat (rb_write_index q) := x],
               rb_write_index := next_index (rb_capacity q) (rb_write_index q)\<rparr>"
  have nf: "next_index (rb_capacity q) (rb_write_index q) \<noteq> rb_read_index q"
    using IsFull_iff [OF wf] room by (simp add: IsFull_def)
  note d = rb_wfD [OF wf] and n = unat_next_index_less [OF wf rb_wfD(5) [OF wf]]
  have "Suc (unat (rb_write_index q)) mod unat (rb_capacity q) \<noteq> unat (rb_read_index q)"
    using nf d by (simp add: next_index_eq_iff)
  with d n have "rb_frames ?q' = rb_frames q @ [x]"
    by (simp add: rb_frames_def ring_list_push)
  moreover have "rb_wf ?q'" using d n by (intro rb_wfI) simp_all
  ultimately show thesis
    using nf by (intro that [of ?q']) (simp_all add: Push_def Let_def rb_room_def rb_audio_frames_def)
qed

lemma Pop_empty: "rb_wf q \<Longrightarrow> rb_frames q = [] \<Longrightarrow> Pop q = (None, q)"
  using IsEmpty_iff [of q] by (simp add: Pop_def IsEmpty_def Let_def)

lemma Pop_Cons:
  assumes wf: "rb_wf q" and "rb_frames q = x # xs"
  obtains q' where "Pop q = (Some x, q')" "rb_frames q' = xs"
    "rb_audio_frames q' = rb_audio_frames q" "rb_room q' = rb_room q" "rb_wf q'"
proof -
  let ?q' = "q\<lparr>rb_read_index := next_index (rb_capacity q) (rb_read_index q)\<rparr>"
  have ne: "rb_read_index q \<noteq> rb_write_index q"
    using IsEmpty_iff [OF wf] assms(2) by (simp add: IsEmpty_def)
  note d = rb_wfD [OF wf] and n = unat_next_index_less [OF wf rb_wfD(6) [OF wf]]
  have "rb_frames q = rb_buffer q ! unat (rb_read_index q) # rb_frames ?q'"
    using ne d n by (simp add: rb_frames_def ring_list_pop word_unat_eq_iff)
  moreover have "rb_wf ?q'" using d n by (intro rb_wfI) simp_all
  ultimately show thesis
    using ne assms(2) by (intro that [of ?q']) (simp_all add: Pop_def Let_def rb_room_def rb_audio_frames_def)
qed

lemma PushAudioFrame_full:
  "rb_wf q \<Longrightarrow> length (rb_audio_frames q) = rb_room q \<Longrightarrow> PushAudioFrame q x = (False, q)"
  using rb_wfD [of q]
    ring_full_iff [of "unat (rb_audio_read_index q)" "unat (rb_capacity q)" "unat (rb_audio_write_index q)"]
  by (auto simp: PushAudioFrame_def Let_def next_index_eq_iff rb_audio_frames_def rb_room_def length_ring_list)

lemma PushAudioFrame_room:
  assumes wf: "rb_wf q" and room: "length (rb_audio_frames q) < rb_room q"
  obtains q' where "PushAudioFrame q x = (True, q')" "rb_audio_frames q' = rb_audio_frames q @ [x]"
    "rb_frames q' = rb_frames q" "rb_room q' = rb_room q" "rb_wf q'"
proof -
  let ?q' = "q\<lparr>rb_audio_buffer := (rb_audio_buffer q)[unat (rb_audio_write_index q) := x],
               rb_audio_write_index := next_index (rb_capacity q) (rb_audio_write_index q)\<rparr>"
  note d = rb_wfD [OF wf] and n = unat_next_index_less [OF wf rb_wfD(7) [OF wf]]
  have nf: "Suc (unat (rb_audio_write_index q)) mod unat (rb_capacity q) \<noteq> unat (rb_audio_read_index q)"
    using d room ring_full_iff [of "unat (rb_audio_read_index q)" "unat (rb_capacity q)"
        "unat (rb_audio_write_index q)"]
    by (auto simp: rb_audio_frames_def rb_room_def length_ring_list)
  with d have "next_index (rb_capacity q) (rb_audio_write_index q) \<noteq> rb_audio_read_index q"
    by (simp add: next_index_eq_iff)
  moreover from nf d n have "rb_audio_frames ?q' = rb_audio_frames q @ [x]"
    by (simp add: rb_audio_frames_def ring_list_push)
  moreover have "rb_wf ?q'" using d n by (intro rb_wfI) simp_all
  ultimately show thesis
    by (intro that [of ?q']) (simp_all add: PushAudioFrame_def Let_def rb_room_def rb_frames_def)
qed

lemma audio_empty_iff:
  "rb_wf q \<Longrightarrow> rb_audio_read_index q = rb_audio_write_index q \<longleftrightarrow> rb_audio_frames q = []"
  using rb_wfD [of q]
  by (metis length_0_conv length_ring_list rb_audio_frames_def ring_count_0 word_unat_eq_iff)

lemma PopAudioFrame_Cons:
  assumes wf: "rb_wf q" and "rb_audio_frames q = x # xs"
  obtains q' where "PopAudioFrame q = (Some x, q')" "rb_audio_frames q' = xs"
    "rb_frames q' = rb_frames q" "rb_room q' = rb_room q" "rb_wf q'"
proof -
  let ?q' = "q\<lparr>rb_audio_read_index := next_index (rb_capacity q) (rb_audio_read_index q)\<rparr>"
  have ne: "rb_audio_read_index q \<noteq> rb_audio_write_index q"
    using audio_empty_iff [OF wf] assms(2) by simp
  note d = rb_wfD [OF wf] and n = unat_next_index_less [OF wf rb_wfD(8) [OF wf]]
  have "rb_audio_frames q = rb_audio_buffer q ! unat (rb_audio_read_index q) # rb_audio_frames ?q'"
    using ne d n by (simp add: rb_audio_frames_def ring_list_pop word_unat_eq_iff)
  moreover have "rb_wf ?q'" using d n by (intro rb_wfI) simp_all
  ultimately show thesis
    using ne assms(2) by (intro that [of ?q']) (simp_all add: PopAudioFrame_def Let_def rb_room_def rb_frames_def)
qed

section \<open>Both rings are bounded queues\<close>

interpretation video: bounded_queue Push Pop rb_frames rb_room rb_wf
proof unfold_locales
  show "\<exists>q'. Push q x = (True, q') \<and> rb_frames q' = rb_frames q @ [x] \<and> rb_room q' = rb_room q \<and> rb_wf q'"
    if "rb_wf q" "length (rb_frames q) < rb_room q" for q x
    by (rule Push_room [OF that, of x]) blast
  show "\<exists>q'. Pop q = (Some y, q') \<and> rb_frames q' = ys \<and> rb_room q' = rb_room q \<and> rb_wf q'"
    if "rb_wf q" "rb_frames q = y # ys" for q y ys
    by (rule Pop_Cons [OF that]) blast
qed (simp_all add: Push_full Pop_empty rb_frames_bounded)

interpretation audio: bounded_queue PushAudioFrame PopAudioFrame rb_audio_frames rb_room rb_wf
proof unfold_locales
  show "\<exists>q'. PushAudioFrame q x = (True, q') \<and> rb_audio_frames q' = rb_audio_frames q @ [x]
      \<and> rb_room q' = rb_room q \<and> rb_wf q'"
    if "rb_wf q" "length (rb_audio_frames q) < rb_room q" for q x
    by (rule PushAudioFrame_room [OF that, of x]) blast
  show "\<exists>q'. PopAudioFrame q = (Some y, q') \<and> rb_audio_frames q' = ys
      \<and> rb_room q' = rb_room q \<and> rb_wf q'"
    if "rb_wf q" "rb_audio_frames q = y # ys" for q y ys
    by (rule PopAudioFrame_Cons [OF that]) blast
  show "PopAudioFrame q = (None, q)" if "rb_wf q" "rb_audio_frames q = []" for q
    using that audio_empty_iff [of q] by (simp add: PopAudioFrame_def Let_def)
qed (simp_all add: PushAudioFrame_full rb_audio_frames_bounded)

section \<open>Observers, construction and Clear\<close>

lemma unat_ucast_diff: "b \<le> a \<Longrightarrow> unat (ucast (a - b) :: usize) = unat a - unat b" for a b :: u32
proof -
  assume "b \<le> a"
  then have d: "unat (a - b) = unat a - unat b" by (simp add: unat_sub)
  have "unat a < 2 ^ LENGTH(32)" by (rule unsigned_less)
  with d have "unat (a - b) < 2 ^ 64" by simp
  with d show ?thesis by (simp add: unsigned_ucast_eq take_bit_nat_eq_self)
qed

lemma unat_Size: "rb_wf q \<Longrightarrow> unat (Size q) = length (rb_frames q)"
proof -
  assume wf: "rb_wf q"
  note d = rb_wfD [OF wf]
  show ?thesis
  proof (cases "rb_read_index q \<le> rb_write_index q")
    case True
    with d show ?thesis
      by (simp add: Size_def Let_def unat_ucast_diff rb_frames_def length_ring_list ring_count_alt
          word_le_nat_alt)
  next
    case False
    then have le: "rb_write_index q \<le> rb_read_index q" by simp
    let ?d = "ucast (rb_read_index q - rb_write_index q) :: usize"
    have "unat ?d \<le> unat (rb_capacity q)" using d unat_ucast_diff [OF le] by simp
    then have "unat (rb_capacity q - ?d) = unat (rb_capacity q) - unat ?d"
      by (simp add: unat_sub word_le_nat_alt)
    with False d le show ?thesis
      by (simp add: Size_def Let_def unat_ucast_diff rb_frames_def length_ring_list ring_count_alt
          word_le_nat_alt)
  qed
qed

lemma Peek_eq: "rb_wf q \<Longrightarrow> Peek q = (case rb_frames q of [] \<Rightarrow> None | x # _ \<Rightarrow> Some x)"
proof (cases "rb_frames q")
  case Nil
  assume "rb_wf q"
  with Nil IsEmpty_iff [of q] show ?thesis by (simp add: Peek_def Let_def IsEmpty_def)
next
  case (Cons x xs)
  assume wf: "rb_wf q"
  then have ne: "rb_read_index q \<noteq> rb_write_index q"
    using IsEmpty_iff [OF wf] Cons by (simp add: IsEmpty_def)
  with wf Cons have "x = rb_buffer q ! unat (rb_read_index q)"
    using Pop_Cons [OF wf Cons] by (auto simp: Pop_def Let_def)
  with ne Cons show ?thesis by (simp add: Peek_def Let_def)
qed

lemma PeekAudioFrame_eq:
  "rb_wf q \<Longrightarrow> PeekAudioFrame q = (case rb_audio_frames q of [] \<Rightarrow> None | x # _ \<Rightarrow> Some x)"
proof (cases "rb_audio_frames q")
  case Nil
  assume "rb_wf q"
  with Nil audio_empty_iff [of q] show ?thesis by (simp add: PeekAudioFrame_def Let_def)
next
  case (Cons x xs)
  assume wf: "rb_wf q"
  then have ne: "rb_audio_read_index q \<noteq> rb_audio_write_index q"
    using audio_empty_iff [OF wf] Cons by simp
  with wf Cons have "x = rb_audio_buffer q ! unat (rb_audio_read_index q)"
    using PopAudioFrame_Cons [OF wf Cons] by (auto simp: PopAudioFrame_def Let_def)
  with ne Cons show ?thesis by (simp add: PeekAudioFrame_def Let_def)
qed

lemma Push_keeps_audio: "rb_wf q \<Longrightarrow> rb_audio_frames (snd (Push q x)) = rb_audio_frames q"
  by (simp add: Push_def Let_def rb_audio_frames_def)

lemma Pop_keeps_audio: "rb_audio_frames (snd (Pop q)) = rb_audio_frames q"
  by (simp add: Pop_def Let_def rb_audio_frames_def)

lemma FrameRingBuffer_wf:
  assumes "unat c < 2 ^ 32"
  shows "rb_wf (FrameRingBuffer c)" "rb_frames (FrameRingBuffer c) = []"
    "rb_audio_frames (FrameRingBuffer c) = []" "rb_room (FrameRingBuffer c) = unat c"
    "unat (Capacity (FrameRingBuffer c)) = unat c + 1"
proof -
  have u: "unat (c + 1) = unat c + 1" using assms by (simp add: unat_word_ariths)
  show "rb_wf (FrameRingBuffer c)" using assms u by (intro rb_wfI) (simp_all add: FrameRingBuffer_def)
  show "rb_frames (FrameRingBuffer c) = []" "rb_audio_frames (FrameRingBuffer c) = []"
    using u by (simp_all add: rb_frames_def rb_audio_frames_def FrameRingBuffer_def ring_list_Nil)
  show "rb_room (FrameRingBuffer c) = unat c" "unat (Capacity (FrameRingBuffer c)) = unat c + 1"
    using u by (simp_all add: rb_room_def FrameRingBuffer_def Capacity_def)
qed

lemma Clear_wf:
  assumes "rb_wf q"
  shows "rb_wf (Clear q)" "rb_frames (Clear q) = []" "rb_audio_frames (Clear q) = []"
    "rb_room (Clear q) = rb_room q"
  using rb_wfD [OF assms]
  by (simp_all add: Clear_def rb_wf_def Let_def rb_frames_def rb_audio_frames_def ring_list_Nil rb_room_def)

section \<open>Properties\<close>

text \<open>
  C1. Any sequence of pushes and pops on a well-formed video ring returns exactly what the same
  sequence returns on a list bounded by the capacity: frames come out in the order they went in,
  none is lost or invented, a push is refused exactly when the ring is full, and the ring stays
  well-formed.
\<close>

theorem video_ring_fifo:
  assumes "rb_wf q" and "run_queue Push Pop q ops = (rs, q')"
  shows "run_queue (spec_push (rb_room q)) spec_pop (rb_frames q) ops = (rs, rb_frames q')
    \<and> rb_frames q @ accepted ops rs = delivered rs @ rb_frames q'
    \<and> length (rb_frames q') \<le> rb_room q \<and> rb_wf q'"
  using video.run_refines [OF assms] video.run_fifo [OF assms] rb_frames_bounded [of q'] by auto

definition pts_frame :: "int \<Rightarrow> frame" where
  "pts_frame p = empty_frame\<lparr>fr_metadata := empty_metadata\<lparr>md_pts := p\<rparr>\<rparr>"

theorem video_ring_fifo_witness:
  "fst (run_queue Push Pop (FrameRingBuffer 1) [QPush (pts_frame 1), QPush (pts_frame 2), QPop])
   = [Pushed True, Pushed False, Popped (Some (pts_frame 1))]"
proof -
  have wf: "rb_wf (FrameRingBuffer 1)" by (rule FrameRingBuffer_wf) simp
  have room: "rb_room (FrameRingBuffer 1) = 1" "rb_frames (FrameRingBuffer 1) = []"
    using FrameRingBuffer_wf [of 1] by simp_all
  let ?ops = "[QPush (pts_frame 1), QPush (pts_frame 2), QPop]"
  obtain rs q' where r: "run_queue Push Pop (FrameRingBuffer 1) ?ops = (rs, q')" by fastforce
  have "run_queue (spec_push 1) spec_pop [] ?ops = (rs, rb_frames q')"
    using video_ring_fifo [OF wf r] room by simp
  then have "rs = [Pushed True, Pushed False, Popped (Some (pts_frame 1))]"
    by (simp add: spec_push_def spec_pop_def)
  with r show ?thesis by simp
qed

text \<open>
  On a well-formed ring the observers agree with the contents: Size is the number of stored
  frames (whichever index is ahead), IsEmpty and IsFull say whether there is none or no room for one
  more, Peek and PeekAudioFrame show the frame the next pop returns.
\<close>

theorem ring_observers:
  assumes "rb_wf q"
  shows "unat (Size q) = length (rb_frames q)
    \<and> (IsEmpty q \<longleftrightarrow> rb_frames q = []) \<and> (IsFull q \<longleftrightarrow> length (rb_frames q) = rb_room q)
    \<and> Peek q = fst (Pop q) \<and> PeekAudioFrame q = fst (PopAudioFrame q)
    \<and> (IsFull q \<longleftrightarrow> \<not> fst (Push q f))"
  using unat_Size [OF assms] IsEmpty_iff [OF assms] IsFull_iff [OF assms]
  by (simp add: Peek_def Pop_def PeekAudioFrame_def PopAudioFrame_def Let_def IsFull_def Push_def)

theorem ring_observers_witness:
  "unat (Size (FrameRingBuffer 60)) = 0 \<and> \<not> IsFull (FrameRingBuffer 60)"
proof -
  have wf: "rb_wf (FrameRingBuffer 60)" by (rule FrameRingBuffer_wf) simp
  have "rb_frames (FrameRingBuffer 60) = []" "rb_room (FrameRingBuffer 60) = 60"
    by (simp_all add: FrameRingBuffer_wf)
  with ring_observers [OF wf] show ?thesis by simp
qed

text \<open>
  A ring built for up to 2^32 - 1 frames is well-formed, empty and takes exactly that many
  frames; its Capacity() is one more than the number it was built for. Clear empties both rings of
  any well-formed ring and keeps their room.
\<close>

theorem ring_construct_and_clear:
  assumes "unat c < 2 ^ 32" and "rb_wf q"
  shows "rb_wf (FrameRingBuffer c) \<and> rb_frames (FrameRingBuffer c) = []
    \<and> rb_room (FrameRingBuffer c) = unat c \<and> unat (Capacity (FrameRingBuffer c)) = unat c + 1
    \<and> rb_wf (Clear q) \<and> rb_frames (Clear q) = [] \<and> rb_audio_frames (Clear q) = []
    \<and> rb_room (Clear q) = rb_room q"
  using FrameRingBuffer_wf [OF assms(1)] Clear_wf [OF assms(2)] by simp

theorem ring_construct_and_clear_witness:
  "rb_room (FrameRingBuffer 10) = 10 \<and> unat (Capacity (FrameRingBuffer 10)) = 11"
proof -
  have c: "unat (10 :: usize) < 2 ^ 32" by simp
  have wf: "rb_wf (FrameRingBuffer 60)" by (rule FrameRingBuffer_wf) simp
  from ring_construct_and_clear [OF c wf] show ?thesis by simp
qed

text \<open>
  The audio ring is a bounded FIFO of its own: a run of audio operations returns what a bounded
  list returns, and neither ring's operations touch the other ring's contents.
\<close>

theorem audio_ring_fifo_and_independent:
  assumes "rb_wf q" and "run_queue PushAudioFrame PopAudioFrame q ops = (rs, q')"
  shows "run_queue (spec_push (rb_room q)) spec_pop (rb_audio_frames q) ops = (rs, rb_audio_frames q')
    \<and> rb_audio_frames q @ accepted ops rs = delivered rs @ rb_audio_frames q'
    \<and> rb_frames (snd (PushAudioFrame q a)) = rb_frames q
    \<and> rb_frames (snd (PopAudioFrame q)) = rb_frames q
    \<and> rb_audio_frames (snd (Push q f)) = rb_audio_frames q
    \<and> rb_audio_frames (snd (Pop q)) = rb_audio_frames q"
  using audio.run_refines [OF assms] audio.run_fifo [OF assms] Push_keeps_audio [OF assms(1)]
    Pop_keeps_audio
  by (simp add: PushAudioFrame_def PopAudioFrame_def Let_def rb_frames_def)

theorem audio_ring_fifo_and_independent_witness:
  "fst (run_queue PushAudioFrame PopAudioFrame (FrameRingBuffer 1) [QPush empty_audio_frame, QPop])
   = [Pushed True, Popped (Some empty_audio_frame)]"
proof -
  have wf: "rb_wf (FrameRingBuffer 1)" by (rule FrameRingBuffer_wf) simp
  have room: "rb_room (FrameRingBuffer 1) = 1" "rb_audio_frames (FrameRingBuffer 1) = []"
    using FrameRingBuffer_wf [of 1] by simp_all
  let ?ops = "[QPush empty_audio_frame, QPop]"
  obtain rs q' where r: "run_queue PushAudioFrame PopAudioFrame (FrameRingBuffer 1) ?ops = (rs, q')"
    by fastforce
  have "run_queue (spec_push 1) spec_pop [] ?ops = (rs, rb_audio_frames q')"
    using audio_ring_fifo_and_independent [OF wf r] room by simp
  then have "rs = [Pushed True, Popped (Some empty_audio_frame)]"
    by (simp add: spec_push_def spec_pop_def)
  with r show ?thesis by simp
qed

end
