(* ===== verification/RingBuffer_SPSC.thy ===== *)
theory RingBuffer_SPSC
  imports FrameRingBuffer
begin

text \<open>
  The thread model of the video ring: one producer inside \<open>FrameRingBuffer::Push\<close> and one
  consumer inside \<open>FrameRingBuffer::Pop\<close>, interleaved at every access to shared memory (the
  four index loads and stores and the two frame copies). Each index has a single writer, and its
  release store is paired with the other side's acquire load, so the accesses are modelled as
  interleaved one at a time. The ghost fields record the frames whose push has returned true and
  the frames whose pop has returned true.
\<close>

section \<open>The interleaved program\<close>

text \<open>Where the producer stands in \<open>Push\<close>: before the call, after the load of its own write
  index, after the check against the read index, after the copy of the frame.\<close>

datatype producer_pc =
    PIdle
  | PLoaded frame u32
  | PChecked frame u32
  | PCopied frame u32

text \<open>Where the consumer stands in \<open>Pop\<close>.\<close>

datatype consumer_pc =
    CIdle
  | CLoaded u32
  | CChecked u32
  | CCopied frame u32

record spsc =
  sp_ring :: ring_buffer
  sp_producer :: producer_pc
  sp_consumer :: consumer_pc
  sp_sent :: "frame list"
  sp_received :: "frame list"

definition spsc_init :: "ring_buffer \<Rightarrow> spsc" where
  "spsc_init q = \<lparr>sp_ring = q, sp_producer = PIdle, sp_consumer = CIdle, sp_sent = [], sp_received = []\<rparr>"

inductive producer_step :: "spsc \<Rightarrow> spsc \<Rightarrow> bool" where
  load_write: "sp_producer s = PIdle \<Longrightarrow>
    producer_step s (s\<lparr>sp_producer := PLoaded f (rb_write_index (sp_ring s))\<rparr>)"
| check_full: "sp_producer s = PLoaded f w \<Longrightarrow>
    next_index (rb_capacity (sp_ring s)) w = rb_read_index (sp_ring s) \<Longrightarrow>
    producer_step s (s\<lparr>sp_producer := PIdle\<rparr>)"
| check_room: "sp_producer s = PLoaded f w \<Longrightarrow>
    next_index (rb_capacity (sp_ring s)) w \<noteq> rb_read_index (sp_ring s) \<Longrightarrow>
    producer_step s (s\<lparr>sp_producer := PChecked f w\<rparr>)"
| copy_in: "sp_producer s = PChecked f w \<Longrightarrow>
    producer_step s (s\<lparr>sp_ring := (sp_ring s)\<lparr>rb_buffer := (rb_buffer (sp_ring s))[unat w := f]\<rparr>,
                       sp_producer := PCopied f w\<rparr>)"
| store_write: "sp_producer s = PCopied f w \<Longrightarrow>
    producer_step s (s\<lparr>sp_ring := (sp_ring s)\<lparr>rb_write_index := next_index (rb_capacity (sp_ring s)) w\<rparr>,
                       sp_producer := PIdle, sp_sent := sp_sent s @ [f]\<rparr>)"

inductive consumer_step :: "spsc \<Rightarrow> spsc \<Rightarrow> bool" where
  load_read: "sp_consumer s = CIdle \<Longrightarrow>
    consumer_step s (s\<lparr>sp_consumer := CLoaded (rb_read_index (sp_ring s))\<rparr>)"
| check_empty: "sp_consumer s = CLoaded r \<Longrightarrow> r = rb_write_index (sp_ring s) \<Longrightarrow>
    consumer_step s (s\<lparr>sp_consumer := CIdle\<rparr>)"
| check_nonempty: "sp_consumer s = CLoaded r \<Longrightarrow> r \<noteq> rb_write_index (sp_ring s) \<Longrightarrow>
    consumer_step s (s\<lparr>sp_consumer := CChecked r\<rparr>)"
| copy_out: "sp_consumer s = CChecked r \<Longrightarrow>
    consumer_step s (s\<lparr>sp_consumer := CCopied (rb_buffer (sp_ring s) ! unat r) r\<rparr>)"
| store_read: "sp_consumer s = CCopied f r \<Longrightarrow>
    consumer_step s (s\<lparr>sp_ring := (sp_ring s)\<lparr>rb_read_index := next_index (rb_capacity (sp_ring s)) r\<rparr>,
                       sp_consumer := CIdle, sp_received := sp_received s @ [f]\<rparr>)"

inductive spsc_step :: "spsc \<Rightarrow> spsc \<Rightarrow> bool" where
  producer: "producer_step s t \<Longrightarrow> spsc_step s t"
| consumer: "consumer_step s t \<Longrightarrow> spsc_step s t"

inductive spsc_reachable :: "ring_buffer \<Rightarrow> spsc \<Rightarrow> bool" for q where
  start: "spsc_reachable q (spsc_init q)"
| step: "spsc_reachable q s \<Longrightarrow> spsc_step s t \<Longrightarrow> spsc_reachable q t"

inductive_cases producer_stepE: "producer_step s t"
inductive_cases consumer_stepE: "consumer_step s t"

section \<open>The invariant\<close>

text \<open>The producer's view stays true whatever the consumer does: its write index is current, and
  once it has seen room there is room; after the copy the free slot holds its frame.\<close>

definition producer_ok :: "spsc \<Rightarrow> bool" where
  "producer_ok s = (case sp_producer s of
       PIdle \<Rightarrow> True
     | PLoaded f w \<Rightarrow> w = rb_write_index (sp_ring s)
     | PChecked f w \<Rightarrow> w = rb_write_index (sp_ring s) \<and> \<not> IsFull (sp_ring s)
     | PCopied f w \<Rightarrow> w = rb_write_index (sp_ring s) \<and> \<not> IsFull (sp_ring s)
         \<and> rb_buffer (sp_ring s) ! unat w = f)"

definition consumer_ok :: "spsc \<Rightarrow> bool" where
  "consumer_ok s = (case sp_consumer s of
       CIdle \<Rightarrow> True
     | CLoaded r \<Rightarrow> r = rb_read_index (sp_ring s)
     | CChecked r \<Rightarrow> r = rb_read_index (sp_ring s) \<and> \<not> IsEmpty (sp_ring s)
     | CCopied f r \<Rightarrow> r = rb_read_index (sp_ring s) \<and> \<not> IsEmpty (sp_ring s)
         \<and> rb_buffer (sp_ring s) ! unat r = f)"

definition spsc_inv :: "ring_buffer \<Rightarrow> spsc \<Rightarrow> bool" where
  "spsc_inv q s \<longleftrightarrow> rb_wf (sp_ring s) \<and> producer_ok s \<and> consumer_ok s
     \<and> rb_frames q @ sp_sent s = sp_received s @ rb_frames (sp_ring s)"

text \<open>The two stores on the ring alone.\<close>

lemma write_free_slot:
  fixes q :: ring_buffer and f :: frame
  assumes "rb_wf q"
  defines "q' \<equiv> q\<lparr>rb_buffer := (rb_buffer q)[unat (rb_write_index q) := f]\<rparr>"
  shows "rb_wf q'" "rb_frames q' = rb_frames q"
  using rb_wfD [OF assms(1)]
  by (simp_all add: q'_def rb_wf_def Let_def rb_frames_def ring_list_write_free)

lemma advance_write:
  assumes wf: "rb_wf q" and nf: "\<not> IsFull q"
  defines "q' \<equiv> q\<lparr>rb_write_index := next_index (rb_capacity q) (rb_write_index q)\<rparr>"
  shows "rb_wf q'" "rb_frames q' = rb_frames q @ [rb_buffer q ! unat (rb_write_index q)]" "\<not> IsEmpty q'"
proof -
  note d = rb_wfD [OF wf] and n = unat_next_index_less [OF wf rb_wfD(5) [OF wf]]
  show wf': "rb_wf q'" using d n unfolding q'_def by (intro rb_wfI) simp_all
  have "Suc (unat (rb_write_index q)) mod unat (rb_capacity q) \<noteq> unat (rb_read_index q)"
    using nf d by (simp add: IsFull_def next_index_eq_iff)
  from ring_list_push [OF d(6) d(5) d(3) this, of "rb_buffer q ! unat (rb_write_index q)"] n
  show "rb_frames q' = rb_frames q @ [rb_buffer q ! unat (rb_write_index q)]"
    by (simp add: q'_def rb_frames_def)
  then show "\<not> IsEmpty q'" using IsEmpty_iff [OF wf'] by simp
qed

lemma advance_read:
  assumes wf: "rb_wf q" and ne: "\<not> IsEmpty q"
  defines "q' \<equiv> q\<lparr>rb_read_index := next_index (rb_capacity q) (rb_read_index q)\<rparr>"
  shows "rb_wf q'" "rb_frames q = rb_buffer q ! unat (rb_read_index q) # rb_frames q'" "\<not> IsFull q'"
proof -
  note d = rb_wfD [OF wf] and n = unat_next_index_less [OF wf rb_wfD(6) [OF wf]]
  show wf': "rb_wf q'" using d n unfolding q'_def by (intro rb_wfI) simp_all
  have "unat (rb_read_index q) \<noteq> unat (rb_write_index q)"
    using ne by (simp add: IsEmpty_def word_unat_eq_iff)
  with d n show eq: "rb_frames q = rb_buffer q ! unat (rb_read_index q) # rb_frames q'"
    by (simp add: q'_def rb_frames_def ring_list_pop)
  have "rb_room q' = rb_room q" by (simp add: q'_def rb_room_def)
  with eq rb_frames_bounded [OF wf] show "\<not> IsFull q'"
    using IsFull_iff [OF wf'] by simp
qed

lemma read_slot_not_written: "rb_wf q \<Longrightarrow> \<not> IsEmpty q \<Longrightarrow> unat (rb_read_index q) \<noteq> unat (rb_write_index q)"
  by (simp add: IsEmpty_def word_unat_eq_iff)

lemma producer_step_inv: "producer_step s t \<Longrightarrow> spsc_inv q s \<Longrightarrow> spsc_inv q t"
proof (induction rule: producer_step.induct)
  case (copy_in s f w)
  then have ok: "rb_wf (sp_ring s)" "w = rb_write_index (sp_ring s)" "\<not> IsFull (sp_ring s)"
    by (simp_all add: spsc_inv_def producer_ok_def)
  have "unat w < length (rb_buffer (sp_ring s))" using rb_wfD [OF ok(1)] ok(2) by simp
  then show ?case
    using copy_in ok write_free_slot [OF ok(1), of f] read_slot_not_written [OF ok(1)]
    by (auto simp: spsc_inv_def producer_ok_def consumer_ok_def IsFull_def IsEmpty_def
        split: consumer_pc.splits)
next
  case (store_write s f w)
  then have ok: "rb_wf (sp_ring s)" "w = rb_write_index (sp_ring s)" "\<not> IsFull (sp_ring s)"
      "rb_buffer (sp_ring s) ! unat w = f"
    by (auto simp: spsc_inv_def producer_ok_def)
  with store_write advance_write [OF ok(1,3)] show ?case
    by (auto simp: spsc_inv_def producer_ok_def consumer_ok_def split: consumer_pc.splits)
qed (auto simp: spsc_inv_def producer_ok_def consumer_ok_def IsFull_def split: consumer_pc.splits)

lemma consumer_step_inv: "consumer_step s t \<Longrightarrow> spsc_inv q s \<Longrightarrow> spsc_inv q t"
proof (induction rule: consumer_step.induct)
  case (store_read s f r)
  then have ok: "rb_wf (sp_ring s)" "r = rb_read_index (sp_ring s)" "\<not> IsEmpty (sp_ring s)"
      "rb_buffer (sp_ring s) ! unat r = f"
    by (auto simp: spsc_inv_def consumer_ok_def)
  with store_read advance_read [OF ok(1,3)] show ?case
    by (auto simp: spsc_inv_def producer_ok_def consumer_ok_def split: producer_pc.splits)
qed (auto simp: spsc_inv_def producer_ok_def consumer_ok_def IsEmpty_def split: producer_pc.splits)

lemma spsc_reachable_inv: "spsc_reachable q s \<Longrightarrow> rb_wf q \<Longrightarrow> spsc_inv q s"
proof (induction rule: spsc_reachable.induct)
  case start
  then show ?case by (simp add: spsc_inv_def spsc_init_def producer_ok_def consumer_ok_def)
next
  case (step s t)
  then show ?case by (auto elim!: spsc_step.cases intro: producer_step_inv consumer_step_inv)
qed

text \<open>The interleaved producer, run alone, computes \<open>Push\<close>, and the consumer \<open>Pop\<close>: the steps are
  the statements of those two functions.\<close>

lemma producer_alone_is_Push:
  assumes "sp_producer s = PIdle"
  shows "producer_step\<^sup>*\<^sup>* s (s\<lparr>sp_ring := snd (Push (sp_ring s) f),
    sp_sent := sp_sent s @ (if fst (Push (sp_ring s) f) then [f] else [])\<rparr>)"
proof -
  let ?q = "sp_ring s" and ?w = "rb_write_index (sp_ring s)"
  let ?s1 = "s\<lparr>sp_producer := PLoaded f ?w\<rparr>"
  have 1: "producer_step s ?s1" using assms by (rule load_write)
  show ?thesis
  proof (cases "next_index (rb_capacity ?q) ?w = rb_read_index ?q")
    case True
    then have "producer_step ?s1 (?s1\<lparr>sp_producer := PIdle\<rparr>)" by (intro check_full) simp_all
    with 1 have "producer_step\<^sup>*\<^sup>* s (?s1\<lparr>sp_producer := PIdle\<rparr>)" by (meson converse_rtranclp_into_rtranclp r_into_rtranclp)
    moreover have "?s1\<lparr>sp_producer := PIdle\<rparr> = s" using assms by (cases s) simp
    ultimately show ?thesis using True by (simp add: Push_def)
  next
    case False
    let ?s2 = "s\<lparr>sp_producer := PChecked f ?w\<rparr>"
    let ?s3 = "s\<lparr>sp_ring := ?q\<lparr>rb_buffer := (rb_buffer ?q)[unat ?w := f]\<rparr>, sp_producer := PCopied f ?w\<rparr>"
    let ?s4 = "?s3\<lparr>sp_ring := (sp_ring ?s3)\<lparr>rb_write_index := next_index (rb_capacity ?q) ?w\<rparr>,
        sp_producer := PIdle, sp_sent := sp_sent s @ [f]\<rparr>"
    have 2: "producer_step ?s1 ?s2" using False check_room [of ?s1 f ?w] by simp
    have 3: "producer_step ?s2 ?s3" using copy_in [of ?s2 f ?w] by simp
    have 4: "producer_step ?s3 ?s4" using store_write [of ?s3 f ?w] by simp
    from 1 2 3 4 have "producer_step\<^sup>*\<^sup>* s ?s4"
      by (meson converse_rtranclp_into_rtranclp r_into_rtranclp)
    moreover have "?s4 = s\<lparr>sp_ring := snd (Push ?q f), sp_sent := sp_sent s @ [f]\<rparr>"
      using False assms by (cases s) (simp add: Push_def Let_def)
    ultimately show ?thesis using False by (simp add: Push_def Let_def)
  qed
qed

lemma consumer_alone_is_Pop:
  assumes "sp_consumer s = CIdle"
  shows "consumer_step\<^sup>*\<^sup>* s (s\<lparr>sp_ring := snd (Pop (sp_ring s)),
    sp_received := sp_received s @ (case fst (Pop (sp_ring s)) of None \<Rightarrow> [] | Some f \<Rightarrow> [f])\<rparr>)"
proof -
  let ?q = "sp_ring s" and ?r = "rb_read_index (sp_ring s)"
  let ?s1 = "s\<lparr>sp_consumer := CLoaded ?r\<rparr>"
  have 1: "consumer_step s ?s1" using assms by (rule load_read)
  show ?thesis
  proof (cases "?r = rb_write_index ?q")
    case True
    then have "consumer_step ?s1 (?s1\<lparr>sp_consumer := CIdle\<rparr>)" by (intro check_empty) simp_all
    with 1 have "consumer_step\<^sup>*\<^sup>* s (?s1\<lparr>sp_consumer := CIdle\<rparr>)" by (meson converse_rtranclp_into_rtranclp r_into_rtranclp)
    moreover have "?s1\<lparr>sp_consumer := CIdle\<rparr> = s" using assms by (cases s) simp
    ultimately show ?thesis using True by (simp add: Pop_def)
  next
    case False
    let ?s2 = "s\<lparr>sp_consumer := CChecked ?r\<rparr>"
    let ?s3 = "s\<lparr>sp_consumer := CCopied (rb_buffer ?q ! unat ?r) ?r\<rparr>"
    let ?s4 = "?s3\<lparr>sp_ring := ?q\<lparr>rb_read_index := next_index (rb_capacity ?q) ?r\<rparr>,
        sp_consumer := CIdle, sp_received := sp_received s @ [rb_buffer ?q ! unat ?r]\<rparr>"
    have 2: "consumer_step ?s1 ?s2" using False check_nonempty [of ?s1 ?r] by simp
    have 3: "consumer_step ?s2 ?s3" using copy_out [of ?s2 ?r] by simp
    have 4: "consumer_step ?s3 ?s4" using store_read [of ?s3 "rb_buffer ?q ! unat ?r" ?r] by simp
    from 1 2 3 4 have "consumer_step\<^sup>*\<^sup>* s ?s4"
      by (meson converse_rtranclp_into_rtranclp r_into_rtranclp)
    moreover have "?s4 = s\<lparr>sp_ring := snd (Pop ?q), sp_received := sp_received s @ [rb_buffer ?q ! unat ?r]\<rparr>"
      using False assms by (cases s) (simp add: Pop_def Let_def)
    ultimately show ?thesis using False by (simp add: Pop_def Let_def)
  qed
qed

section \<open>Properties\<close>

text \<open>
  C8. Under every interleaving of one producer thread in Push with one consumer thread in Pop, the
  frames delivered so far and the frames still in the ring are, in order, the frames the ring
  started with and those whose push returned true; and the two threads never copy into and out of
  the same slot at the same time.
\<close>

theorem spsc_linearizable_and_race_free:
  assumes "rb_wf q" and "spsc_reachable q s"
  shows "rb_frames q @ sp_sent s = sp_received s @ rb_frames (sp_ring s) \<and> rb_wf (sp_ring s)
    \<and> \<not> (\<exists>f w r. sp_producer s = PChecked f w \<and> sp_consumer s = CChecked r \<and> unat w = unat r)"
proof -
  have inv: "spsc_inv q s" using assms by (simp add: spsc_reachable_inv)
  moreover have "unat w \<noteq> unat r" if "sp_producer s = PChecked f w" "sp_consumer s = CChecked r" for f w r
    using inv that read_slot_not_written [of "sp_ring s"]
    by (auto simp: spsc_inv_def producer_ok_def consumer_ok_def)
  ultimately show ?thesis by (auto simp: spsc_inv_def)
qed

theorem spsc_linearizable_and_race_free_witness:
  "\<exists>s. spsc_reachable (FrameRingBuffer 2) s \<and> sp_producer s = PLoaded (pts_frame 7) 0
     \<and> rb_frames (FrameRingBuffer 2) @ sp_sent s = sp_received s @ rb_frames (sp_ring s)"
proof -
  let ?q = "FrameRingBuffer 2" and ?s = "(spsc_init (FrameRingBuffer 2))\<lparr>sp_producer := PLoaded (pts_frame 7) 0\<rparr>"
  have wf: "rb_wf ?q" by (rule FrameRingBuffer_wf) simp
  have "producer_step (spsc_init ?q) ?s"
    using load_write [of "spsc_init ?q" "pts_frame 7"] by (simp add: spsc_init_def FrameRingBuffer_def)
  then have reach: "spsc_reachable ?q ?s"
    by (blast intro: spsc_reachable.intros spsc_step.intros)
  from spsc_linearizable_and_race_free [OF wf reach] reach show ?thesis by (intro exI [of _ ?s]) simp
qed

end
