(* ===== verification/Percentile.thy ===== *)
theory Percentile
  imports Prelude
begin

text \<open>
  The percentile the program reports for its latency samples. It is written three times: with
  \<open>std::nth_element\<close> in \<open>PlayoutControlStateMachine::PercentileLocked\<close> and
  \<open>OrchestrationLoop::ComputePercentile\<close>, and with \<open>std::sort\<close> in
  \<open>MetricsExporter::ComputePercentile\<close>. The standard leaves the order in which
  \<open>nth_element\<close> puts the other elements open: the locale \<open>nth_element_contract\<close> states
  what it promises, and every implementation that keeps the promise gives the same percentile.
\<close>

section \<open>The contract of \<open>std::nth_element\<close>\<close>

locale nth_element_contract =
  fixes nth_el :: "'a :: linorder list \<Rightarrow> nat \<Rightarrow> 'a list"
  assumes perm: "mset (nth_el xs k) = mset xs"
    and left: "k < length xs \<Longrightarrow> i < k \<Longrightarrow> nth_el xs k ! i \<le> nth_el xs k ! k"
    and right: "j < length xs \<Longrightarrow> k < j \<Longrightarrow> nth_el xs k ! k \<le> nth_el xs k ! j"
begin

lemma length_nth_el: "length (nth_el xs k) = length xs"
  using perm by (metis size_mset)

lemma nth_el_at:
  assumes k: "k < length xs"
  shows "nth_el xs k ! k = sort xs ! k"
proof -
  let ?ys = "nth_el xs k"
  let ?l = "sort (take k ?ys)" and ?r = "sort (drop (Suc k) ?ys)"
  have len: "k < length ?ys" using k by (simp add: length_nth_el)
  have split: "?ys = take k ?ys @ ?ys ! k # drop (Suc k) ?ys" using len by (rule id_take_nth_drop)
  have "\<forall>x \<in> set (take k ?ys). x \<le> ?ys ! k"
    using left [OF k] len by (auto simp: in_set_conv_nth)
  moreover have "\<forall>x \<in> set (drop (Suc k) ?ys). ?ys ! k \<le> x"
    using right by (auto simp: in_set_conv_nth length_nth_el)
  ultimately have "sorted (?l @ ?ys ! k # ?r)"
    by (auto simp: sorted_append intro: order_trans)
  moreover have "mset (?l @ ?ys ! k # ?r) = mset xs"
    using arg_cong [OF split, of mset] perm by (simp add: mset_append)
  ultimately have "sort xs = ?l @ ?ys ! k # ?r"
    by (intro properties_for_sort) simp_all
  then show ?thesis using len by (simp add: nth_append)
qed

end

text \<open>One implementation: a three-way partition around the element of rank \<open>k\<close>.\<close>

definition nth_element :: "'a :: linorder list \<Rightarrow> nat \<Rightarrow> 'a list" where
  "nth_element xs k =
     (let p = sort xs ! k
      in filter (\<lambda>x. x < p) xs @ filter (\<lambda>x. x = p) xs @ filter (\<lambda>x. p < x) xs)"

lemma mset_three_way: "mset (filter (\<lambda>x. x < p) xs @ filter (\<lambda>x. x = p) xs @ filter (\<lambda>x. p < x) xs) = mset xs"
  for p :: "'a :: linorder"
  by (induction xs) auto

lemma length_three_way:
  "length xs = length (filter (\<lambda>x. x < p) xs) + length (filter (\<lambda>x. x = p) xs) + length (filter (\<lambda>x. p < x) xs)"
  for p :: "'a :: linorder"
  using mset_eq_length [OF mset_three_way [of p xs]] by (simp only: length_append add.assoc)

lemma nth_append3:
  "i < length a \<Longrightarrow> (a @ b @ c) ! i \<in> set a"
  "\<not> i < length a \<Longrightarrow> i < length a + length b \<Longrightarrow> (a @ b @ c) ! i \<in> set b"
  "\<not> i < length a + length b \<Longrightarrow> i < length a + length b + length c \<Longrightarrow> (a @ b @ c) ! i \<in> set c"
proof -
  show "(a @ b @ c) ! i \<in> set a" if "i < length a" using that by (simp add: nth_append)
  show "(a @ b @ c) ! i \<in> set b" if "\<not> i < length a" "i < length a + length b"
  proof -
    have "i - length a < length b" using that by linarith
    with that show ?thesis by (simp add: nth_append)
  qed
  show "(a @ b @ c) ! i \<in> set c" if "\<not> i < length a + length b" "i < length a + length b + length c"
  proof -
    have "\<not> i < length a" "\<not> i - length a < length b" "i - length a - length b < length c"
      using that by linarith+
    then show ?thesis by (simp add: nth_append)
  qed
qed

text \<open>The rank \<open>k\<close> falls into the middle part.\<close>

lemma three_way_rank:
  assumes k: "k < length xs"
  defines "p \<equiv> sort xs ! k"
  shows "length (filter (\<lambda>x. x < p) xs) \<le> k"
    and "k < length (filter (\<lambda>x. x < p) xs) + length (filter (\<lambda>x. x = p) xs)"
proof -
  let ?a = "filter (\<lambda>x. x < p) xs" and ?b = "filter (\<lambda>x. x = p) xs" and ?c = "filter (\<lambda>x. p < x) xs"
  have "?b = replicate (length ?b) p"
    using replicate_length_filter [of p xs] by (simp add: eq_commute [of p])
  then have "sorted ?b" by (metis sorted_replicate)
  then have "sorted (sort ?a @ ?b @ sort ?c)"
    by (auto simp: sorted_append intro: less_imp_le order_trans)
  moreover have "mset (sort ?a @ ?b @ sort ?c) = mset xs" using mset_three_way [of p xs] by simp
  ultimately have s: "sort xs = sort ?a @ ?b @ sort ?c" by (intro properties_for_sort) simp_all
  have len: "length xs = length ?a + length ?b + length ?c"
    by (rule length_three_way)
  have at: "p = (sort ?a @ ?b @ sort ?c) ! k"
    unfolding s [symmetric] by (rule p_def [THEN meta_eq_to_obj_eq])
  show "length ?a \<le> k"
  proof (rule ccontr)
    assume "\<not> length ?a \<le> k"
    then have "k < length (sort ?a)" by simp
    then have "(sort ?a @ ?b @ sort ?c) ! k \<in> set (sort ?a)" by (rule nth_append3)
    then have "p \<in> set (sort ?a)" using at by metis
    then show False by simp
  qed
  show "k < length ?a + length ?b"
  proof (rule ccontr)
    assume ge: "\<not> k < length ?a + length ?b"
    then have "(sort ?a @ ?b @ sort ?c) ! k \<in> set (sort ?c)"
      using k len by (intro nth_append3) simp_all
    then have "p \<in> set (sort ?c)" using at by metis
    then show False by simp
  qed
qed

lemma nth_element_index:
  assumes "k < length xs" "i < length xs"
  defines "p \<equiv> sort xs ! k"
  shows "i \<le> k \<Longrightarrow> nth_element xs k ! i \<le> p" "k \<le> i \<Longrightarrow> p \<le> nth_element xs k ! i"
proof -
  let ?a = "filter (\<lambda>x. x < p) xs" and ?b = "filter (\<lambda>x. x = p) xs" and ?c = "filter (\<lambda>x. p < x) xs"
  have r: "length ?a \<le> k" "k < length ?a + length ?b"
    using three_way_rank [OF assms(1)] by (simp_all add: p_def)
  have len: "length xs = length ?a + length ?b + length ?c"
    by (rule length_three_way)
  have ne: "nth_element xs k = ?a @ ?b @ ?c" by (simp add: nth_element_def Let_def p_def)
  have a: "i < length ?a \<Longrightarrow> nth_element xs k ! i \<in> set ?a"
    unfolding ne by (rule nth_append3)
  have b: "\<not> i < length ?a \<Longrightarrow> i < length ?a + length ?b \<Longrightarrow> nth_element xs k ! i \<in> set ?b"
    unfolding ne by (rule nth_append3)
  have c: "\<not> i < length ?a + length ?b \<Longrightarrow> nth_element xs k ! i \<in> set ?c"
    using assms(2) len unfolding ne by (intro nth_append3) simp_all
  show "nth_element xs k ! i \<le> p" if "i \<le> k"
    using a b r that by (cases "i < length ?a") (simp_all add: less_imp_le)
  show "p \<le> nth_element xs k ! i" if "k \<le> i"
    using b c r that by (cases "i < length ?a + length ?b") (simp_all add: less_imp_le)
qed

lemma nth_element_at: "k < length xs \<Longrightarrow> nth_element xs k ! k = sort xs ! k"
  by (rule antisym) (simp_all add: nth_element_index)

interpretation std_nth_element: nth_element_contract "nth_element :: real list \<Rightarrow> nat \<Rightarrow> real list"
proof unfold_locales
  show "mset (nth_element xs k) = mset xs" for xs :: "real list" and k
    using mset_three_way [of "sort xs ! k" xs] by (simp add: nth_element_def Let_def)
qed (simp_all add: nth_element_at nth_element_index)

section \<open>The percentile functions\<close>

text \<open>The two \<open>nth_element\<close> versions: the second selection runs on the vector the first one
  rearranged.\<close>

definition percentile_by :: "(real list \<Rightarrow> nat \<Rightarrow> real list) \<Rightarrow> real list \<Rightarrow> real \<Rightarrow> real" where
  "percentile_by nth_el samples percentile =
     (if samples = [] then 0
      else let copy = samples;
               rank = percentile * real (length copy - 1);
               lower_index = nat \<lfloor>rank\<rfloor>;
               upper_index = nat \<lceil>rank\<rceil>;
               copy = nth_el copy lower_index;
               lower = copy ! lower_index
           in if upper_index = lower_index then lower
              else let copy = nth_el copy upper_index;
                       upper = copy ! upper_index;
                       fraction = rank - real lower_index
                   in lower + (upper - lower) * fraction)"

definition PercentileLocked :: "real list \<Rightarrow> real \<Rightarrow> real" where
  "PercentileLocked = percentile_by nth_element"

definition Loop_ComputePercentile :: "real list \<Rightarrow> real \<Rightarrow> real" where
  "Loop_ComputePercentile = percentile_by nth_element"

text \<open>The \<open>std::sort\<close> version of the metrics exporter.\<close>

definition Exporter_ComputePercentile :: "real list \<Rightarrow> real \<Rightarrow> real" where
  "Exporter_ComputePercentile values percentile =
     (if values = [] then 0
      else let sorted = sort values;
               rank = percentile * real (length sorted - 1);
               lower_index = nat \<lfloor>rank\<rfloor>;
               upper_index = nat \<lceil>rank\<rceil>;
               lower = sorted ! lower_index
           in if upper_index = lower_index then lower
              else let upper = sorted ! upper_index;
                       fraction = rank - real lower_index
                   in lower + (upper - lower) * fraction)"

lemma percentile_index:
  assumes "0 \<le> p" "p \<le> 1" "xs \<noteq> []"
  defines "rank \<equiv> p * real (length xs - 1)"
  shows "nat \<lfloor>rank\<rfloor> \<le> nat \<lceil>rank\<rceil>" "nat \<lceil>rank\<rceil> < length xs"
    "real (nat \<lfloor>rank\<rfloor>) \<le> rank" "rank \<le> real (nat \<lfloor>rank\<rfloor>) + 1"
    "nat \<lceil>rank\<rceil> \<noteq> nat \<lfloor>rank\<rfloor> \<Longrightarrow> nat \<lceil>rank\<rceil> = Suc (nat \<lfloor>rank\<rfloor>)"
proof -
  have r0: "0 \<le> rank" using assms by simp
  have r1: "rank \<le> real (length xs - 1)"
    using assms mult_right_mono [of p 1 "real (length xs - 1)"] by simp
  show "nat \<lfloor>rank\<rfloor> \<le> nat \<lceil>rank\<rceil>" by (simp add: nat_mono)
  have "nat \<lceil>rank\<rceil> \<le> length xs - 1" using r1 by (simp add: ceiling_le_iff)
  moreover have "0 < length xs" using assms(3) by simp
  ultimately show "nat \<lceil>rank\<rceil> < length xs" by linarith
  show "real (nat \<lfloor>rank\<rfloor>) \<le> rank" "rank \<le> real (nat \<lfloor>rank\<rfloor>) + 1" using r0 by simp_all
  show "nat \<lceil>rank\<rceil> = Suc (nat \<lfloor>rank\<rfloor>)" if "nat \<lceil>rank\<rceil> \<noteq> nat \<lfloor>rank\<rfloor>"
    using r0 that by (simp add: ceiling_altdef nat_add_distrib split: if_splits)
qed

context nth_element_contract
begin

lemma second_selection:
  assumes "j < length xs"
  shows "nth_el (nth_el xs i) j ! j = sort xs ! j"
proof -
  have "sort (nth_el xs i) = sort xs" by (rule properties_for_sort [symmetric]) (simp_all add: perm)
  then show ?thesis using assms nth_el_at [of j "nth_el xs i"] by (simp add: length_nth_el)
qed

end

text \<open>Every \<open>nth_element\<close> that keeps its contract computes what the sorting version computes.\<close>

lemma percentile_by_eq:
  assumes "nth_element_contract nth_el" "0 \<le> p" "p \<le> 1"
  shows "percentile_by nth_el xs p = Exporter_ComputePercentile xs p"
proof (cases "xs = []")
  case True
  then show ?thesis by (simp add: percentile_by_def Exporter_ComputePercentile_def)
next
  case False
  note i = percentile_index [OF assms(2,3) False]
  have "nat \<lfloor>p * real (length xs - 1)\<rfloor> < length xs" using i(1,2) by linarith
  with i(2) assms(1) False show ?thesis
    by (simp add: percentile_by_def Exporter_ComputePercentile_def Let_def
        nth_element_contract.nth_el_at nth_element_contract.second_selection)
qed

section \<open>Interpolation between the order statistics\<close>

definition interpolate :: "real list \<Rightarrow> real \<Rightarrow> real" where
  "interpolate ys r = ys ! nat \<lfloor>r\<rfloor> + (ys ! nat \<lceil>r\<rceil> - ys ! nat \<lfloor>r\<rfloor>) * (r - real (nat \<lfloor>r\<rfloor>))"

lemma Exporter_interpolate:
  "xs \<noteq> [] \<Longrightarrow> Exporter_ComputePercentile xs p = interpolate (sort xs) (p * real (length xs - 1))"
  by (simp add: Exporter_ComputePercentile_def interpolate_def Let_def)

lemma interpolate_between:
  assumes "sorted ys" "0 \<le> r" "nat \<lceil>r\<rceil> < length ys"
  shows "ys ! nat \<lfloor>r\<rfloor> \<le> interpolate ys r" "interpolate ys r \<le> ys ! nat \<lceil>r\<rceil>"
proof -
  let ?d = "ys ! nat \<lceil>r\<rceil> - ys ! nat \<lfloor>r\<rfloor>" and ?f = "r - real (nat \<lfloor>r\<rfloor>)"
  have "nat \<lfloor>r\<rfloor> \<le> nat \<lceil>r\<rceil>" by (simp add: nat_mono)
  with assms have d: "0 \<le> ?d" by (simp add: sorted_nth_mono)
  have f: "0 \<le> ?f" "?f \<le> 1" using assms(2) by simp_all linarith
  show "ys ! nat \<lfloor>r\<rfloor> \<le> interpolate ys r" using d f by (simp add: interpolate_def)
  have "?d * ?f \<le> ?d" using mult_left_mono [OF f(2) d] by simp
  then show "interpolate ys r \<le> ys ! nat \<lceil>r\<rceil>" by (simp add: interpolate_def)
qed

lemma interpolate_mono:
  assumes "sorted ys" "0 \<le> r" "r \<le> r'" "nat \<lceil>r'\<rceil> < length ys"
  shows "interpolate ys r \<le> interpolate ys r'"
proof (cases "\<lfloor>r\<rfloor> = \<lfloor>r'\<rfloor>")
  case True
  show ?thesis
  proof (cases "r = r'")
    case False
    have le: "ys ! nat \<lfloor>r'\<rfloor> \<le> ys ! nat \<lceil>r'\<rceil>"
      using assms by (intro sorted_nth_mono) (simp_all add: nat_mono)
    show ?thesis
    proof (cases "r = of_int \<lfloor>r\<rfloor>")
      case True
      then have "interpolate ys r = ys ! nat \<lfloor>r'\<rfloor>"
        using \<open>\<lfloor>r\<rfloor> = \<lfloor>r'\<rfloor>\<close> assms(2) by (simp add: interpolate_def)
      then show ?thesis using interpolate_between(1) [OF assms(1) _ assms(4)] assms by simp
    next
      case False
      then have "\<lceil>r\<rceil> = \<lfloor>r\<rfloor> + 1" by (simp add: ceiling_altdef)
      moreover have "r' \<noteq> of_int \<lfloor>r'\<rfloor>"
        using \<open>\<lfloor>r\<rfloor> = \<lfloor>r'\<rfloor>\<close> \<open>r \<noteq> r'\<close> assms(3) of_int_floor_le [of r] by linarith
      then have "\<lceil>r'\<rceil> = \<lfloor>r'\<rfloor> + 1" by (simp add: ceiling_altdef)
      ultimately have c: "\<lceil>r\<rceil> = \<lceil>r'\<rceil>" using True by simp
      have "(ys ! nat \<lceil>r'\<rceil> - ys ! nat \<lfloor>r'\<rfloor>) * (r - real (nat \<lfloor>r'\<rfloor>))
          \<le> (ys ! nat \<lceil>r'\<rceil> - ys ! nat \<lfloor>r'\<rfloor>) * (r' - real (nat \<lfloor>r'\<rfloor>))"
        using le assms(3) by (intro mult_left_mono) simp_all
      then show ?thesis using c True by (simp add: interpolate_def)
    qed
  qed simp
next
  case False
  then have "\<lfloor>r\<rfloor> < \<lfloor>r'\<rfloor>" using assms(3) floor_mono [OF assms(3)] by linarith
  then have c: "\<lceil>r\<rceil> \<le> \<lfloor>r'\<rfloor>" by linarith
  have n: "nat \<lfloor>r'\<rfloor> < length ys" using assms(4) by (meson le_less_trans nat_mono floor_le_ceiling)
  have "nat \<lceil>r\<rceil> < length ys" using c n by (meson le_less_trans nat_mono)
  then have "interpolate ys r \<le> ys ! nat \<lceil>r\<rceil>" using assms by (intro interpolate_between) auto
  also have "\<dots> \<le> ys ! nat \<lfloor>r'\<rfloor>" using nat_mono [OF c] n assms(1) by (simp only: sorted_nth_mono)
  also have "\<dots> \<le> interpolate ys r'" using assms by (intro interpolate_between) auto
  finally show ?thesis .
qed

lemma PercentileLocked_interpolate:
  assumes "xs \<noteq> []" "0 \<le> p" "p \<le> 1"
  shows "PercentileLocked xs p = interpolate (sort xs) (p * real (length xs - 1))"
  using percentile_by_eq [OF std_nth_element.nth_element_contract_axioms assms(2,3)] assms(1)
  by (simp add: PercentileLocked_def Exporter_interpolate)

lemma sort_nth_between:
  assumes "k < length xs"
  shows "Min (set xs) \<le> sort xs ! k" "sort xs ! k \<le> Max (set xs)"
proof -
  have "sort xs ! k \<in> set xs" using nth_mem [of k "sort xs"] assms by simp
  then show "Min (set xs) \<le> sort xs ! k" "sort xs ! k \<le> Max (set xs)" by simp_all
qed

section \<open>Properties\<close>

text \<open>
  C36. The three percentile functions of the program agree on every list of samples, whichever way
  std::nth_element rearranges the vector; the result lies between the least and the greatest sample
  and never decreases when the requested percentile grows.
\<close>

theorem percentiles_agree:
  assumes "nth_element_contract nth_el" and "0 \<le> p" and "p \<le> q" and "q \<le> 1" and "xs \<noteq> []"
  shows "percentile_by nth_el xs p = PercentileLocked xs p
    \<and> Loop_ComputePercentile xs p = PercentileLocked xs p
    \<and> Exporter_ComputePercentile xs p = PercentileLocked xs p
    \<and> Min (set xs) \<le> PercentileLocked xs p
    \<and> PercentileLocked xs p \<le> PercentileLocked xs q
    \<and> PercentileLocked xs q \<le> Max (set xs)"
proof -
  have pq: "p \<le> 1" "0 \<le> q" using assms by linarith+
  let ?rp = "p * real (length xs - 1)" and ?rq = "q * real (length xs - 1)"
  note ip = percentile_index [OF assms(2) pq(1) assms(5)]
    and iq = percentile_index [OF pq(2) assms(4,5)]
  note eqs = PercentileLocked_interpolate [OF assms(5,2) pq(1)]
    PercentileLocked_interpolate [OF assms(5) pq(2) assms(4)]
  have r: "0 \<le> ?rp" "?rp \<le> ?rq" using assms by (simp_all add: mult_right_mono)
  have sr: "nat \<lceil>?rp\<rceil> < length (sort xs)" "nat \<lceil>?rq\<rceil> < length (sort xs)"
    using ip(2) iq(2) by (simp_all only: length_sort)
  have "Min (set xs) \<le> sort xs ! nat \<lfloor>?rp\<rfloor>"
    using ip(1,2) by (intro sort_nth_between) linarith
  also have "\<dots> \<le> PercentileLocked xs p"
    unfolding eqs by (rule interpolate_between(1) [OF sorted_sort r(1) sr(1)])
  finally have lo: "Min (set xs) \<le> PercentileLocked xs p" .
  have "PercentileLocked xs q \<le> sort xs ! nat \<lceil>?rq\<rceil>"
    unfolding eqs by (rule interpolate_between(2) [OF sorted_sort order_trans [OF r] sr(2)])
  also have "\<dots> \<le> Max (set xs)" using iq(2) by (rule sort_nth_between)
  finally have hi: "PercentileLocked xs q \<le> Max (set xs)" .
  have "PercentileLocked xs p \<le> PercentileLocked xs q"
    unfolding eqs by (rule interpolate_mono [OF sorted_sort r sr(2)])
  with lo hi percentile_by_eq [OF assms(1,2) pq(1), of xs]
    percentile_by_eq [OF std_nth_element.nth_element_contract_axioms assms(2) pq(1), of xs]
  show ?thesis by (simp add: PercentileLocked_def Loop_ComputePercentile_def)
qed

theorem percentiles_agree_witness:
  "Exporter_ComputePercentile [30, 10, 20] (1 / 4) = 15 \<and> PercentileLocked [30, 10, 20] (1 / 4) = 15
   \<and> PercentileLocked [30, 10, 20] (1 / 4) \<le> PercentileLocked [30, 10, 20 :: real] (1 / 2)"
proof -
  have v: "Exporter_ComputePercentile [30, 10, 20] (1 / 4) = 15"
    by (simp add: Exporter_ComputePercentile_def Let_def)
  have "(0 :: real) \<le> 1 / 4" "(1 / 4 :: real) \<le> 1 / 2" "(1 / 2 :: real) \<le> 1"
    "[30, 10, 20 :: real] \<noteq> []" by simp_all
  from percentiles_agree [OF std_nth_element.nth_element_contract_axioms this] v show ?thesis by simp
qed

end
