(* ===== verification/MasterClock.thy ===== *)
theory MasterClock
  imports Prelude
begin

text \<open>
  The clocks (\<open>include/retrovue/timing/MasterClock.h\<close>, \<open>src/timing/\<close>): the system clock of
  the server, the settable clock of the tests, the mapping from presentation time to UTC deadlines,
  and the sleep loop that every consumer of the clock uses. Reading the time is outside the program:
  the successive values a loop reads are a parameter \<open>clk :: nat \<Rightarrow> time_us\<close>, and
  \<open>sleeps_through\<close> states what \<open>std::this_thread::sleep_for\<close> promises, that a sleep lasts
  at least as long as asked.
\<close>

section \<open>The system clock\<close>

definition kMillion :: real where
  "kMillion = 1000000"

record system_clock =
  smc_epoch_utc_us :: time_us
  smc_rate_ppm :: real
  smc_drift_ppm :: real

definition MakeSystemMasterClock :: "time_us \<Rightarrow> real \<Rightarrow> system_clock" where
  "MakeSystemMasterClock epoch_utc_us rate_ppm =
     \<lparr>smc_epoch_utc_us = epoch_utc_us, smc_rate_ppm = rate_ppm, smc_drift_ppm = 0\<rparr>"

definition smc_scheduled_to_utc_us :: "system_clock \<Rightarrow> time_us \<Rightarrow> time_us" where
  "smc_scheduled_to_utc_us c pts_us =
     (let scale = 1 + (smc_rate_ppm c + smc_drift_ppm c) / kMillion;
          adjusted = real_of_int pts_us * scale;
          rounded = llround adjusted
      in smc_epoch_utc_us c + rounded)"

definition smc_set_drift_ppm :: "system_clock \<Rightarrow> real \<Rightarrow> system_clock" where
  "smc_set_drift_ppm c ppm = c\<lparr>smc_drift_ppm := ppm\<rparr>"

definition smc_set_rate_ppm :: "system_clock \<Rightarrow> real \<Rightarrow> system_clock" where
  "smc_set_rate_ppm c ppm = c\<lparr>smc_rate_ppm := ppm\<rparr>"

definition smc_set_epoch_utc_us :: "system_clock \<Rightarrow> time_us \<Rightarrow> system_clock" where
  "smc_set_epoch_utc_us c epoch_utc_us = c\<lparr>smc_epoch_utc_us := epoch_utc_us\<rparr>"

section \<open>The test clock\<close>

datatype clock_mode = RealTime | Deterministic

record test_clock =
  tmc_mode :: clock_mode
  tmc_utc_us :: time_us
  tmc_monotonic_s :: real
  tmc_epoch_utc_us :: time_us
  tmc_rate_ppm :: real
  tmc_drift_ppm :: real
  tmc_max_wait_us :: time_us

definition TestMasterClock :: "clock_mode \<Rightarrow> test_clock" where
  "TestMasterClock mode =
     \<lparr>tmc_mode = mode, tmc_utc_us = 0, tmc_monotonic_s = 0, tmc_epoch_utc_us = 0,
      tmc_rate_ppm = 0, tmc_drift_ppm = 0, tmc_max_wait_us = 0\<rparr>"

definition TestMasterClock_at :: "time_us \<Rightarrow> clock_mode \<Rightarrow> test_clock" where
  "TestMasterClock_at start_time_us mode =
     \<lparr>tmc_mode = mode, tmc_utc_us = start_time_us,
      tmc_monotonic_s = real_of_int start_time_us / kMillion, tmc_epoch_utc_us = 0,
      tmc_rate_ppm = 0, tmc_drift_ppm = 0, tmc_max_wait_us = 0\<rparr>"

definition tmc_is_fake :: "test_clock \<Rightarrow> bool" where
  "tmc_is_fake c \<longleftrightarrow> tmc_mode c = Deterministic"

definition tmc_now_utc_us :: "test_clock \<Rightarrow> time_us" where
  "tmc_now_utc_us c = tmc_utc_us c"

definition tmc_now_monotonic_s :: "test_clock \<Rightarrow> real" where
  "tmc_now_monotonic_s c = tmc_monotonic_s c"

definition tmc_drift :: "test_clock \<Rightarrow> real" where
  "tmc_drift c = tmc_drift_ppm c"

definition tmc_scheduled_to_utc_us :: "test_clock \<Rightarrow> time_us \<Rightarrow> time_us" where
  "tmc_scheduled_to_utc_us c pts_us =
     (let scale = 1 + (tmc_rate_ppm c + tmc_drift_ppm c) / kMillion;
          adjusted = real_of_int pts_us * scale;
          rounded = llround adjusted
      in tmc_epoch_utc_us c + rounded)"

definition SetNow :: "test_clock \<Rightarrow> time_us \<Rightarrow> real \<Rightarrow> test_clock" where
  "SetNow c utc_us monotonic_s = c\<lparr>tmc_utc_us := utc_us, tmc_monotonic_s := monotonic_s\<rparr>"

definition set_time_us :: "test_clock \<Rightarrow> time_us \<Rightarrow> test_clock" where
  "set_time_us c time_us = SetNow c time_us (real_of_int time_us / kMillion)"

definition AdvanceMicroseconds :: "test_clock \<Rightarrow> time_us \<Rightarrow> test_clock" where
  "AdvanceMicroseconds c delta_us =
     (let delta_s = real_of_int delta_us / kMillion
      in c\<lparr>tmc_utc_us := tmc_utc_us c + delta_us, tmc_monotonic_s := tmc_monotonic_s c + delta_s\<rparr>)"

definition AdvanceSeconds :: "test_clock \<Rightarrow> real \<Rightarrow> test_clock" where
  "AdvanceSeconds c delta_s = AdvanceMicroseconds c (llround (delta_s * kMillion))"

definition SetDriftPpm :: "test_clock \<Rightarrow> real \<Rightarrow> test_clock" where
  "SetDriftPpm c ppm = c\<lparr>tmc_drift_ppm := ppm\<rparr>"

definition SetEpochUtcUs :: "test_clock \<Rightarrow> time_us \<Rightarrow> test_clock" where
  "SetEpochUtcUs c epoch_utc_us = c\<lparr>tmc_epoch_utc_us := epoch_utc_us\<rparr>"

definition SetRatePpm :: "test_clock \<Rightarrow> real \<Rightarrow> test_clock" where
  "SetRatePpm c rate_ppm = c\<lparr>tmc_rate_ppm := rate_ppm\<rparr>"

definition SetMaxWaitUs :: "test_clock \<Rightarrow> time_us \<Rightarrow> test_clock" where
  "SetMaxWaitUs c max_wait_us = c\<lparr>tmc_max_wait_us := max_wait_us\<rparr>"

section \<open>The sleep loop\<close>

text \<open>How long one round of a wait sleeps when \<open>remaining\<close> microseconds are left.\<close>

definition wait_sleep_us :: "time_us \<Rightarrow> time_us" where
  "wait_sleep_us remaining =
     (if 2000 < remaining then remaining - 1000 else max (remaining sdiv 2) 200)"

text \<open>\<open>WaitUntilUtcUs\<close>: read the clock, leave when the target is reached, else sleep and read
  again. The result is the number of the read that ended the loop; \<open>None\<close> is a wait that never
  ends.\<close>

partial_function (option) wait_until_utc_us :: "(nat \<Rightarrow> time_us) \<Rightarrow> time_us \<Rightarrow> nat \<Rightarrow> nat option" where
  "wait_until_utc_us clk target i =
     (let remaining = target - clk i
      in if remaining \<le> 0 then Some i else wait_until_utc_us clk target (Suc i))"

definition sleeps_through :: "(nat \<Rightarrow> time_us) \<Rightarrow> time_us \<Rightarrow> bool" where
  "sleeps_through clk target \<longleftrightarrow>
     (\<forall>i. clk i < target \<longrightarrow> clk i + wait_sleep_us (target - clk i) \<le> clk (Suc i))"

text \<open>A deterministic test clock blocks on a condition variable instead: \<open>now\<close> is the clock when
  the wait starts and \<open>ticks\<close> the values it is set to while the wait lasts. The wait ends at the
  first value that reaches the target, or after \<open>max_wait_us\<close> when one is set; else it is still
  blocked.\<close>

datatype cv_outcome = Reached time_us | TimedOut | Blocked

definition tmc_cv_wait :: "test_clock \<Rightarrow> time_us \<Rightarrow> time_us list \<Rightarrow> cv_outcome" where
  "tmc_cv_wait c target ticks =
     (case List.find (\<lambda>t. target \<le> t) (tmc_utc_us c # ticks) of
        Some t \<Rightarrow> Reached t
      | None \<Rightarrow> if 0 < tmc_max_wait_us c then TimedOut else Blocked)"

text \<open>The wait of the test clock in either mode: on a condition variable, or by sleeping through the readings
  \<open>clk\<close> from reading \<open>0\<close> on.\<close>

datatype test_wait = OnCondition cv_outcome | BySleeping "nat option"

definition tmc_WaitUntilUtcUs :: "test_clock \<Rightarrow> time_us \<Rightarrow> time_us list \<Rightarrow> (nat \<Rightarrow> time_us) \<Rightarrow> test_wait" where
  "tmc_WaitUntilUtcUs c target ticks clk =
     (if tmc_mode c = Deterministic then OnCondition (tmc_cv_wait c target ticks)
      else BySleeping (wait_until_utc_us clk target 0))"

lemma tmc_set_and_read:
  "tmc_now_utc_us (SetNow c u m) = u" "tmc_now_monotonic_s (SetNow c u m) = m"
  "tmc_now_utc_us (AdvanceMicroseconds c d) = tmc_now_utc_us c + d" "tmc_drift (SetDriftPpm c ppm) = ppm"
  by (simp_all add: tmc_now_utc_us_def tmc_now_monotonic_s_def tmc_drift_def SetNow_def AdvanceMicroseconds_def
      SetDriftPpm_def Let_def)

section \<open>The clock contract\<close>

text \<open>What the consumers of a clock rely on: presentation time maps to UTC without reordering, and
  differences are kept up to rounding and the configured rate.\<close>

locale master_clock =
  fixes scheduled :: "time_us \<Rightarrow> time_us"
    and scale :: real
  assumes scale_nonneg: "0 \<le> scale"
    and scheduled_diff: "\<bar>real_of_int (scheduled q - scheduled p) - scale * real_of_int (q - p)\<bar> \<le> 1"
    and scheduled_mono: "p \<le> q \<Longrightarrow> scheduled p \<le> scheduled q"
begin

lemma deadlines_sorted: "sorted ps \<Longrightarrow> sorted (map scheduled ps)"
  by (induction ps) (auto intro: scheduled_mono)

lemma cadence: "scale * real_of_int d - 1 \<le> real_of_int (scheduled (p + d) - scheduled p)"
  using scheduled_diff [of "p + d" p] by (simp add: abs_le_iff)

end

lemma affine_schedule_diff:
  "\<bar>real_of_int ((e + llround (real_of_int q * s)) - (e + llround (real_of_int p * s))) - s * real_of_int (q - p)\<bar> \<le> 1"
  using abs_le_D1 [OF llround_bounds, of "real_of_int q * s"] abs_le_D2 [OF llround_bounds, of "real_of_int q * s"]
    abs_le_D1 [OF llround_bounds, of "real_of_int p * s"] abs_le_D2 [OF llround_bounds, of "real_of_int p * s"]
  by (intro abs_leI) (simp_all add: algebra_simps)

lemma affine_schedule_mono:
  "0 \<le> s \<Longrightarrow> p \<le> q \<Longrightarrow> e + llround (real_of_int p * s) \<le> e + llround (real_of_int q * s)"
  by (simp add: llround_mono mult_right_mono)

text \<open>The server's clock (\<open>RunServer\<close> builds it with rate 0) keeps the contract with scale 1.\<close>

interpretation server_clock: master_clock "smc_scheduled_to_utc_us (MakeSystemMasterClock e 0)" 1 for e
  by unfold_locales (simp_all add: smc_scheduled_to_utc_us_def MakeSystemMasterClock_def Let_def)

text \<open>So does a test clock at its default rate, wherever its epoch is set.\<close>

interpretation default_test_clock:
  master_clock "tmc_scheduled_to_utc_us (SetEpochUtcUs (TestMasterClock m) e)" 1 for m e
  by unfold_locales (simp_all add: tmc_scheduled_to_utc_us_def SetEpochUtcUs_def TestMasterClock_def Let_def)

section \<open>Bounding the sleep loop\<close>

lemma wait_sleep_us_200: "200 \<le> wait_sleep_us r"
  by (simp add: wait_sleep_us_def)

text \<open>The number of sleeps a wait still needs at most.\<close>

definition sleeps_needed :: "time_us \<Rightarrow> nat" where
  "sleeps_needed r = (if r \<le> 0 then 0 else if r \<le> 200 then 1 else if r \<le> 400 then 2
     else if r \<le> 800 then 3 else if r \<le> 1600 then 4 else 5)"

lemma sleeps_needed_mono: "r \<le> r' \<Longrightarrow> sleeps_needed r \<le> sleeps_needed r'"
  by (simp add: sleeps_needed_def)

lemma sleeps_needed_decreases: "0 < r \<Longrightarrow> sleeps_needed (r - wait_sleep_us r) < sleeps_needed r"
proof -
  assume r: "0 < r"
  then have "r sdiv 2 = r div 2" by (simp add: sdiv_pos)
  with r show ?thesis by (auto simp: sleeps_needed_def wait_sleep_us_def max_def)
qed

lemma wait_until_utc_us_returns:
  assumes "sleeps_through clk target" "sleeps_needed (target - clk i) \<le> n"
  shows "\<exists>j. i \<le> j \<and> j \<le> i + n \<and> wait_until_utc_us clk target i = Some j \<and> target \<le> clk j"
  using assms(2)
proof (induction n arbitrary: i)
  case 0
  then have "target \<le> clk i" by (simp add: sleeps_needed_def split: if_splits)
  then show ?case by (subst wait_until_utc_us.simps) simp
next
  case (Suc n)
  show ?case
  proof (cases "target \<le> clk i")
    case True
    then show ?thesis by (subst wait_until_utc_us.simps) auto
  next
    case False
    then have "target - clk (Suc i) \<le> (target - clk i) - wait_sleep_us (target - clk i)"
      using assms(1) by (simp add: sleeps_through_def algebra_simps)
    then have "sleeps_needed (target - clk (Suc i)) \<le> n"
      using sleeps_needed_mono sleeps_needed_decreases [of "target - clk i"] False Suc.prems
      by (meson diff_gt_0_iff_gt le_less_trans less_Suc_eq_le not_le order_less_le_trans)
    from Suc.IH [OF this] obtain j where
      "Suc i \<le> j" "j \<le> Suc i + n" "wait_until_utc_us clk target (Suc i) = Some j" "target \<le> clk j" by blast
    with False show ?thesis by (subst wait_until_utc_us.simps) (auto intro!: exI [of _ j])
  qed
qed

lemma sleeps_needed_le_5: "sleeps_needed r \<le> 5"
  by (simp add: sleeps_needed_def)

text \<open>A clock that advances by exactly what was slept overshoots by less than the minimum sleep.\<close>

lemma exact_overshoot: "0 < r \<Longrightarrow> - 200 < r - wait_sleep_us r"
  by (auto simp: wait_sleep_us_def max_def sdiv_pos)

lemma exact_sleeps_through: "(\<And>i. clk (Suc i) = clk i + wait_sleep_us (target - clk i)) \<Longrightarrow> sleeps_through clk target"
  by (simp add: sleeps_through_def)

lemma exact_wait_overshoot:
  assumes exact: "\<And>i. clk (Suc i) = clk i + wait_sleep_us (target - clk i)"
    and ret: "wait_until_utc_us clk target i = Some j" and start: "clk i < target + 200"
  shows "clk j < target + 200"
proof -
  have "sleeps_needed (target - clk i) \<le> n \<Longrightarrow> wait_until_utc_us clk target i = Some j \<Longrightarrow>
      clk i < target + 200 \<Longrightarrow> clk j < target + 200" for n
  proof (induction n arbitrary: i)
    case 0
    then have "target \<le> clk i" by (simp add: sleeps_needed_def split: if_splits)
    with 0 show ?case by (subst (asm) wait_until_utc_us.simps) simp
  next
    case (Suc n)
    show ?case
    proof (cases "target \<le> clk i")
      case True
      with Suc.prems show ?thesis by (subst (asm) wait_until_utc_us.simps) simp
    next
      case False
      have r: "target - clk (Suc i) = (target - clk i) - wait_sleep_us (target - clk i)"
        by (simp add: exact)
      have "sleeps_needed (target - clk (Suc i)) \<le> n"
        using sleeps_needed_decreases [of "target - clk i"] False Suc.prems(1) unfolding r by simp
      moreover have "wait_until_utc_us clk target (Suc i) = Some j"
        using Suc.prems(2) False by (subst (asm) wait_until_utc_us.simps) simp
      moreover have "clk (Suc i) < target + 200"
        using exact_overshoot [of "target - clk i"] False r by simp
      ultimately show ?thesis by (rule Suc.IH)
    qed
  qed
  then show ?thesis using ret start by blast
qed

section \<open>Properties\<close>

text \<open>
  C35. A wait on the clock always returns, after at most five sleeps however far away its target is,
  and never before the clock has reached the target, provided a sleep lasts at least as long as
  asked; when sleeps last exactly as long as asked, it returns less than 200 microseconds late.
\<close>

theorem wait_returns_on_time:
  assumes "sleeps_through clk target"
  shows "\<exists>j \<le> i + 5. wait_until_utc_us clk target i = Some j \<and> target \<le> clk j
    \<and> ((\<forall>k. clk (Suc k) = clk k + wait_sleep_us (target - clk k)) \<longrightarrow> clk i < target + 200
        \<longrightarrow> clk j < target + 200)"
proof -
  obtain j where "i \<le> j" "j \<le> i + 5" and j: "wait_until_utc_us clk target i = Some j" "target \<le> clk j"
    using wait_until_utc_us_returns [OF assms sleeps_needed_le_5] by blast
  then show ?thesis using exact_wait_overshoot [OF _ j(1)] by blast
qed

theorem wait_returns_on_time_witness:
  "\<exists>j \<le> 5. wait_until_utc_us (\<lambda>i. if i = 0 then 0 else 2500000) 2500000 0 = Some j
     \<and> 2500000 \<le> (if j = 0 then 0 else (2500000 :: int))"
proof -
  have "sleeps_through (\<lambda>i. if i = 0 then 0 else 2500000) 2500000"
    by (simp add: sleeps_through_def wait_sleep_us_def)
  from wait_returns_on_time [OF this, of 0] show ?thesis unfolding add_0 by blast
qed

text \<open>
  Deadlines are computed alike by the system clock and the test clock; as long as the configured
  rate and drift sum to at least -10^6 ppm they never reorder presentation times, they are within one
  microsecond of the exact affine map between any two frames, and at rate and drift zero the deadline
  is exactly the epoch plus the presentation time.
\<close>

theorem deadlines_affine_and_ordered:
  assumes "- kMillion \<le> smc_rate_ppm c + smc_drift_ppm c" and "p \<le> q"
    and "tmc_epoch_utc_us t = smc_epoch_utc_us c" and "tmc_rate_ppm t = smc_rate_ppm c"
    and "tmc_drift_ppm t = smc_drift_ppm c"
  shows "smc_scheduled_to_utc_us c p \<le> smc_scheduled_to_utc_us c q
    \<and> \<bar>real_of_int (smc_scheduled_to_utc_us c q - smc_scheduled_to_utc_us c p)
        - (1 + (smc_rate_ppm c + smc_drift_ppm c) / kMillion) * real_of_int (q - p)\<bar> \<le> 1
    \<and> tmc_scheduled_to_utc_us t p = smc_scheduled_to_utc_us c p
    \<and> smc_scheduled_to_utc_us (smc_set_drift_ppm (smc_set_rate_ppm c 0) 0) p = smc_epoch_utc_us c + p"
proof -
  let ?s = "1 + (smc_rate_ppm c + smc_drift_ppm c) / kMillion"
  have "0 \<le> ?s" using assms(1) by (simp add: kMillion_def field_simps)
  moreover have "smc_scheduled_to_utc_us c x = smc_epoch_utc_us c + llround (real_of_int x * ?s)" for x
    by (simp add: smc_scheduled_to_utc_us_def Let_def)
  ultimately show ?thesis
    using affine_schedule_mono [of ?s p q "smc_epoch_utc_us c"] assms(2-)
      affine_schedule_diff [of "smc_epoch_utc_us c" q ?s p]
    by (simp add: tmc_scheduled_to_utc_us_def smc_scheduled_to_utc_us_def smc_set_drift_ppm_def
        smc_set_rate_ppm_def Let_def)
qed

theorem deadlines_affine_and_ordered_witness:
  "smc_scheduled_to_utc_us (MakeSystemMasterClock 1000 100) 10000
     \<le> smc_scheduled_to_utc_us (MakeSystemMasterClock 1000 100) 43366
   \<and> tmc_scheduled_to_utc_us (SetRatePpm (SetEpochUtcUs (TestMasterClock RealTime) 1000) 100) 10000
     = smc_scheduled_to_utc_us (MakeSystemMasterClock 1000 100) 10000"
proof -
  let ?c = "MakeSystemMasterClock 1000 100"
    and ?t = "SetRatePpm (SetEpochUtcUs (TestMasterClock RealTime) 1000) 100"
  have 1: "- kMillion \<le> smc_rate_ppm ?c + smc_drift_ppm ?c"
    by (simp add: MakeSystemMasterClock_def kMillion_def)
  have 2: "(10000 :: int) \<le> 43366" by simp
  have 3: "tmc_epoch_utc_us ?t = smc_epoch_utc_us ?c" "tmc_rate_ppm ?t = smc_rate_ppm ?c"
      "tmc_drift_ppm ?t = smc_drift_ppm ?c"
    by (simp_all add: SetRatePpm_def SetEpochUtcUs_def TestMasterClock_def MakeSystemMasterClock_def)
  from deadlines_affine_and_ordered [OF 1 2 3] show ?thesis by simp
qed

section \<open>The test clock keeps its two times in step\<close>

datatype clock_op = Advance time_us | SetTime time_us | AdvanceS int

fun tmc_apply :: "test_clock \<Rightarrow> clock_op \<Rightarrow> test_clock" where
  "tmc_apply c (Advance d) = AdvanceMicroseconds c d"
| "tmc_apply c (SetTime t) = set_time_us c t"
| "tmc_apply c (AdvanceS s) = AdvanceSeconds c (real_of_int s)"

lemma tmc_apply_in_step:
  "tmc_monotonic_s c = real_of_int (tmc_utc_us c) / kMillion \<Longrightarrow>
   tmc_monotonic_s (tmc_apply c op) = real_of_int (tmc_utc_us (tmc_apply c op)) / kMillion"
  by (cases op)
    (simp_all add: AdvanceMicroseconds_def AdvanceSeconds_def set_time_us_def SetNow_def Let_def add_divide_distrib)

lemma tmc_run_in_step:
  "tmc_monotonic_s c = real_of_int (tmc_utc_us c) / kMillion \<Longrightarrow>
   tmc_monotonic_s (foldl tmc_apply c ops) = real_of_int (tmc_utc_us (foldl tmc_apply c ops)) / kMillion"
  by (induction ops arbitrary: c) (simp_all add: tmc_apply_in_step)

section \<open>Polling loops\<close>

text \<open>
  The producers and the renderer poll a clock: \<open>while (now < deadline && !stop) { sleep; now = read }\<close>.
  Reading number \<open>i\<close> of the clock is \<open>clk i\<close>, and \<open>stop i\<close> is the stop flag tested with it.
  The result is the number of the first reading not used up; \<open>None\<close> is a loop that never ends.
\<close>

partial_function (option) poll_clock :: "(nat \<Rightarrow> time_us) \<Rightarrow> (nat \<Rightarrow> bool) \<Rightarrow> time_us \<Rightarrow> nat \<Rightarrow> nat option" where
  "poll_clock clk stop deadline i =
     (if clk i < deadline \<and> \<not> stop i then poll_clock clk stop deadline (Suc i) else Some (Suc i))"

lemma poll_clock_done: "deadline \<le> clk i \<or> stop i \<Longrightarrow> poll_clock clk stop deadline i = Some (Suc i)"
  by (subst poll_clock.simps) auto

lemma poll_clock_Some:
  "poll_clock clk stop deadline i = Some j \<Longrightarrow>
    i < j \<and> (deadline \<le> clk (j - 1) \<or> stop (j - 1))
    \<and> (\<forall>k. i \<le> k \<longrightarrow> k < j - 1 \<longrightarrow> clk k < deadline \<and> \<not> stop k)"
proof (induction rule: poll_clock.raw_induct [rotated 1, consumes 1])
  case (1 poll clk stop deadline i j)
  show ?case
  proof (cases "clk i < deadline \<and> \<not> stop i")
    case True
    with 1(2) have "poll clk stop deadline (Suc i) = Some j" by simp
    from 1(1) [OF this] True show ?thesis by (metis Suc_leI Suc_lessD le_neq_implies_less)
  next
    case False
    with 1(2) show ?thesis by auto
  qed
qed

text \<open>A loop ends as soon as the clock reaches the deadline or the flag is raised.\<close>

lemma poll_clock_ends:
  assumes "i \<le> k" and "deadline \<le> clk k \<or> stop k"
  shows "\<exists>j. poll_clock clk stop deadline i = Some j \<and> j \<le> Suc k"
  using assms(1)
proof (induction rule: inc_induct)
  case base
  show ?case using assms(2) by (auto simp: poll_clock_done)
next
  case (step n)
  then show ?case
    by (subst poll_clock.simps) auto
qed

end
