(* ===== verification/VideoFileProducer.thy ===== *)
theory VideoFileProducer
  imports FrameRingBuffer MasterClock
begin

text \<open>
  The video file producer (\<open>include/retrovue/producers/video_file/VideoFileProducer.h\<close>,
  \<open>src/producers/video_file/VideoFileProducer.cpp\<close>): its life cycle, its decoder set-up, the
  frames it makes in stub mode and from a file, shadow decoding and presentation time alignment.

  The output ring is shared with the renderer, so it is an argument and a result of the operations
  that push. FFmpeg is outside the program: what its calls answer is the record \<open>decoder_env\<close>
  (set-up) and the record \<open>loop_input\<close> (one pass of the loop), and only the branches the code
  takes on those answers are modelled. Clock readings are the sequence of \<open>poll_clock\<close>. The
  thread of the producer is \<open>vp_thread\<close>; \<open>vp_events\<close> is what the event callback has been
  given. Console output is left out.
\<close>

section \<open>Data\<close>

datatype producer_state = STOPPED | STARTING | RUNNING | STOPPING

fun producer_state_code :: "producer_state \<Rightarrow> int" where
  "producer_state_code STOPPED = 0"
| "producer_state_code STARTING = 1"
| "producer_state_code RUNNING = 2"
| "producer_state_code STOPPING = 3"

record producer_config =
  pc_asset_uri :: string
  pc_target_width :: int
  pc_target_height :: int
  pc_target_fps :: real
  pc_stub_mode :: bool
  pc_tcp_port :: int

definition ProducerConfig :: producer_config where
  "ProducerConfig = \<lparr>pc_asset_uri = '''', pc_target_width = 1920, pc_target_height = 1080,
     pc_target_fps = 30, pc_stub_mode = False, pc_tcp_port = 12345\<rparr>"

text \<open>The master clock pointer: null, a real clock, or a fake clock of the tests.\<close>

datatype clock_ref = NoClock | RealClock | FakeClock

text \<open>The producer thread: none, created but not yet running, in the loop, returned but not joined.\<close>

datatype thread_status = NoThread | Spawned | InLoop | Exited

text \<open>A scaled picture: the three planes with their line sizes, as \<open>sws_scale\<close> leaves them.\<close>

record scaled_image =
  si_data0 :: "u8 list"
  si_data1 :: "u8 list"
  si_data2 :: "u8 list"
  si_linesize0 :: int
  si_linesize1 :: int
  si_linesize2 :: int

record producer =
  vp_config :: producer_config
  vp_clock :: clock_ref
  vp_has_callback :: bool
  vp_events :: "(string \<times> string) list"
  vp_state :: producer_state
  vp_stop_requested :: bool
  vp_teardown_requested :: bool
  vp_frames_produced :: nat
  vp_buffer_full_count :: nat
  vp_decode_errors :: nat
  vp_teardown_deadline_ms :: int
  vp_drain_timeout_ms :: int
  vp_thread :: thread_status
  vp_format_ctx :: bool
  vp_codec_ctx :: bool
  vp_frame :: bool
  vp_scaled_frame :: bool
  vp_scaled_data :: bool
  vp_packet :: bool
  vp_sws_ctx :: bool
  vp_video_stream_index :: int
  vp_decoder_initialized :: bool
  vp_eof_reached :: bool
  vp_time_base :: real
  vp_last_pts_us :: int
  vp_last_decoded_frame_pts_us :: int
  vp_first_frame_pts_us :: int
  vp_playback_start_utc_us :: time_us
  vp_stub_pts_counter :: int
  vp_frame_interval_us :: int
  vp_next_stub_deadline_utc :: time_us
  vp_shadow_decode_mode :: bool
  vp_shadow_decode_ready :: bool
  vp_cached_first_frame :: "frame option"
  vp_pts_offset_us :: int

definition kProducerBackoffUs :: time_us where
  "kProducerBackoffUs = 10000"

definition VideoFileProducer :: "producer_config \<Rightarrow> clock_ref \<Rightarrow> bool \<Rightarrow> producer" where
  "VideoFileProducer config clock has_callback =
     \<lparr>vp_config = config, vp_clock = clock, vp_has_callback = has_callback, vp_events = [],
      vp_state = STOPPED, vp_stop_requested = False, vp_teardown_requested = False,
      vp_frames_produced = 0, vp_buffer_full_count = 0, vp_decode_errors = 0,
      vp_teardown_deadline_ms = 0, vp_drain_timeout_ms = 0, vp_thread = NoThread,
      vp_format_ctx = False, vp_codec_ctx = False, vp_frame = False, vp_scaled_frame = False,
      vp_scaled_data = False, vp_packet = False, vp_sws_ctx = False,
      vp_video_stream_index = - 1, vp_decoder_initialized = False, vp_eof_reached = False,
      vp_time_base = 0, vp_last_pts_us = 0, vp_last_decoded_frame_pts_us = 0,
      vp_first_frame_pts_us = 0, vp_playback_start_utc_us = 0, vp_stub_pts_counter = 0,
      vp_frame_interval_us = llround (1000000 / pc_target_fps config),
      vp_next_stub_deadline_utc = 0, vp_shadow_decode_mode = False,
      vp_shadow_decode_ready = False, vp_cached_first_frame = None, vp_pts_offset_us = 0\<rparr>"

section \<open>Life cycle\<close>

definition EmitEvent :: "producer \<Rightarrow> string \<Rightarrow> string \<Rightarrow> producer" where
  "EmitEvent p event_type message =
     (if vp_has_callback p then p\<lparr>vp_events := vp_events p @ [(event_type, message)]\<rparr> else p)"

definition SetState :: "producer \<Rightarrow> producer_state \<Rightarrow> producer" where
  "SetState p new_state =
     (let old_state = vp_state p; p = p\<lparr>vp_state := new_state\<rparr>
      in if old_state \<noteq> new_state
         then EmitEvent p ''state_change'' (''state='' @ decimal_of_int (producer_state_code new_state))
         else p)"

definition start :: "producer \<Rightarrow> bool \<times> producer" where
  "start p =
     (if vp_state p \<noteq> STOPPED then (False, p)
      else let p = SetState p STARTING;
               p = p\<lparr>vp_stop_requested := False, vp_teardown_requested := False,
                     vp_stub_pts_counter := 0, vp_next_stub_deadline_utc := 0,
                     vp_eof_reached := False, vp_last_pts_us := 0,
                     vp_last_decoded_frame_pts_us := 0, vp_first_frame_pts_us := 0,
                     vp_playback_start_utc_us := 0\<rparr>;
               p = SetState p RUNNING;
               p = (if pc_stub_mode (vp_config p) then EmitEvent p ''ready'' '''' else p);
               p = p\<lparr>vp_thread := Spawned\<rparr>
           in (True, EmitEvent p ''started'' ''''))"

definition CloseDecoder :: "producer \<Rightarrow> producer" where
  "CloseDecoder p =
     p\<lparr>vp_sws_ctx := False, vp_scaled_frame := False,
       vp_scaled_data := (vp_scaled_data p \<and> \<not> vp_scaled_frame p), vp_frame := False,
       vp_packet := False, vp_codec_ctx := False, vp_format_ctx := False,
       vp_decoder_initialized := False, vp_video_stream_index := - 1, vp_eof_reached := False\<rparr>"

text \<open>\<open>stop\<close> before and after it joins the thread; in between the thread runs to its end.\<close>

definition stop_request :: "producer \<Rightarrow> producer" where
  "stop_request p =
     (if vp_state p = STOPPED then p
      else (SetState p STOPPING)\<lparr>vp_stop_requested := True, vp_teardown_requested := False\<rparr>)"

definition stop_finish :: "producer \<Rightarrow> producer" where
  "stop_finish p =
     (let p = p\<lparr>vp_thread := NoThread\<rparr>; p = CloseDecoder p; p = SetState p STOPPED
      in EmitEvent p ''stopped'' '''')"

definition isRunning :: "producer \<Rightarrow> bool" where
  "isRunning p \<longleftrightarrow> vp_state p = RUNNING"

definition GetFramesProduced :: "producer \<Rightarrow> nat" where
  "GetFramesProduced p = vp_frames_produced p"

definition GetBufferFullCount :: "producer \<Rightarrow> nat" where
  "GetBufferFullCount p = vp_buffer_full_count p"

definition GetDecodeErrors :: "producer \<Rightarrow> nat" where
  "GetDecodeErrors p = vp_decode_errors p"

definition GetState :: "producer \<Rightarrow> producer_state" where
  "GetState p = vp_state p"

definition RequestTeardown :: "producer \<Rightarrow> int \<Rightarrow> int \<Rightarrow> producer" where
  "RequestTeardown p steady_now_ms drain_timeout_ms =
     (if \<not> isRunning p then p
      else EmitEvent (p\<lparr>vp_drain_timeout_ms := drain_timeout_ms,
                        vp_teardown_deadline_ms := steady_now_ms + drain_timeout_ms,
                        vp_teardown_requested := True\<rparr>) ''teardown_requested'' '''')"

definition ForceStop :: "producer \<Rightarrow> producer" where
  "ForceStop p = EmitEvent (p\<lparr>vp_stop_requested := True\<rparr>) ''force_stop'' ''''"

definition SetShadowDecodeMode :: "producer \<Rightarrow> bool \<Rightarrow> producer" where
  "SetShadowDecodeMode p enabled =
     (let p = p\<lparr>vp_shadow_decode_mode := enabled\<rparr>
      in if \<not> enabled then p\<lparr>vp_cached_first_frame := None, vp_shadow_decode_ready := False\<rparr>
         else p\<lparr>vp_shadow_decode_ready := False, vp_cached_first_frame := None\<rparr>)"

definition IsShadowDecodeMode :: "producer \<Rightarrow> bool" where
  "IsShadowDecodeMode p \<longleftrightarrow> vp_shadow_decode_mode p"

definition IsShadowDecodeReady :: "producer \<Rightarrow> bool" where
  "IsShadowDecodeReady p \<longleftrightarrow> vp_shadow_decode_ready p"

definition GetNextPTS :: "producer \<Rightarrow> int" where
  "GetNextPTS p =
     (let next_pts = vp_last_pts_us p
      in if next_pts = 0 then vp_pts_offset_us p
         else next_pts + vp_frame_interval_us p + vp_pts_offset_us p)"

definition AlignPTS :: "producer \<Rightarrow> int \<Rightarrow> producer" where
  "AlignPTS p target_pts =
     (let next_pts_without_offset = vp_last_pts_us p
      in if next_pts_without_offset = 0 then p\<lparr>vp_pts_offset_us := target_pts\<rparr>
         else p\<lparr>vp_pts_offset_us := target_pts - (next_pts_without_offset + vp_frame_interval_us p)\<rparr>)"

section \<open>The decoder\<close>

text \<open>What the FFmpeg calls of \<open>InitializeDecoder\<close> answer: true for a non-null pointer or a
  non-negative code. A stream is its kind (video or not), time base and whether a decoder for its
  codec exists.\<close>

record decoder_env =
  de_ffmpeg_available :: bool
  de_alloc_context :: bool
  de_open_input :: bool
  de_find_stream_info :: bool
  de_streams :: "(bool \<times> real \<times> bool) list"
  de_alloc_codec :: bool
  de_copy_parameters :: bool
  de_open_codec :: bool
  de_alloc_frame :: bool
  de_alloc_scaled_frame :: bool
  de_get_scaler :: bool
  de_alloc_image :: bool
  de_alloc_packet :: bool

text \<open>The index of the first video stream.\<close>

fun find_video_stream :: "nat \<Rightarrow> (bool \<times> real \<times> bool) list \<Rightarrow> nat option" where
  "find_video_stream i [] = None"
| "find_video_stream i ((video, _) # streams) =
     (if video then Some i else find_video_stream (Suc i) streams)"

definition InitializeDecoder :: "decoder_env \<Rightarrow> producer \<Rightarrow> bool \<times> producer" where
  "InitializeDecoder e p =
    (if \<not> de_ffmpeg_available e then (False, p)
     else if \<not> de_alloc_context e then (False, p\<lparr>vp_format_ctx := False\<rparr>)
     else let p = p\<lparr>vp_format_ctx := True\<rparr>
     in if \<not> de_open_input e then (False, p\<lparr>vp_format_ctx := False\<rparr>)
     else if \<not> de_find_stream_info e then (False, CloseDecoder p)
     else case find_video_stream 0 (de_streams e) of
       None \<Rightarrow> (False, CloseDecoder (p\<lparr>vp_video_stream_index := - 1\<rparr>))
     | Some i \<Rightarrow>
       (let (_, time_base, has_codec) = de_streams e ! i;
            p = p\<lparr>vp_video_stream_index := int i, vp_time_base := time_base\<rparr>
        in if \<not> has_codec then (False, CloseDecoder p)
        else if \<not> de_alloc_codec e then (False, CloseDecoder (p\<lparr>vp_codec_ctx := False\<rparr>))
        else let p = p\<lparr>vp_codec_ctx := True\<rparr>
        in if \<not> de_copy_parameters e then (False, CloseDecoder p)
        else if \<not> de_open_codec e then (False, CloseDecoder p)
        else let p = p\<lparr>vp_frame := de_alloc_frame e, vp_scaled_frame := de_alloc_scaled_frame e\<rparr>
        in if \<not> vp_frame p \<or> \<not> vp_scaled_frame p then (False, CloseDecoder p)
        else if \<not> de_get_scaler e then (False, CloseDecoder (p\<lparr>vp_sws_ctx := False\<rparr>))
        else let p = p\<lparr>vp_sws_ctx := True\<rparr>
        in if \<not> de_alloc_image e then (False, CloseDecoder p)
        else let p = p\<lparr>vp_scaled_data := True\<rparr>
        in if \<not> de_alloc_packet e then (False, CloseDecoder (p\<lparr>vp_packet := False\<rparr>))
        else (True, p\<lparr>vp_packet := True, vp_decoder_initialized := True, vp_eof_reached := False\<rparr>)))"

text \<open>What FFmpeg answers in one pass of the loop.\<close>

datatype read_result = ReadEOF | ReadError | ReadPacket int

datatype receive_result = ReceiveAgain | ReceiveError | ReceiveFrame

record decoded_frame =
  df_pts :: "int option"
  df_best_effort_timestamp :: int
  df_pkt_dts :: "int option"
  df_image :: scaled_image

record loop_input =
  li_steady_now_ms :: int
  li_read :: read_result
  li_send_ok :: bool
  li_receive :: receive_result
  li_decoded :: decoded_frame
  li_clk :: "nat \<Rightarrow> time_us"
  li_stop :: "nat \<Rightarrow> bool"

definition ScaleFrame :: "producer \<Rightarrow> bool" where
  "ScaleFrame p \<longleftrightarrow> vp_sws_ctx p \<and> vp_frame p \<and> vp_scaled_frame p"

text \<open>\<open>memcpy(dst + off, src, n)\<close>, and the loop that copies the rows of a plane.\<close>

definition memcpy :: "'a list \<Rightarrow> nat \<Rightarrow> 'a list \<Rightarrow> nat \<Rightarrow> 'a list" where
  "memcpy dst off src n = take off dst @ take n src @ drop (off + n) dst"

definition copy_plane :: "'a list \<Rightarrow> nat \<Rightarrow> 'a list \<Rightarrow> nat \<Rightarrow> nat \<Rightarrow> nat \<Rightarrow> 'a list" where
  "copy_plane dst base src linesize width height =
     foldl (\<lambda>dst y. memcpy dst (base + y * width) (drop (y * linesize) src) width) dst [0..<height]"

definition AssembleFrame :: "producer \<Rightarrow> decoded_frame \<Rightarrow> frame \<Rightarrow> bool \<times> producer \<times> frame" where
  "AssembleFrame p d output_frame =
     (if \<not> vp_scaled_frame p then (False, p, output_frame)
      else
        let width = pc_target_width (vp_config p); height = pc_target_height (vp_config p);
            pts = (case df_pts d of Some t \<Rightarrow> t | None \<Rightarrow> df_best_effort_timestamp d);
            dts = (case df_pkt_dts d of Some t \<Rightarrow> t | None \<Rightarrow> pts);
            pts_us = trunc_real (real_of_int pts * vp_time_base p * 1000000);
            dts_us = trunc_real (real_of_int dts * vp_time_base p * 1000000);
            pts_us = (if pts_us \<le> vp_last_pts_us p then vp_last_pts_us p + vp_frame_interval_us p
                      else pts_us);
            p = p\<lparr>vp_last_pts_us := pts_us\<rparr>;
            dts_us = (if pts_us < dts_us then pts_us else dts_us);
            y_size = nat (width * height);
            uv_size = nat ((width sdiv 2) * (height sdiv 2));
            total_size = y_size + 2 * uv_size;
            data = take total_size (fr_data output_frame)
                     @ replicate (total_size - length (fr_data output_frame)) 0;
            data = copy_plane data 0 (si_data0 (df_image d)) (nat (si_linesize0 (df_image d)))
                     (nat width) (nat height);
            data = copy_plane data y_size (si_data1 (df_image d)) (nat (si_linesize1 (df_image d)))
                     (nat (width sdiv 2)) (nat (height sdiv 2));
            data = copy_plane data (y_size + uv_size) (si_data2 (df_image d))
                     (nat (si_linesize2 (df_image d))) (nat (width sdiv 2)) (nat (height sdiv 2))
        in (True, p,
            \<lparr>fr_metadata = \<lparr>md_pts = pts_us, md_dts = dts_us,
                            md_duration = 1 / pc_target_fps (vp_config p),
                            md_asset_uri = pc_asset_uri (vp_config p)\<rparr>,
             fr_data = data, fr_width = width, fr_height = height\<rparr>))"

section \<open>Producing frames\<close>

text \<open>The shared tail of both frame makers: the first frame of shadow mode is kept, later ones are
  dropped.\<close>

definition cache_shadow_frame :: "producer \<Rightarrow> frame \<Rightarrow> producer" where
  "cache_shadow_frame p f =
     (if vp_cached_first_frame p = None
      then EmitEvent (p\<lparr>vp_cached_first_frame := Some f, vp_shadow_decode_ready := True\<rparr>)
             ''ShadowDecodeReady'' ''''
      else p)"

text \<open>The wait after a refused push, from clock reading \<open>i\<close>. Without a clock it is one plain sleep.\<close>

definition push_backoff :: "producer \<Rightarrow> loop_input \<Rightarrow> nat \<Rightarrow> nat option" where
  "push_backoff p inp i =
     (if vp_clock p = NoClock then Some i
      else poll_clock (li_clk inp) (li_stop inp) (li_clk inp i + kProducerBackoffUs) (Suc i))"

text \<open>\<open>ProduceRealFrame\<close>: the answer, the producer and the ring; \<open>None\<close> when a wait on the clock
  never ends.\<close>

definition ProduceRealFrame ::
  "loop_input \<Rightarrow> producer \<Rightarrow> ring_buffer \<Rightarrow> (bool \<times> producer \<times> ring_buffer) option" where
  "ProduceRealFrame inp p q =
    (if \<not> vp_decoder_initialized p then Some (False, p, q)
     else case li_read inp of
       ReadEOF \<Rightarrow> Some (False, p\<lparr>vp_eof_reached := True\<rparr>, q)
     | ReadError \<Rightarrow> Some (False, p, q)
     | ReadPacket stream_index \<Rightarrow>
       if stream_index \<noteq> vp_video_stream_index p then Some (True, p, q)
       else if \<not> li_send_ok inp then Some (False, p, q)
       else case li_receive inp of
         ReceiveAgain \<Rightarrow> Some (True, p, q)
       | ReceiveError \<Rightarrow> Some (False, p, q)
       | ReceiveFrame \<Rightarrow>
         if \<not> ScaleFrame p then Some (False, p, q)
         else let (ok, p, output_frame) = AssembleFrame p (li_decoded inp) empty_frame
         in if \<not> ok then Some (False, p, q)
         else let base_pts_us = md_pts (fr_metadata output_frame);
                  frame_pts_us = base_pts_us + vp_pts_offset_us p;
                  output_frame = output_frame\<lparr>fr_metadata := (fr_metadata output_frame)\<lparr>md_pts := frame_pts_us\<rparr>\<rparr>;
                  p = p\<lparr>vp_last_decoded_frame_pts_us := frame_pts_us, vp_last_pts_us := frame_pts_us\<rparr>;
                  first = (vp_first_frame_pts_us p = 0);
                  i = (if first \<and> vp_clock p \<noteq> NoClock then 1 else 0);
                  p = (if first then p\<lparr>vp_first_frame_pts_us := frame_pts_us\<rparr> else p);
                  p = (if first \<and> vp_clock p \<noteq> NoClock
                       then p\<lparr>vp_playback_start_utc_us := li_clk inp 0\<rparr> else p)
         in if vp_shadow_decode_mode p then Some (True, cache_shadow_frame p output_frame, q)
         else let frame_offset_us = frame_pts_us - vp_first_frame_pts_us p;
                  target_utc_us = vp_playback_start_utc_us p + frame_offset_us
         in case (if vp_clock p = FakeClock
                  then if li_clk inp i < target_utc_us
                       then poll_clock (li_clk inp) (li_stop inp) target_utc_us (Suc i)
                       else Some (Suc i)
                  else Some i) of
           None \<Rightarrow> None
         | Some i \<Rightarrow>
           (let (pushed, q) = Push q output_frame
            in if pushed then Some (True, p\<lparr>vp_frames_produced := vp_frames_produced p + 1\<rparr>, q)
            else let p = p\<lparr>vp_buffer_full_count := vp_buffer_full_count p + 1\<rparr>
            in case push_backoff p inp i of None \<Rightarrow> None | Some _ \<Rightarrow> Some (True, p, q)))"

definition stub_frame :: "producer \<Rightarrow> int \<Rightarrow> frame" where
  "stub_frame p pts =
     \<lparr>fr_metadata = \<lparr>md_pts = pts, md_dts = pts, md_duration = 1 / pc_target_fps (vp_config p),
                     md_asset_uri = pc_asset_uri (vp_config p)\<rparr>,
      fr_data = replicate (nat (trunc_real (real_of_int (pc_target_width (vp_config p)
                  * pc_target_height (vp_config p)) * (3 / 2)))) 0,
      fr_width = pc_target_width (vp_config p), fr_height = pc_target_height (vp_config p)\<rparr>"

text \<open>The wait at the head of \<open>ProduceStubFrame\<close>: the producer and the next clock reading.\<close>

definition stub_wait :: "loop_input \<Rightarrow> producer \<Rightarrow> (producer \<times> nat) option" where
  "stub_wait inp p =
    (if vp_clock p = NoClock then Some (p, 0)
     else let deadline = vp_next_stub_deadline_utc p
     in if deadline = 0
        then Some (p\<lparr>vp_next_stub_deadline_utc := li_clk inp 0 + vp_frame_interval_us p\<rparr>, 1)
        else case poll_clock (li_clk inp) (li_stop inp) deadline 0 of
               None \<Rightarrow> None
             | Some i \<Rightarrow> Some (p\<lparr>vp_next_stub_deadline_utc := deadline + vp_frame_interval_us p\<rparr>, i))"

definition ProduceStubFrame :: "loop_input \<Rightarrow> producer \<Rightarrow> ring_buffer \<Rightarrow> (producer \<times> ring_buffer) option" where
  "ProduceStubFrame inp p q =
    (case stub_wait inp p of None \<Rightarrow> None
     | Some (p, i) \<Rightarrow>
       (let pts_counter = vp_stub_pts_counter p;
            p = p\<lparr>vp_stub_pts_counter := pts_counter + 1\<rparr>;
            base_pts = pts_counter * vp_frame_interval_us p;
            frame = stub_frame p (base_pts + vp_pts_offset_us p);
            p = p\<lparr>vp_last_pts_us := md_pts (fr_metadata frame)\<rparr>
        in if vp_shadow_decode_mode p then Some (cache_shadow_frame p frame, q)
        else let (pushed, q) = Push q frame
        in if pushed then Some (p\<lparr>vp_frames_produced := vp_frames_produced p + 1\<rparr>, q)
        else let p = p\<lparr>vp_buffer_full_count := vp_buffer_full_count p + 1\<rparr>
        in case push_backoff p inp i of None \<Rightarrow> None | Some _ \<Rightarrow> Some (p, q)))"

section \<open>The producer thread\<close>

text \<open>What the thread does before its loop, one pass of the loop, and after it. A pass ends with
  \<open>True\<close> when the loop goes on.\<close>

definition ProduceLoop_begin :: "decoder_env \<Rightarrow> producer \<Rightarrow> producer" where
  "ProduceLoop_begin e p =
     (let p = (if pc_stub_mode (vp_config p) then p
               else let (ok, p) = InitializeDecoder e p
                    in if \<not> ok
                       then EmitEvent (EmitEvent (p\<lparr>vp_config := (vp_config p)\<lparr>pc_stub_mode := True\<rparr>\<rparr>)
                              ''error'' ''Failed to initialize internal decoder, falling back to stub mode'')
                              ''ready'' ''''
                       else EmitEvent p ''ready'' '''')
      in p\<lparr>vp_thread := InLoop\<rparr>)"

text \<open>At the end of the file a fake clock is first awaited until the last frame was due.\<close>

definition eof_wait :: "loop_input \<Rightarrow> producer \<Rightarrow> nat option" where
  "eof_wait inp p =
     (if vp_clock p = FakeClock \<and> 0 < vp_last_decoded_frame_pts_us p \<and> 0 < vp_first_frame_pts_us p
      then let last_frame_offset_us = vp_last_decoded_frame_pts_us p - vp_first_frame_pts_us p;
               last_frame_target_utc_us = vp_playback_start_utc_us p + last_frame_offset_us
           in if li_clk inp 0 < last_frame_target_utc_us
              then poll_clock (li_clk inp) (li_stop inp) last_frame_target_utc_us 1 else Some 1
      else Some 0)"

definition ProduceLoop_pass ::
  "loop_input \<Rightarrow> producer \<Rightarrow> ring_buffer \<Rightarrow> (bool \<times> producer \<times> ring_buffer) option" where
  "ProduceLoop_pass inp p q =
    (if vp_stop_requested p then Some (False, p, q)
     else if vp_state p \<noteq> RUNNING then Some (True, p, q)
     else if vp_teardown_requested p \<and> IsEmpty q
       then Some (False, EmitEvent p ''buffer_drained'' '''', q)
     else if vp_teardown_requested p \<and> vp_teardown_deadline_ms p \<le> li_steady_now_ms inp
       then Some (False, ForceStop (EmitEvent p ''teardown_timeout'' ''''), q)
     else if vp_eof_reached p
       then (case eof_wait inp p of None \<Rightarrow> None
             | Some _ \<Rightarrow> Some (False, EmitEvent p ''eof'' '''', q))
     else if pc_stub_mode (vp_config p)
       then (case ProduceStubFrame inp p q of None \<Rightarrow> None
             | Some (p, q) \<Rightarrow> Some (True, p, q))
     else (case ProduceRealFrame inp p q of None \<Rightarrow> None
           | Some (ok, p, q) \<Rightarrow>
             if ok then Some (True, p, q)
             else if vp_eof_reached p then Some (False, p, q)
             else Some (True, p\<lparr>vp_decode_errors := vp_decode_errors p + 1\<rparr>, q)))"

definition ProduceLoop_end :: "producer \<Rightarrow> producer" where
  "ProduceLoop_end p = (EmitEvent p ''decode_loop_exited'' '''')\<lparr>vp_thread := Exited\<rparr>"

text \<open>
  The producer in its program: the control thread, the producer thread and the consumer of the ring
  take turns. While \<open>stop\<close> waits for the thread, the control thread does nothing else.
\<close>

inductive vfp_step :: "producer \<times> ring_buffer \<Rightarrow> producer \<times> ring_buffer \<Rightarrow> bool" where
  step_start: "vp_state p \<noteq> STOPPING \<Longrightarrow> vfp_step (p, q) (snd (start p), q)"
| step_stop: "vp_state p = RUNNING \<Longrightarrow> vfp_step (p, q) (stop_request p, q)"
| step_join: "vp_state p = STOPPING \<Longrightarrow> vp_thread p = Exited \<Longrightarrow> vfp_step (p, q) (stop_finish p, q)"
| step_teardown: "vp_state p \<noteq> STOPPING \<Longrightarrow> vfp_step (p, q) (RequestTeardown p now timeout, q)"
| step_force: "vp_state p \<noteq> STOPPING \<Longrightarrow> vfp_step (p, q) (ForceStop p, q)"
| step_shadow: "vp_state p \<noteq> STOPPING \<Longrightarrow> vfp_step (p, q) (SetShadowDecodeMode p on, q)"
| step_align: "vp_state p \<noteq> STOPPING \<Longrightarrow> vfp_step (p, q) (AlignPTS p target, q)"
| step_begin: "vp_thread p = Spawned \<Longrightarrow> vfp_step (p, q) (ProduceLoop_begin e p, q)"
| step_pass: "vp_thread p = InLoop \<Longrightarrow> ProduceLoop_pass inp p q = Some (True, p', q') \<Longrightarrow>
    vfp_step (p, q) (p', q')"
| step_end: "vp_thread p = InLoop \<Longrightarrow> ProduceLoop_pass inp p q = Some (False, p', q') \<Longrightarrow>
    vfp_step (p, q) (ProduceLoop_end p', q')"
| step_consume: "vfp_step (p, q) (p, snd (Pop q))"

inductive vfp_reachable :: "producer_config \<Rightarrow> clock_ref \<Rightarrow> ring_buffer \<Rightarrow> producer \<times> ring_buffer \<Rightarrow> bool"
  for config clock q0 where
  reach_init: "vfp_reachable config clock q0 (VideoFileProducer config clock True, q0)"
| reach_step: "vfp_reachable config clock q0 s \<Longrightarrow> vfp_step s t \<Longrightarrow> vfp_reachable config clock q0 t"

text \<open>\<open>stop\<close> as its caller sees it: between the request and the join the thread does its
  preamble if it had not begun, finds the stop flag at the head of its loop, and returns.\<close>

definition stop :: "decoder_env \<Rightarrow> producer \<Rightarrow> producer" where
  "stop e p =
     (if vp_state p = STOPPED then p
      else let p = stop_request p;
               p = (if vp_thread p = Spawned then ProduceLoop_begin e p else p);
               p = (if vp_thread p = InLoop then ProduceLoop_end p else p)
           in stop_finish p)"

section \<open>What the operations keep\<close>

lemma EmitEvent_eq [simp]:
  "EmitEvent p t m = p\<lparr>vp_events := vp_events p @ (if vp_has_callback p then [(t, m)] else [])\<rparr>"
  by (simp add: EmitEvent_def)

definition no_decoder :: "producer \<Rightarrow> bool" where
  "no_decoder p \<longleftrightarrow> \<not> vp_format_ctx p \<and> \<not> vp_codec_ctx p \<and> \<not> vp_frame p \<and> \<not> vp_scaled_frame p
     \<and> \<not> vp_scaled_data p \<and> \<not> vp_packet p \<and> \<not> vp_sws_ctx p \<and> \<not> vp_decoder_initialized p"

definition whole_decoder :: "producer \<Rightarrow> bool" where
  "whole_decoder p \<longleftrightarrow> vp_format_ctx p \<and> vp_codec_ctx p \<and> vp_frame p \<and> vp_scaled_frame p
     \<and> vp_scaled_data p \<and> vp_packet p \<and> vp_sws_ctx p \<and> vp_decoder_initialized p
     \<and> 0 \<le> vp_video_stream_index p"

text \<open>Two producers that differ in the decoder's fields only.\<close>

definition erase_decoder :: "producer \<Rightarrow> producer" where
  "erase_decoder p = p\<lparr>vp_format_ctx := False, vp_codec_ctx := False, vp_frame := False,
     vp_scaled_frame := False, vp_scaled_data := False, vp_packet := False, vp_sws_ctx := False,
     vp_video_stream_index := 0, vp_decoder_initialized := False, vp_eof_reached := False,
     vp_time_base := 0\<rparr>"

lemma CloseDecoder_no_decoder: "vp_scaled_data p \<longrightarrow> vp_scaled_frame p \<Longrightarrow> no_decoder (CloseDecoder p)"
  by (auto simp: CloseDecoder_def no_decoder_def)

lemma whole_or_no_scaled: "whole_decoder p \<or> no_decoder p \<Longrightarrow> vp_scaled_data p \<longrightarrow> vp_scaled_frame p"
  by (auto simp: whole_decoder_def no_decoder_def)

lemma find_video_stream_bounds:
  "find_video_stream i streams = Some j \<Longrightarrow> i \<le> j \<and> j < i + length streams \<and> fst (streams ! (j - i))
     \<and> (\<forall>k < j - i. \<not> fst (streams ! k))"
proof (induction i streams rule: find_video_stream.induct)
  case (2 i video t streams)
  show ?case
  proof (cases video)
    case True
    with 2 show ?thesis by simp
  next
    case False
    with 2 have ih: "Suc i \<le> j" "j < Suc i + length streams" "fst (streams ! (j - Suc i))"
      "\<forall>k < j - Suc i. \<not> fst (streams ! k)" by simp_all
    then obtain d where d: "j = Suc (i + d)" by (metis add_Suc le_iff_add)
    with ih False show ?thesis by (auto simp: less_Suc_eq_0_disj)
  qed
qed simp

lemma find_video_stream_None: "find_video_stream i streams = None \<longleftrightarrow> (\<forall>s \<in> set streams. \<not> fst s)"
  by (induction i streams rule: find_video_stream.induct) auto

text \<open>When every call succeeds.\<close>

definition decoder_available :: "decoder_env \<Rightarrow> bool" where
  "decoder_available e \<longleftrightarrow> de_ffmpeg_available e \<and> de_alloc_context e \<and> de_open_input e
     \<and> de_find_stream_info e
     \<and> (case find_video_stream 0 (de_streams e) of None \<Rightarrow> False | Some i \<Rightarrow> snd (snd (de_streams e ! i)))
     \<and> de_alloc_codec e \<and> de_copy_parameters e \<and> de_open_codec e \<and> de_alloc_frame e
     \<and> de_alloc_scaled_frame e \<and> de_get_scaler e \<and> de_alloc_image e \<and> de_alloc_packet e"

lemma InitializeDecoder_ok:
  assumes "decoder_available e" "find_video_stream 0 (de_streams e) = Some i"
  shows "InitializeDecoder e p = (True, p\<lparr>vp_format_ctx := True, vp_codec_ctx := True, vp_frame := True,
    vp_scaled_frame := True, vp_scaled_data := True, vp_packet := True, vp_sws_ctx := True,
    vp_video_stream_index := int i, vp_decoder_initialized := True, vp_eof_reached := False,
    vp_time_base := fst (snd (de_streams e ! i))\<rparr>)"
  using assms by (auto simp: decoder_available_def InitializeDecoder_def Let_def split_beta)

lemma InitializeDecoder_fails:
  assumes "\<not> decoder_available e" "no_decoder p"
  shows "\<not> fst (InitializeDecoder e p)" "no_decoder (snd (InitializeDecoder e p))"
    "erase_decoder (snd (InitializeDecoder e p)) = erase_decoder p"
  using assms
  by (auto simp: InitializeDecoder_def Let_def CloseDecoder_def no_decoder_def erase_decoder_def
      decoder_available_def split_beta split: option.split)

section \<open>The invariant\<close>

definition state_log :: "producer \<Rightarrow> string list" where
  "state_log p = map snd (filter (\<lambda>e. fst e = ''state_change'') (vp_events p))"

text \<open>What a pass of the producer thread leaves alone.\<close>

definition pass_keeps :: "producer \<Rightarrow> producer \<Rightarrow> bool" where
  "pass_keeps p p' \<longleftrightarrow>
     vp_config p' = vp_config p \<and> vp_clock p' = vp_clock p \<and> vp_has_callback p' = vp_has_callback p
     \<and> vp_state p' = vp_state p \<and> vp_thread p' = vp_thread p
     \<and> vp_shadow_decode_mode p' = vp_shadow_decode_mode p \<and> vp_pts_offset_us p' = vp_pts_offset_us p
     \<and> vp_frame_interval_us p' = vp_frame_interval_us p
     \<and> no_decoder p' = no_decoder p \<and> whole_decoder p' = whole_decoder p
     \<and> state_log p' = state_log p \<and> (vp_stop_requested p \<longrightarrow> vp_stop_requested p')"

text \<open>In shadow mode the ring is left alone and at most the first frame is cached; outside it nothing
  is cached and at most one frame is pushed.\<close>

definition pass_output :: "producer \<Rightarrow> ring_buffer \<Rightarrow> producer \<Rightarrow> ring_buffer \<Rightarrow> bool" where
  "pass_output p q p' q' \<longleftrightarrow>
     (if vp_shadow_decode_mode p
      then q' = q \<and> ((vp_cached_first_frame p' = vp_cached_first_frame p
                       \<and> vp_shadow_decode_ready p' = vp_shadow_decode_ready p)
                      \<or> (vp_cached_first_frame p = None \<and> vp_cached_first_frame p' \<noteq> None
                         \<and> vp_shadow_decode_ready p'))
      else vp_cached_first_frame p' = vp_cached_first_frame p
           \<and> vp_shadow_decode_ready p' = vp_shadow_decode_ready p
           \<and> (q' = q \<or> (\<exists>f. Push q f = (True, q'))))"

lemma Push_False: "Push q f = (False, q') \<Longrightarrow> q' = q"
  by (simp add: Push_def Let_def split: if_splits)

lemma stub_wait_cases:
  assumes "stub_wait inp p = Some (p', i)"
  obtains d where "p' = p\<lparr>vp_next_stub_deadline_utc := d\<rparr>"
proof (cases "vp_clock p = NoClock")
  case True
  with assms show thesis
    by (intro that [of "vp_next_stub_deadline_utc p"]) (simp add: stub_wait_def)
next
  case clock: False
  show thesis
  proof (cases "vp_next_stub_deadline_utc p = 0")
    case True
    with assms clock show thesis
      by (intro that [of "li_clk inp 0 + vp_frame_interval_us p"]) (simp add: stub_wait_def Let_def)
  next
    case False
    with assms clock show thesis
      by (intro that [of "vp_next_stub_deadline_utc p + vp_frame_interval_us p"])
        (simp add: stub_wait_def Let_def split: option.splits)
  qed
qed

text \<open>The next stub frame, and the producer that has made it.\<close>

definition next_stub :: "producer \<Rightarrow> frame" where
  "next_stub p = stub_frame p (vp_stub_pts_counter p * vp_frame_interval_us p + vp_pts_offset_us p)"

definition after_stub :: "producer \<Rightarrow> time_us \<Rightarrow> producer" where
  "after_stub p d = p\<lparr>vp_next_stub_deadline_utc := d, vp_stub_pts_counter := vp_stub_pts_counter p + 1,
     vp_last_pts_us := vp_stub_pts_counter p * vp_frame_interval_us p + vp_pts_offset_us p\<rparr>"

lemma stub_frame_pts [simp]: "md_pts (fr_metadata (stub_frame p pts)) = pts"
  by (simp add: stub_frame_def)

lemma stub_frame_after [simp]:
  "stub_frame (p\<lparr>vp_next_stub_deadline_utc := d, vp_stub_pts_counter := c\<rparr>) pts = stub_frame p pts"
  by (simp add: stub_frame_def)

lemma ProduceStubFrame_cases:
  assumes "ProduceStubFrame inp p q = Some (p', q')"
  obtains
    (shadow) d where "vp_shadow_decode_mode p" "q' = q"
      "p' = cache_shadow_frame (after_stub p d) (next_stub p)"
  | (pushed) d where "\<not> vp_shadow_decode_mode p" "Push q (next_stub p) = (True, q')"
      "p' = (after_stub p d)\<lparr>vp_frames_produced := vp_frames_produced p + 1\<rparr>"
  | (full) d where "\<not> vp_shadow_decode_mode p" "Push q (next_stub p) = (False, q)" "q' = q"
      "p' = (after_stub p d)\<lparr>vp_buffer_full_count := vp_buffer_full_count p + 1\<rparr>"
proof -
  from assms obtain p1 i where w: "stub_wait inp p = Some (p1, i)"
    by (auto simp: ProduceStubFrame_def split: option.splits)
  obtain d where p1: "p1 = p\<lparr>vp_next_stub_deadline_utc := d\<rparr>" using stub_wait_cases [OF w] .
  show thesis
  proof (cases "vp_shadow_decode_mode p")
    case True
    with assms show thesis
      by (intro shadow [of d]) (simp_all add: ProduceStubFrame_def w p1 Let_def next_stub_def after_stub_def)
  next
    case nsh: False
    obtain ok q1 where push: "Push q (next_stub p) = (ok, q1)" by (cases "Push q (next_stub p)")
    note push' = push [unfolded next_stub_def]
    show thesis
    proof (cases ok)
      case True
      with assms nsh push' push show thesis
        by (intro pushed [of d])
          (simp_all add: ProduceStubFrame_def w p1 Let_def after_stub_def)
    next
      case False
      with push Push_False have "q1 = q" by simp
      with False assms nsh push' push show thesis
        by (intro full [of d])
          (simp_all add: ProduceStubFrame_def w p1 Let_def after_stub_def split: option.splits)
    qed
  qed
qed

lemmas keeps_defs = pass_keeps_def pass_output_def no_decoder_def whole_decoder_def state_log_def

lemma cache_shadow_frame_keeps:
  "pass_keeps p (cache_shadow_frame p f)"
  "vp_shadow_decode_mode p \<Longrightarrow> pass_output p q (cache_shadow_frame p f) q"
  by (simp_all add: cache_shadow_frame_def keeps_defs)

lemma after_stub_keeps:
  "pass_keeps (after_stub p d) p' \<Longrightarrow> pass_keeps p p'"
  "pass_output (after_stub p d) q p' q' \<Longrightarrow> pass_output p q p' q'"
  by (simp add: after_stub_def keeps_defs) (auto simp: after_stub_def pass_output_def split: if_splits)

lemma ProduceStubFrame_keeps:
  assumes "ProduceStubFrame inp p q = Some (p', q')"
  shows "pass_keeps p p'" "pass_output p q p' q'"
proof -
  have "pass_keeps p p' \<and> pass_output p q p' q'"
    using assms
  proof (cases rule: ProduceStubFrame_cases)
    case (shadow d)
    then show ?thesis
      using cache_shadow_frame_keeps(1) [of "after_stub p d" "next_stub p"]
        cache_shadow_frame_keeps(2) [of "after_stub p d" q "next_stub p"]
      by (auto simp: after_stub_def intro!: after_stub_keeps [of p d])
  next
    case (pushed d)
    then show ?thesis by (auto simp: after_stub_def keeps_defs)
  next
    case (full d)
    then show ?thesis by (simp add: after_stub_def keeps_defs)
  qed
  then show "pass_keeps p p'" "pass_output p q p' q'" by simp_all
qed

text \<open>The same for a frame decoded from the file.\<close>

definition next_real :: "producer \<Rightarrow> decoded_frame \<Rightarrow> frame" where
  "next_real p d =
     (let f = snd (snd (AssembleFrame p d empty_frame))
      in f\<lparr>fr_metadata := (fr_metadata f)\<lparr>md_pts := md_pts (fr_metadata f) + vp_pts_offset_us p\<rparr>\<rparr>)"

definition after_real :: "loop_input \<Rightarrow> producer \<Rightarrow> producer" where
  "after_real inp p =
     (let pts = md_pts (fr_metadata (next_real p (li_decoded inp)));
          first = (vp_first_frame_pts_us p = 0)
      in p\<lparr>vp_last_decoded_frame_pts_us := pts, vp_last_pts_us := pts,
           vp_first_frame_pts_us := (if first then pts else vp_first_frame_pts_us p),
           vp_playback_start_utc_us := (if first \<and> vp_clock p \<noteq> NoClock then li_clk inp 0
                                        else vp_playback_start_utc_us p)\<rparr>)"

text \<open>A pass decodes a frame when every call on the way succeeds.\<close>

definition decodes_frame :: "loop_input \<Rightarrow> producer \<Rightarrow> bool" where
  "decodes_frame inp p \<longleftrightarrow> vp_decoder_initialized p
     \<and> li_read inp = ReadPacket (vp_video_stream_index p) \<and> li_send_ok inp
     \<and> li_receive inp = ReceiveFrame \<and> ScaleFrame p"

lemma AssembleFrame_producer:
  "vp_scaled_frame p \<Longrightarrow> AssembleFrame p d f =
     (True, p\<lparr>vp_last_pts_us := md_pts (fr_metadata (snd (snd (AssembleFrame p d f))))\<rparr>,
      snd (snd (AssembleFrame p d f)))"
  by (simp add: AssembleFrame_def Let_def)

lemma after_real_unfold:
  "p\<lparr>vp_last_pts_us := a, vp_last_decoded_frame_pts_us := b, vp_last_pts_us := c\<rparr>
   = p\<lparr>vp_last_decoded_frame_pts_us := b, vp_last_pts_us := c\<rparr>"
  by simp

text \<open>The wait of a decoded frame for a fake clock, and the reading after it.\<close>

definition real_wait :: "loop_input \<Rightarrow> producer \<Rightarrow> nat option" where
  "real_wait inp p =
     (let p' = after_real inp p; i = (if vp_first_frame_pts_us p = 0 \<and> vp_clock p \<noteq> NoClock then 1 else 0);
          target = vp_playback_start_utc_us p' + (vp_last_pts_us p' - vp_first_frame_pts_us p')
      in if vp_clock p = FakeClock
         then if li_clk inp i < target then poll_clock (li_clk inp) (li_stop inp) target (Suc i)
              else Some (Suc i)
         else Some i)"

lemma ProduceRealFrame_decoded:
  assumes "decodes_frame inp p"
  shows "ProduceRealFrame inp p q =
    (if vp_shadow_decode_mode p
     then Some (True, cache_shadow_frame (after_real inp p) (next_real p (li_decoded inp)), q)
     else case real_wait inp p of None \<Rightarrow> None
     | Some i \<Rightarrow>
       (let (pushed, q) = Push q (next_real p (li_decoded inp)); p = after_real inp p
        in if pushed then Some (True, p\<lparr>vp_frames_produced := vp_frames_produced p + 1\<rparr>, q)
        else let p = p\<lparr>vp_buffer_full_count := vp_buffer_full_count p + 1\<rparr>
        in case push_backoff p inp i of None \<Rightarrow> None | Some _ \<Rightarrow> Some (True, p, q)))"
proof -
  have s: "vp_scaled_frame p" "ScaleFrame p" using assms by (simp_all add: decodes_frame_def ScaleFrame_def)
  obtain f where a: "AssembleFrame p (li_decoded inp) empty_frame
      = (True, p\<lparr>vp_last_pts_us := md_pts (fr_metadata f)\<rparr>, f)"
    using AssembleFrame_producer [OF s(1), of "li_decoded inp" empty_frame] by metis
  note defs = ProduceRealFrame_def decodes_frame_def a real_wait_def next_real_def after_real_def Let_def
  show ?thesis
  proof (cases "vp_first_frame_pts_us p = 0")
    case True
    with assms s(2) show ?thesis by (cases "vp_clock p") (simp_all add: defs cong: if_cong split: prod.split option.split)
  next
    case False
    with assms s(2) show ?thesis by (cases "vp_clock p") (simp_all add: defs cong: if_cong split: prod.split option.split)
  qed
qed

lemma ProduceRealFrame_no_frame:
  assumes "\<not> decodes_frame inp p" "vp_scaled_frame p \<or> \<not> ScaleFrame p"
  shows "\<exists>ok. ProduceRealFrame inp p q = Some (ok, p, q)
    \<or> ProduceRealFrame inp p q = Some (False, p\<lparr>vp_eof_reached := True\<rparr>, q) \<and> li_read inp = ReadEOF"
  using assms
  by (cases "li_read inp"; cases "li_receive inp")
    (auto simp: ProduceRealFrame_def decodes_frame_def)

lemma ProduceRealFrame_cases:
  assumes "ProduceRealFrame inp p q = Some (ok, p', q')"
  obtains
    (no_frame) b where "\<not> decodes_frame inp p" "q' = q" "p' = p\<lparr>vp_eof_reached := b\<rparr>"
  | (shadow) "decodes_frame inp p" "ok" "vp_shadow_decode_mode p" "q' = q"
      "p' = cache_shadow_frame (after_real inp p) (next_real p (li_decoded inp))"
  | (pushed) "decodes_frame inp p" "ok" "\<not> vp_shadow_decode_mode p"
      "Push q (next_real p (li_decoded inp)) = (True, q')"
      "p' = (after_real inp p)\<lparr>vp_frames_produced := vp_frames_produced p + 1\<rparr>"
  | (full) "decodes_frame inp p" "ok" "\<not> vp_shadow_decode_mode p"
      "Push q (next_real p (li_decoded inp)) = (False, q)" "q' = q"
      "p' = (after_real inp p)\<lparr>vp_buffer_full_count := vp_buffer_full_count p + 1\<rparr>"
proof (cases "decodes_frame inp p")
  case False
  moreover have "vp_scaled_frame p \<or> \<not> ScaleFrame p" by (simp add: ScaleFrame_def)
  ultimately have "p' = p \<and> q' = q \<or> p' = p\<lparr>vp_eof_reached := True\<rparr> \<and> q' = q"
    using ProduceRealFrame_no_frame [of inp p q] assms by auto
  then show thesis
    using no_frame [OF False, of "vp_eof_reached p"] no_frame [OF False, of True] by auto
next
  case True
  note a = assms [unfolded ProduceRealFrame_decoded [OF True]]
  obtain b q1 where push: "Push q (next_real p (li_decoded inp)) = (b, q1)"
    by (cases "Push q (next_real p (li_decoded inp))")
  have af: "vp_frames_produced (after_real inp p) = vp_frames_produced p"
    "vp_buffer_full_count (after_real inp p) = vp_buffer_full_count p"
    by (simp_all add: after_real_def Let_def)
  show thesis
  proof (cases "vp_shadow_decode_mode p")
    case sh: True
    with a True show thesis by (intro shadow) simp_all
  next
    case nsh: False
    then obtain i where w: "real_wait inp p = Some i" using a by (auto split: option.splits)
    show thesis
    proof (cases b)
      case b: True
      with a True nsh w push af show thesis by (intro pushed) (simp_all add: Let_def)
    next
      case b: False
      with push Push_False have "q1 = q" by simp
      with a True nsh w push af b show thesis
        by (intro full) (simp_all add: Let_def split: option.splits)
    qed
  qed
qed

lemma after_real_keeps:
  "pass_keeps (after_real inp p) p' \<Longrightarrow> pass_keeps p p'"
  "pass_output (after_real inp p) q p' q' \<Longrightarrow> pass_output p q p' q'"
  "vp_shadow_decode_mode (after_real inp p) = vp_shadow_decode_mode p"
proof -
  obtain a b c d where e: "after_real inp p = p\<lparr>vp_last_decoded_frame_pts_us := a, vp_last_pts_us := b,
      vp_first_frame_pts_us := c, vp_playback_start_utc_us := d\<rparr>"
    by (auto simp: after_real_def Let_def)
  show "pass_keeps (after_real inp p) p' \<Longrightarrow> pass_keeps p p'" by (simp add: e keeps_defs)
  show "pass_output (after_real inp p) q p' q' \<Longrightarrow> pass_output p q p' q'"
    by (auto simp: e pass_output_def split: if_splits)
  show "vp_shadow_decode_mode (after_real inp p) = vp_shadow_decode_mode p" by (simp add: e)
qed

lemma ProduceRealFrame_keeps:
  assumes "ProduceRealFrame inp p q = Some (ok, p', q')"
  shows "pass_keeps p p' \<and> pass_output p q p' q'"
  using assms
proof (cases rule: ProduceRealFrame_cases)
  case (no_frame b)
  then show ?thesis by (simp add: keeps_defs)
next
  case shadow
  let ?a = "after_real inp p"
  have "vp_shadow_decode_mode ?a" using shadow by (simp add: after_real_keeps)
  then show ?thesis
    using shadow cache_shadow_frame_keeps(1) [of ?a] cache_shadow_frame_keeps(2) [of ?a q]
    by (auto intro!: after_real_keeps [of inp p])
next
  case pushed
  then have "pass_keeps (after_real inp p) p'" "pass_output (after_real inp p) q p' q'"
    by (auto simp: keeps_defs after_real_keeps)
  then show ?thesis by (auto intro: after_real_keeps)
next
  case full
  then have "pass_keeps (after_real inp p) p'" "pass_output (after_real inp p) q p' q'"
    by (auto simp: keeps_defs after_real_keeps)
  then show ?thesis by (auto intro: after_real_keeps)
qed

text \<open>The branch a pass takes.\<close>

lemma ProduceLoop_pass_cases:
  assumes "ProduceLoop_pass inp p q = Some (b, p', q')"
  obtains
    (idle) "b \<longleftrightarrow> \<not> vp_stop_requested p" "vp_stop_requested p \<or> vp_state p \<noteq> RUNNING" "p' = p" "q' = q"
  | (drained) "\<not> b" "vp_teardown_requested p" "IsEmpty q" "p' = EmitEvent p ''buffer_drained'' ''''" "q' = q"
  | (timeout) "\<not> b" "vp_teardown_requested p" "\<not> IsEmpty q"
      "p' = ForceStop (EmitEvent p ''teardown_timeout'' '''')" "q' = q"
  | (eof) "\<not> b" "vp_eof_reached p" "p' = EmitEvent p ''eof'' ''''" "q' = q"
  | (stub) "b" "pc_stub_mode (vp_config p)" "ProduceStubFrame inp p q = Some (p', q')"
  | (real) p1 ok where "\<not> pc_stub_mode (vp_config p)" "ProduceRealFrame inp p q = Some (ok, p1, q')"
      "b \<longleftrightarrow> ok \<or> \<not> vp_eof_reached p1"
      "p' = (if ok \<or> vp_eof_reached p1 then p1 else p1\<lparr>vp_decode_errors := vp_decode_errors p1 + 1\<rparr>)"
proof -
  consider (1) "vp_stop_requested p \<or> vp_state p \<noteq> RUNNING"
    | (2) "\<not> vp_stop_requested p" "vp_state p = RUNNING" "vp_teardown_requested p" "IsEmpty q"
    | (3) "\<not> vp_stop_requested p" "vp_state p = RUNNING" "vp_teardown_requested p" "\<not> IsEmpty q"
        "vp_teardown_deadline_ms p \<le> li_steady_now_ms inp"
    | (4) "\<not> vp_stop_requested p" "vp_state p = RUNNING"
        "\<not> vp_teardown_requested p \<or> \<not> IsEmpty q \<and> \<not> vp_teardown_deadline_ms p \<le> li_steady_now_ms inp"
    by blast
  then show thesis
  proof cases
    case 1
    with assms show thesis by (intro idle) (auto simp: ProduceLoop_pass_def split: if_splits)
  next
    case 2
    with assms show thesis by (intro drained) (simp_all add: ProduceLoop_pass_def)
  next
    case 3
    with assms show thesis by (intro timeout) (simp_all add: ProduceLoop_pass_def)
  next
    case 4
    then have not_down: "\<not> (vp_teardown_requested p \<and> IsEmpty q)"
      "\<not> (vp_teardown_requested p \<and> vp_teardown_deadline_ms p \<le> li_steady_now_ms inp)" by blast+
    note pass = assms [unfolded ProduceLoop_pass_def, simplified 4(1,2) not_down if_False simp_thms]
    show thesis
    proof (cases "vp_eof_reached p")
      case True
      with pass show thesis by (intro eof) (auto split: option.splits)
    next
      case neof: False
      show thesis
      proof (cases "pc_stub_mode (vp_config p)")
        case True
        with pass neof show thesis by (intro stub) (auto split: option.splits)
      next
        case False
        with pass neof obtain ok p1 q1 where r: "ProduceRealFrame inp p q = Some (ok, p1, q1)"
          by (auto split: option.splits)
        with pass neof False show thesis
          by (intro real [of ok p1]) (auto split: if_splits)
      qed
    qed
  qed
qed

lemma ProduceLoop_pass_keeps:
  assumes "ProduceLoop_pass inp p q = Some (b, p', q')"
  shows "pass_keeps p p' \<and> pass_output p q p' q'"
  using assms
proof (cases rule: ProduceLoop_pass_cases)
  case (stub)
  then show ?thesis using ProduceStubFrame_keeps by blast
next
  case (real p1 ok)
  with ProduceRealFrame_keeps [OF real(2)] show ?thesis by (auto simp: keeps_defs split: if_splits)
qed (auto simp: ForceStop_def keeps_defs)

end
