(* ===== verification/Producer_Lifecycle.thy ===== *)
theory Producer_Lifecycle
  imports VideoFileProducer
begin

text \<open>
  The life cycle of the video file producer in every interleaving of its control thread, its own
  thread and the consumer of its ring: the invariant of the reachable states, what \<open>stop\<close>
  achieves, the decoder's set-up and shadow decoding.
\<close>

section \<open>The invariant of the reachable states\<close>

text \<open>The invariant of one state of the control fields: producer state, thread, stop flag, whether
  there is no decoder or a whole one, readiness, cached frame and shadow mode.\<close>

definition control_ok ::
  "producer_state \<Rightarrow> thread_status \<Rightarrow> bool \<Rightarrow> bool \<Rightarrow> bool \<Rightarrow> bool \<Rightarrow> frame option \<Rightarrow> bool \<Rightarrow> bool" where
  "control_ok st th stopping none whole ready cached shadow \<longleftrightarrow>
     (st = STOPPED \<longrightarrow> th = NoThread)
     \<and> (st = RUNNING \<longrightarrow> th \<noteq> NoThread)
     \<and> (st = STOPPING \<longrightarrow> th \<noteq> NoThread \<and> stopping)
     \<and> st \<noteq> STARTING
     \<and> (th \<in> {NoThread, Spawned} \<longrightarrow> none)
     \<and> (none \<or> whole)
     \<and> (ready \<longleftrightarrow> cached \<noteq> None)
     \<and> (cached \<noteq> None \<longrightarrow> shadow)"

definition vfp_inv :: "producer \<Rightarrow> bool" where
  "vfp_inv p \<longleftrightarrow> control_ok (vp_state p) (vp_thread p) (vp_stop_requested p) (no_decoder p)
     (whole_decoder p) (vp_shadow_decode_ready p) (vp_cached_first_frame p) (vp_shadow_decode_mode p)"

text \<open>The recorded state changes are whole rounds of the cycle and a part of the last one.\<close>

definition state_cycle :: "string list" where
  "state_cycle = [''state=1'', ''state=2'', ''state=3'', ''state=0'']"

fun cycle_prefix :: "producer_state \<Rightarrow> string list" where
  "cycle_prefix STOPPED = []"
| "cycle_prefix STARTING = [''state=1'']"
| "cycle_prefix RUNNING = [''state=1'', ''state=2'']"
| "cycle_prefix STOPPING = [''state=1'', ''state=2'', ''state=3'']"

definition cycle_inv :: "producer \<Rightarrow> bool" where
  "cycle_inv p \<longleftrightarrow>
     vp_has_callback p \<and> (\<exists>n. state_log p = concat (replicate n state_cycle) @ cycle_prefix (vp_state p))"

lemma string_of_small [simp]:
  "decimal_of_int 0 = ''0''" "decimal_of_int 1 = ''1''" "decimal_of_int 2 = ''2''" "decimal_of_int 3 = ''3''"
  by (simp_all add: decimal_of_int_def decimal_of_nat.simps char_of_def bit_0)

lemma pass_keeps_inv:
  assumes "pass_keeps p p'" "pass_output p q p' q'" "vfp_inv p"
  shows "vfp_inv p'"
proof -
  have eq: "vp_state p' = vp_state p" "vp_thread p' = vp_thread p" "no_decoder p' = no_decoder p"
    "whole_decoder p' = whole_decoder p" "vp_shadow_decode_mode p' = vp_shadow_decode_mode p"
    and st: "vp_stop_requested p \<longrightarrow> vp_stop_requested p'"
    using assms(1) by (simp_all add: pass_keeps_def)
  have out: "vp_cached_first_frame p' = vp_cached_first_frame p
        \<and> vp_shadow_decode_ready p' = vp_shadow_decode_ready p
      \<or> vp_shadow_decode_mode p \<and> vp_cached_first_frame p' \<noteq> None \<and> vp_shadow_decode_ready p'"
    using assms(2) by (simp add: pass_output_def split: if_splits) blast
  then show ?thesis
    using assms(3) st unfolding vfp_inv_def eq control_ok_def by (elim disjE conjE) simp_all
qed

lemma pass_output_ring:
  assumes "pass_output p q p' q'" "rb_wf q"
  shows "rb_wf q'"
proof (cases "q' = q")
  case False
  with assms obtain f where f: "Push q f = (True, q')" by (auto simp: pass_output_def split: if_splits)
  with video.push_refines [of q f True q'] assms(2) show ?thesis by auto
qed (use assms in simp)

lemma decoder_whole_if_available:
  assumes "decoder_available e"
  shows "fst (InitializeDecoder e p) \<and> whole_decoder (snd (InitializeDecoder e p))
    \<and> erase_decoder (snd (InitializeDecoder e p)) = erase_decoder p"
proof -
  obtain i where "find_video_stream 0 (de_streams e) = Some i"
    using assms by (auto simp: decoder_available_def split: option.splits)
  from InitializeDecoder_ok [OF assms this, of p] show ?thesis
    by (simp add: whole_decoder_def erase_decoder_def)
qed

text \<open>Fields the decoder's set-up does not touch.\<close>

lemma erase_decoder_eqD:
  assumes "erase_decoder p = erase_decoder p'"
  shows "vp_state p = vp_state p'" "vp_stop_requested p = vp_stop_requested p'"
    "vp_events p = vp_events p'" "vp_has_callback p = vp_has_callback p'"
    "vp_shadow_decode_mode p = vp_shadow_decode_mode p'" "vp_config p = vp_config p'"
    "vp_shadow_decode_ready p = vp_shadow_decode_ready p'"
    "vp_cached_first_frame p = vp_cached_first_frame p'" "vp_thread p = vp_thread p'"
proof -
  have e: "vp_state (erase_decoder r) = vp_state r" "vp_stop_requested (erase_decoder r) = vp_stop_requested r"
    "vp_events (erase_decoder r) = vp_events r" "vp_has_callback (erase_decoder r) = vp_has_callback r"
    "vp_shadow_decode_mode (erase_decoder r) = vp_shadow_decode_mode r" "vp_config (erase_decoder r) = vp_config r"
    "vp_shadow_decode_ready (erase_decoder r) = vp_shadow_decode_ready r"
    "vp_cached_first_frame (erase_decoder r) = vp_cached_first_frame r" "vp_thread (erase_decoder r) = vp_thread r"
    for r :: producer by (simp_all add: erase_decoder_def)
  show "vp_state p = vp_state p'" "vp_stop_requested p = vp_stop_requested p'"
    "vp_events p = vp_events p'" "vp_has_callback p = vp_has_callback p'"
    "vp_shadow_decode_mode p = vp_shadow_decode_mode p'" "vp_config p = vp_config p'"
    "vp_shadow_decode_ready p = vp_shadow_decode_ready p'"
    "vp_cached_first_frame p = vp_cached_first_frame p'" "vp_thread p = vp_thread p'"
    using assms e [of p] e [of p'] by simp_all
qed

lemma ProduceLoop_begin_fields:
  fixes e
  assumes "no_decoder p"
  defines "p' \<equiv> ProduceLoop_begin e p"
  shows "vp_thread p' = InLoop" "vp_state p' = vp_state p" "vp_stop_requested p' = vp_stop_requested p"
    "vp_shadow_decode_mode p' = vp_shadow_decode_mode p"
    "vp_shadow_decode_ready p' = vp_shadow_decode_ready p"
    "vp_cached_first_frame p' = vp_cached_first_frame p"
    "vp_has_callback p' = vp_has_callback p" "state_log p' = state_log p"
    "whole_decoder p' \<longleftrightarrow> \<not> pc_stub_mode (vp_config p) \<and> decoder_available e"
    "no_decoder p' \<longleftrightarrow> \<not> whole_decoder p'"
    "pc_stub_mode (vp_config p') \<longleftrightarrow> \<not> whole_decoder p'"
proof -
  have ex: "whole_decoder r \<Longrightarrow> \<not> no_decoder r" for r by (simp add: no_decoder_def whole_decoder_def)
  have upd: "no_decoder (r\<lparr>vp_thread := th\<rparr>) = no_decoder r" "whole_decoder (r\<lparr>vp_thread := th\<rparr>) = whole_decoder r"
    "no_decoder (r\<lparr>vp_events := ev\<rparr>) = no_decoder r" "whole_decoder (r\<lparr>vp_events := ev\<rparr>) = whole_decoder r"
    "no_decoder (r\<lparr>vp_config := c\<rparr>) = no_decoder r" "whole_decoder (r\<lparr>vp_config := c\<rparr>) = whole_decoder r"
    for r :: producer and th ev c by (simp_all add: no_decoder_def whole_decoder_def)
  obtain ok p1 where i: "InitializeDecoder e p = (ok, p1)" by (cases "InitializeDecoder e p")
  have d: "(decoder_available e \<longrightarrow> ok \<and> whole_decoder p1) \<and> (\<not> decoder_available e \<longrightarrow> \<not> ok \<and> no_decoder p1)"
    and er: "erase_decoder p1 = erase_decoder p"
    using decoder_whole_if_available [of e p] InitializeDecoder_fails [of e p] assms(1) i by auto
  note eq = erase_decoder_eqD [OF er]
  have np: "\<not> whole_decoder p" using ex assms(1) by blast
  consider "pc_stub_mode (vp_config p)" | "\<not> pc_stub_mode (vp_config p)" "decoder_available e" "ok" "whole_decoder p1"
    | "\<not> pc_stub_mode (vp_config p)" "\<not> decoder_available e" "\<not> ok" "no_decoder p1" "\<not> whole_decoder p1"
    using d ex by blast
  then have "vp_thread p' = InLoop \<and> vp_state p' = vp_state p \<and> vp_stop_requested p' = vp_stop_requested p
    \<and> vp_shadow_decode_mode p' = vp_shadow_decode_mode p
    \<and> vp_shadow_decode_ready p' = vp_shadow_decode_ready p
    \<and> vp_cached_first_frame p' = vp_cached_first_frame p
    \<and> vp_has_callback p' = vp_has_callback p \<and> state_log p' = state_log p
    \<and> (whole_decoder p' \<longleftrightarrow> \<not> pc_stub_mode (vp_config p) \<and> decoder_available e)
    \<and> (no_decoder p' \<longleftrightarrow> \<not> whole_decoder p') \<and> (pc_stub_mode (vp_config p') \<longleftrightarrow> \<not> whole_decoder p')"
  proof cases
    case 1
    with np assms(1) show ?thesis by (simp add: p'_def ProduceLoop_begin_def upd state_log_def)
  next
    case 2
    with i eq ex [of p1] show ?thesis by (simp add: p'_def ProduceLoop_begin_def upd state_log_def)
  next
    case 3
    with i eq show ?thesis by (simp add: p'_def ProduceLoop_begin_def upd state_log_def)
  qed
  then show "vp_thread p' = InLoop" "vp_state p' = vp_state p" "vp_stop_requested p' = vp_stop_requested p"
    "vp_shadow_decode_mode p' = vp_shadow_decode_mode p"
    "vp_shadow_decode_ready p' = vp_shadow_decode_ready p"
    "vp_cached_first_frame p' = vp_cached_first_frame p"
    "vp_has_callback p' = vp_has_callback p" "state_log p' = state_log p"
    "whole_decoder p' \<longleftrightarrow> \<not> pc_stub_mode (vp_config p) \<and> decoder_available e"
    "no_decoder p' \<longleftrightarrow> \<not> whole_decoder p'"
    "pc_stub_mode (vp_config p') \<longleftrightarrow> \<not> whole_decoder p'" by simp_all
qed

lemma begin_inv:
  assumes "vfp_inv p" "vp_thread p = Spawned"
  shows "vfp_inv (ProduceLoop_begin e p)"
proof -
  have nd: "no_decoder p" using assms by (simp add: vfp_inv_def control_ok_def)
  note f = ProduceLoop_begin_fields [OF nd, of e]
  show ?thesis
    using assms unfolding vfp_inv_def f(1-6,10) control_ok_def by auto
qed

section \<open>Every step keeps the invariant\<close>

lemmas control_defs = start_def stop_request_def stop_finish_def RequestTeardown_def ForceStop_def
  SetShadowDecodeMode_def AlignPTS_def SetState_def ProduceLoop_end_def isRunning_def Let_def

lemma no_decoder_closed: "vfp_inv p \<Longrightarrow> no_decoder (CloseDecoder p)"
  using CloseDecoder_no_decoder [of p] whole_or_no_scaled [of p] unfolding vfp_inv_def control_ok_def by blast

lemma start_fields:
  assumes "vp_state p = STOPPED"
  shows "vp_state (snd (start p)) = RUNNING" "vp_thread (snd (start p)) = Spawned"
    "no_decoder (snd (start p)) = no_decoder p" "whole_decoder (snd (start p)) = whole_decoder p"
    "vp_shadow_decode_ready (snd (start p)) = vp_shadow_decode_ready p"
    "vp_cached_first_frame (snd (start p)) = vp_cached_first_frame p"
    "vp_shadow_decode_mode (snd (start p)) = vp_shadow_decode_mode p"
  using assms by (simp_all add: start_def SetState_def Let_def no_decoder_def whole_decoder_def)

lemma start_inv:
  assumes "vfp_inv p"
  shows "vfp_inv (snd (start p))"
proof (cases "vp_state p = STOPPED")
  case True
  with assms have "vp_thread p = NoThread" "no_decoder p"
    by (auto simp: vfp_inv_def control_ok_def)
  with assms True show ?thesis unfolding vfp_inv_def start_fields [OF True] by (simp add: control_ok_def)
next
  case False
  with assms show ?thesis by (simp add: start_def)
qed

lemma stop_request_inv: "vfp_inv p \<Longrightarrow> vp_state p = RUNNING \<Longrightarrow> vfp_inv (stop_request p)"
  by (simp add: vfp_inv_def control_ok_def control_defs no_decoder_def whole_decoder_def)

lemma stop_finish_fields:
  assumes "vp_scaled_data p \<longrightarrow> vp_scaled_frame p"
  shows "vp_state (stop_finish p) = STOPPED" "vp_thread (stop_finish p) = NoThread"
    "no_decoder (stop_finish p)" "vp_shadow_decode_ready (stop_finish p) = vp_shadow_decode_ready p"
    "vp_cached_first_frame (stop_finish p) = vp_cached_first_frame p"
    "vp_shadow_decode_mode (stop_finish p) = vp_shadow_decode_mode p"
  using assms by (auto simp: control_defs no_decoder_def CloseDecoder_def)

lemma stop_finish_inv: "vfp_inv p \<Longrightarrow> vfp_inv (stop_finish p)"
proof -
  assume inv: "vfp_inv p"
  then have "vp_scaled_data p \<longrightarrow> vp_scaled_frame p"
    using whole_or_no_scaled [of p] unfolding vfp_inv_def control_ok_def by blast
  note f = stop_finish_fields [OF this]
  show ?thesis using inv unfolding vfp_inv_def f control_ok_def by (simp add: f)
qed

text \<open>Updates of fields the invariant does not read.\<close>

lemma vfp_inv_update [simp]:
  "vfp_inv (p\<lparr>vp_events := ev\<rparr>) = vfp_inv p" "vfp_inv (p\<lparr>vp_drain_timeout_ms := a\<rparr>) = vfp_inv p"
  "vfp_inv (p\<lparr>vp_teardown_deadline_ms := a\<rparr>) = vfp_inv p"
  "vfp_inv (p\<lparr>vp_teardown_requested := b\<rparr>) = vfp_inv p"
  "vfp_inv (p\<lparr>vp_pts_offset_us := a\<rparr>) = vfp_inv p"
  by (simp_all add: vfp_inv_def no_decoder_def whole_decoder_def)

lemma vfp_inv_stop: "vfp_inv p \<Longrightarrow> vfp_inv (p\<lparr>vp_stop_requested := True\<rparr>)"
  by (simp add: vfp_inv_def control_ok_def no_decoder_def whole_decoder_def)

lemma vfp_inv_shadow:
  "vfp_inv p \<Longrightarrow> vfp_inv (SetShadowDecodeMode p on)"
  by (simp add: SetShadowDecodeMode_def Let_def) (simp add: vfp_inv_def control_ok_def no_decoder_def whole_decoder_def)

lemma control_inv:
  assumes "vfp_inv p"
  shows "vfp_inv (RequestTeardown p now timeout)" "vfp_inv (ForceStop p)"
    "vfp_inv (SetShadowDecodeMode p on)" "vfp_inv (AlignPTS p target)"
  using assms vfp_inv_stop [OF assms] vfp_inv_shadow [OF assms, of on]
  by (simp_all add: RequestTeardown_def ForceStop_def AlignPTS_def Let_def)

lemma ProduceLoop_end_inv: "vfp_inv p \<Longrightarrow> vp_thread p = InLoop \<Longrightarrow> vfp_inv (ProduceLoop_end p)"
  by (auto simp: vfp_inv_def control_ok_def control_defs no_decoder_def whole_decoder_def)

lemma vfp_step_inv: "vfp_step s t \<Longrightarrow> vfp_inv (fst s) \<and> rb_wf (snd s) \<Longrightarrow> vfp_inv (fst t) \<and> rb_wf (snd t)"
proof (induction rule: vfp_step.induct)
  case (step_pass p inp q p' q')
  then show ?case using ProduceLoop_pass_keeps [of inp p q] pass_keeps_inv pass_output_ring by fastforce
next
  case (step_end p inp q p' q')
  then have k: "pass_keeps p p'" "pass_output p q p' q'" using ProduceLoop_pass_keeps by blast+
  then have "vp_thread p' = InLoop" using step_end by (simp add: pass_keeps_def)
  with k step_end show ?case using pass_keeps_inv pass_output_ring ProduceLoop_end_inv by fastforce
next
  case (step_consume p q)
  obtain y q' where "Pop q = (y, q')" by (cases "Pop q")
  with step_consume video.pop_refines [of q y q'] show ?case by simp
qed (simp_all add: start_inv stop_request_inv stop_finish_inv control_inv begin_inv)

section \<open>The cycle of states\<close>

lemma state_log_add:
  "state_log (p\<lparr>vp_events := vp_events p @ [(t, m)]\<rparr>) = state_log p @ (if t = ''state_change'' then [m] else [])"
  by (simp add: state_log_def)

lemma start_log:
  "vp_has_callback p \<Longrightarrow> vp_state p = STOPPED \<Longrightarrow>
    state_log (snd (start p)) = state_log p @ [''state=1'', ''state=2''] \<and> vp_state (snd (start p)) = RUNNING
    \<and> vp_has_callback (snd (start p))"
  by (auto simp: control_defs state_log_def)

lemma stop_request_log:
  "vp_has_callback p \<Longrightarrow> vp_state p = RUNNING \<Longrightarrow>
    state_log (stop_request p) = state_log p @ [''state=3''] \<and> vp_state (stop_request p) = STOPPING
    \<and> vp_has_callback (stop_request p)"
  by (simp add: control_defs state_log_def)

lemma stop_finish_log:
  "vp_has_callback p \<Longrightarrow> vp_state p = STOPPING \<Longrightarrow>
    state_log (stop_finish p) = state_log p @ [''state=0''] \<and> vp_state (stop_finish p) = STOPPED
    \<and> vp_has_callback (stop_finish p)"
  by (simp add: control_defs state_log_def CloseDecoder_def)

lemma other_control_log:
  "vp_has_callback (RequestTeardown p now timeout) = vp_has_callback p"
  "state_log (RequestTeardown p now timeout) = state_log p" "vp_state (RequestTeardown p now timeout) = vp_state p"
  "vp_has_callback (ForceStop p) = vp_has_callback p" "state_log (ForceStop p) = state_log p"
  "vp_state (ForceStop p) = vp_state p"
  "vp_has_callback (SetShadowDecodeMode p on) = vp_has_callback p"
  "state_log (SetShadowDecodeMode p on) = state_log p" "vp_state (SetShadowDecodeMode p on) = vp_state p"
  "vp_has_callback (AlignPTS p target) = vp_has_callback p" "state_log (AlignPTS p target) = state_log p"
  "vp_state (AlignPTS p target) = vp_state p"
  "vp_has_callback (ProduceLoop_end p) = vp_has_callback p" "state_log (ProduceLoop_end p) = state_log p"
  "vp_state (ProduceLoop_end p) = vp_state p"
  by (simp_all add: control_defs state_log_def)

lemma cycle_round: "concat (replicate n state_cycle) @ state_cycle = concat (replicate (Suc n) state_cycle)"
  by (induction n) simp_all

lemma vfp_step_cycle:
  "vfp_step s t \<Longrightarrow> vfp_inv (fst s) \<Longrightarrow> cycle_inv (fst s) \<Longrightarrow> cycle_inv (fst t)"
proof (induction rule: vfp_step.induct)
  case (step_start p q)
  show ?case
  proof (cases "vp_state p = STOPPED")
    case True
    with step_start start_log [of p] show ?thesis by (auto simp: cycle_inv_def)
  next
    case False
    with step_start show ?thesis by (simp add: start_def)
  qed
next
  case (step_stop p q)
  then show ?case using stop_request_log [of p] by (auto simp: cycle_inv_def)
next
  case (step_join p q)
  then obtain n where "state_log (stop_finish p) = concat (replicate n state_cycle) @ state_cycle"
    "vp_state (stop_finish p) = STOPPED" "vp_has_callback (stop_finish p)"
    using stop_finish_log [of p] by (auto simp: cycle_inv_def state_cycle_def)
  then show ?case
    unfolding cycle_inv_def by (intro conjI exI [of _ "Suc n"]) (simp_all only: cycle_round fst_conv cycle_prefix.simps append_Nil2)
next
  case (step_begin p q e)
  then have "no_decoder p" by (simp add: vfp_inv_def control_ok_def)
  from ProduceLoop_begin_fields [OF this, of e] step_begin show ?case by (simp add: cycle_inv_def)
next
  case (step_pass p inp q p' q')
  then have "pass_keeps p p'" using ProduceLoop_pass_keeps by blast
  with step_pass show ?case by (simp add: cycle_inv_def pass_keeps_def)
next
  case (step_end p inp q p' q')
  then have "pass_keeps p p'" using ProduceLoop_pass_keeps by blast
  with step_end show ?case by (simp add: cycle_inv_def pass_keeps_def other_control_log)
qed (simp_all add: cycle_inv_def other_control_log)

lemma VideoFileProducer_inv: "vfp_inv (VideoFileProducer c k cb)"
  by (simp add: VideoFileProducer_def vfp_inv_def control_ok_def no_decoder_def)

lemma VideoFileProducer_cycle: "cycle_inv (VideoFileProducer c k True)"
  by (auto simp: VideoFileProducer_def cycle_inv_def state_log_def intro: exI [of _ 0])

lemma vfp_reachable_inv:
  assumes "vfp_reachable c k q0 s" "rb_wf q0"
  shows "vfp_inv (fst s) \<and> rb_wf (snd s) \<and> cycle_inv (fst s)"
  using assms(1)
proof induction
  case reach_init
  then show ?case using assms(2) by (simp add: VideoFileProducer_inv VideoFileProducer_cycle)
next
  case (reach_step s t)
  then show ?case using vfp_step_inv [of s t] vfp_step_cycle [of s t] by blast
qed

section \<open>Stopping\<close>

lemma stopping_pass: "vp_stop_requested p \<Longrightarrow> ProduceLoop_pass inp p q = Some (False, p, q)"
  by (simp add: ProduceLoop_pass_def)

lemma stop_steps:
  assumes "vfp_inv p" "vp_state p = RUNNING"
  shows "vfp_step\<^sup>*\<^sup>* (p, q) (stop e p, q)"
proof -
  let ?p1 = "stop_request p"
  let ?p2 = "if vp_thread ?p1 = Spawned then ProduceLoop_begin e ?p1 else ?p1"
  let ?p3 = "if vp_thread ?p2 = InLoop then ProduceLoop_end ?p2 else ?p2"
  have inv1: "vfp_inv ?p1" using stop_request_inv assms by blast
  have f1: "vp_state ?p1 = STOPPING" "vp_stop_requested ?p1" "vp_thread ?p1 = vp_thread p"
    using assms(2) by (simp_all add: stop_request_def SetState_def Let_def)
  have th: "vp_thread p \<noteq> NoThread" using assms by (simp add: vfp_inv_def control_ok_def)
  have "no_decoder ?p1" if "vp_thread ?p1 = Spawned" using inv1 that by (simp add: vfp_inv_def control_ok_def)
  note beg = ProduceLoop_begin_fields [OF this, of e]
  have f2: "vp_state ?p2 = STOPPING" "vp_stop_requested ?p2" "vp_thread ?p2 \<in> {InLoop, Exited}"
    using f1 th beg by (cases "vp_thread p"; simp)+
  have s1: "vfp_step (p, q) (?p1, q)" using step_stop [OF assms(2)] .
  have s2: "vfp_step\<^sup>*\<^sup>* (?p1, q) (?p2, q)"
    by (cases "vp_thread ?p1 = Spawned") (auto intro: step_begin)
  have s3: "vfp_step\<^sup>*\<^sup>* (?p2, q) (?p3, q)"
  proof (cases "vp_thread ?p2 = InLoop")
    case True
    from vfp_step.step_end [OF True stopping_pass [OF f2(2)], of q] True
    show ?thesis by (auto simp del: if_split)
  qed simp
  have "vp_state ?p3 = STOPPING" "vp_thread ?p3 = Exited"
    using f2 by (auto simp: ProduceLoop_end_def)
  then have s4: "vfp_step (?p3, q) (stop_finish ?p3, q)" by (rule step_join)
  have "stop e p = stop_finish ?p3" using assms(2) by (simp add: stop_def Let_def)
  with s1 s2 s3 s4 show ?thesis by (metis (no_types, lifting) converse_rtranclp_into_rtranclp rtranclp.rtrancl_into_rtrancl rtranclp_trans)
qed

section \<open>Properties\<close>

text \<open>
  C9. In every interleaving of the control thread, the producer thread and the consumer, the producer
  goes round STOPPED, STARTING, RUNNING, STOPPING in that order: the recorded state changes are whole
  rounds followed by the part of the round that leads to the present state. It rests STOPPED only
  without a thread and with the decoder released, a live thread has all of the decoder or none of it,
  and start succeeds exactly from STOPPED, so it never replaces a thread that is still running.
\<close>

theorem producer_lifecycle:
  assumes "vfp_reachable config clock q0 (p, q)" and "rb_wf q0"
  shows "(\<exists>n. state_log p = concat (replicate n state_cycle) @ cycle_prefix (vp_state p))
    \<and> vp_state p \<noteq> STARTING
    \<and> (vp_state p = STOPPED \<longrightarrow> vp_thread p = NoThread \<and> no_decoder p)
    \<and> (vp_state p \<noteq> STOPPED \<longrightarrow> vp_thread p \<noteq> NoThread)
    \<and> (no_decoder p \<or> whole_decoder p)
    \<and> (fst (start p) \<longleftrightarrow> vp_state p = STOPPED)
    \<and> (fst (start p) \<longrightarrow> vp_thread p = NoThread \<and> isRunning (snd (start p)))
    \<and> (\<not> fst (start p) \<longrightarrow> snd (start p) = p)
    \<and> rb_wf q"
proof -
  have inv: "vfp_inv p" "rb_wf q" "cycle_inv p" using vfp_reachable_inv [OF assms] by simp_all
  have s: "fst (start p) \<longleftrightarrow> vp_state p = STOPPED" "\<not> fst (start p) \<Longrightarrow> snd (start p) = p"
    by (auto simp: start_def Let_def)
  show ?thesis
    using inv s start_fields(1) [of p]
    by (cases "vp_state p") (simp_all add: vfp_inv_def control_ok_def cycle_inv_def isRunning_def)
qed

lemma reach_started:
  "vfp_reachable c k q (snd (start (VideoFileProducer c k True)), q)"
  by (rule reach_step [OF reach_init], rule step_start) (simp add: VideoFileProducer_def)

theorem producer_lifecycle_witness:
  "isRunning (snd (start (VideoFileProducer ProducerConfig NoClock True)))
   \<and> vp_thread (snd (start (VideoFileProducer ProducerConfig NoClock True))) \<noteq> NoThread"
proof -
  let ?p = "snd (start (VideoFileProducer ProducerConfig NoClock True))"
  have r: "isRunning ?p" by (simp add: VideoFileProducer_def start_def SetState_def isRunning_def Let_def)
  have "rb_wf (FrameRingBuffer 60)" by (rule FrameRingBuffer_wf) simp
  from producer_lifecycle [OF reach_started this, of ProducerConfig NoClock] r
  show ?thesis by (simp add: isRunning_def)
qed

text \<open>
  stop always gets the producer to rest: from every reachable RUNNING state the steps of stop
  lead to STOPPED with the thread joined and the decoder released, whether the thread had not begun,
  was in its loop or had already left it; after the request the very next pass of the loop ends it,
  and the ring is not touched.
\<close>

theorem producer_stop_completes:
  assumes "vfp_reachable config clock q0 (p, q)" and "rb_wf q0" and "isRunning p"
  shows "vfp_step\<^sup>*\<^sup>* (p, q) (stop e p, q) \<and> vp_state (stop e p) = STOPPED
    \<and> vp_thread (stop e p) = NoThread \<and> no_decoder (stop e p)
    \<and> ProduceLoop_pass inp (stop_request p) q = Some (False, stop_request p, q)
    \<and> fst (start (stop e p))"
proof -
  have inv: "vfp_inv p" "rb_wf q" using vfp_reachable_inv [OF assms(1,2)] by simp_all
  have run: "vp_state p = RUNNING" using assms(3) by (simp add: isRunning_def)
  have steps: "vfp_step\<^sup>*\<^sup>* (p, q) (stop e p, q)" using stop_steps [OF inv(1) run] .
  have "vfp_reachable config clock q0 (stop e p, q)"
    using steps assms(1) by (induction rule: rtranclp_induct) (auto intro: reach_step)
  then have inv': "vfp_inv (stop e p)" using vfp_reachable_inv assms(2) by fastforce
  have st: "vp_state (stop e p) = STOPPED"
    using run by (simp add: stop_def Let_def stop_finish_def SetState_def)
  have "vp_stop_requested (stop_request p)" using run by (simp add: stop_request_def)
  with steps inv' st stopping_pass show ?thesis
    by (simp add: vfp_inv_def control_ok_def start_def Let_def)
qed

text \<open>A file whose second stream is video, and a library that runs out of memory for the scaled frame.\<close>

definition failing_decoder :: decoder_env where
  "failing_decoder = \<lparr>de_ffmpeg_available = True, de_alloc_context = True, de_open_input = True,
    de_find_stream_info = True, de_streams = [(False, 1 / 48000, True), (True, 1 / 90000, True)],
    de_alloc_codec = True, de_copy_parameters = True, de_open_codec = True, de_alloc_frame = True,
    de_alloc_scaled_frame = False, de_get_scaler = True, de_alloc_image = True, de_alloc_packet = True\<rparr>"

theorem producer_stop_completes_witness:
  "vp_state (stop failing_decoder (snd (start (VideoFileProducer ProducerConfig NoClock True)))) = STOPPED"
proof -
  have r: "isRunning (snd (start (VideoFileProducer ProducerConfig NoClock True)))"
    by (simp add: VideoFileProducer_def start_def SetState_def isRunning_def Let_def)
  have "rb_wf (FrameRingBuffer 60)" by (rule FrameRingBuffer_wf) simp
  from producer_stop_completes [OF reach_started this r, of failing_decoder] show ?thesis by simp
qed



text \<open>
  The decoder's set-up is all or nothing: it succeeds exactly when every FFmpeg call does and
  the file has a video stream whose codec is known; then every resource is held and the first video
  stream is selected. On any failure every resource acquired on the way is released again and the
  producer thread falls back to stub mode; CloseDecoder leaves nothing behind.
\<close>

theorem decoder_all_or_nothing:
  assumes "no_decoder p"
  shows "(fst (InitializeDecoder e p) \<longleftrightarrow> decoder_available e)
    \<and> (decoder_available e \<longrightarrow> whole_decoder (snd (InitializeDecoder e p))
        \<and> (\<exists>i < length (de_streams e). vp_video_stream_index (snd (InitializeDecoder e p)) = int i
            \<and> fst (de_streams e ! i) \<and> (\<forall>k < i. \<not> fst (de_streams e ! k))))
    \<and> (\<not> decoder_available e \<longrightarrow> no_decoder (snd (InitializeDecoder e p)))
    \<and> erase_decoder (snd (InitializeDecoder e p)) = erase_decoder p
    \<and> (pc_stub_mode (vp_config (ProduceLoop_begin e p)) \<longleftrightarrow>
         pc_stub_mode (vp_config p) \<or> \<not> decoder_available e)
    \<and> no_decoder (CloseDecoder (snd (InitializeDecoder e p)))"
proof -
  have stub: "pc_stub_mode (vp_config (ProduceLoop_begin e p)) \<longleftrightarrow>
      pc_stub_mode (vp_config p) \<or> \<not> decoder_available e"
    using ProduceLoop_begin_fields(9,11) [OF assms, of e] by simp
  show ?thesis
  proof (cases "decoder_available e")
    case True
    then obtain i where i: "find_video_stream 0 (de_streams e) = Some i"
      by (auto simp: decoder_available_def split: option.splits)
    with decoder_whole_if_available [OF True, of p] find_video_stream_bounds [OF i] stub True
      InitializeDecoder_ok [OF True i, of p] CloseDecoder_no_decoder whole_or_no_scaled
    show ?thesis by auto
  next
    case False
    with InitializeDecoder_fails [OF False assms] stub CloseDecoder_no_decoder whole_or_no_scaled
    show ?thesis by auto
  qed
qed

theorem decoder_all_or_nothing_witness:
  "\<not> fst (InitializeDecoder failing_decoder (VideoFileProducer ProducerConfig NoClock True))
     \<and> no_decoder (snd (InitializeDecoder failing_decoder (VideoFileProducer ProducerConfig NoClock True)))"
proof -
  have n: "no_decoder (VideoFileProducer ProducerConfig NoClock True)"
    by (simp add: no_decoder_def VideoFileProducer_def)
  have "\<not> decoder_available failing_decoder" by (simp add: decoder_available_def failing_decoder_def)
  with decoder_all_or_nothing [OF n, of failing_decoder] show ?thesis by blast
qed

end
