(* ===== verification/Producer_Frames.thy ===== *)
theory Producer_Frames
  imports VideoFileProducer
begin

text \<open>
  The frames the video file producer makes: the packing of the decoded planes, the presentation times
  of decoded and of stub frames, alignment for a seamless switch, and the waits of one pass.
\<close>

section \<open>Packing the planes\<close>

text \<open>The rows of a plane without the padding of its lines.\<close>

definition plane_rows :: "'a list \<Rightarrow> nat \<Rightarrow> nat \<Rightarrow> nat \<Rightarrow> 'a list" where
  "plane_rows src linesize width height = concat (map (\<lambda>y. take width (drop (y * linesize) src)) [0..<height])"

lemma row_length:
  assumes "(y + 1) * linesize \<le> length src" "width \<le> linesize"
  shows "length (take width (drop (y * linesize) src)) = width"
  using assms by simp

lemma plane_rows_Suc:
  "plane_rows src linesize width (Suc h) = plane_rows src linesize width h @ take width (drop (h * linesize) src)"
  by (simp add: plane_rows_def)

lemma length_plane_rows:
  "height * linesize \<le> length src \<Longrightarrow> width \<le> linesize \<Longrightarrow>
    length (plane_rows src linesize width height) = height * width"
proof (induction height)
  case (Suc h)
  then have "length (take width (drop (h * linesize) src)) = width" by (intro row_length) simp_all
  with Suc show ?case by (simp add: plane_rows_Suc)
qed (simp add: plane_rows_def)

lemma copy_plane_rows:
  assumes "height * linesize \<le> length src" "width \<le> linesize" "base + height * width \<le> length dst"
  shows "copy_plane dst base src linesize width height
    = take base dst @ plane_rows src linesize width height @ drop (base + height * width) dst"
  using assms
proof (induction height)
  case 0
  then show ?case by (simp add: copy_plane_def plane_rows_def)
next
  case (Suc h)
  let ?row = "take width (drop (h * linesize) src)"
  have row: "length ?row = width" using Suc.prems by (intro row_length) simp_all
  have rows: "length (plane_rows src linesize width h) = h * width"
    using Suc.prems by (intro length_plane_rows) simp_all
  have "copy_plane dst base src linesize width (Suc h)
      = memcpy (copy_plane dst base src linesize width h) (base + h * width) (drop (h * linesize) src) width"
    by (simp add: copy_plane_def)
  also have "\<dots> = take base dst @ plane_rows src linesize width h @ ?row
      @ drop (base + h * width + width) (copy_plane dst base src linesize width h)"
    using Suc rows by (simp add: memcpy_def)
  also have "drop (base + h * width + width) (copy_plane dst base src linesize width h)
      = drop (base + Suc h * width) dst"
    using Suc rows by (simp add: algebra_simps)
  finally show ?case by (simp add: plane_rows_Suc)
qed

text \<open>A picture large enough for a frame of the given size.\<close>

definition image_fits :: "scaled_image \<Rightarrow> nat \<Rightarrow> nat \<Rightarrow> bool" where
  "image_fits im w h \<longleftrightarrow>
     w \<le> nat (si_linesize0 im) \<and> h * nat (si_linesize0 im) \<le> length (si_data0 im)
     \<and> w div 2 \<le> nat (si_linesize1 im) \<and> (h div 2) * nat (si_linesize1 im) \<le> length (si_data1 im)
     \<and> w div 2 \<le> nat (si_linesize2 im) \<and> (h div 2) * nat (si_linesize2 im) \<le> length (si_data2 im)"

lemma AssembleFrame_data:
  assumes "vp_scaled_frame p" "pc_target_width (vp_config p) = int w" "pc_target_height (vp_config p) = int h"
    and "image_fits (df_image d) w h"
  shows "fr_data (snd (snd (AssembleFrame p d empty_frame))) =
    plane_rows (si_data0 (df_image d)) (nat (si_linesize0 (df_image d))) w h
    @ plane_rows (si_data1 (df_image d)) (nat (si_linesize1 (df_image d))) (w div 2) (h div 2)
    @ plane_rows (si_data2 (df_image d)) (nat (si_linesize2 (df_image d))) (w div 2) (h div 2)"
proof -
  let ?y = "plane_rows (si_data0 (df_image d)) (nat (si_linesize0 (df_image d))) w h"
    and ?u = "plane_rows (si_data1 (df_image d)) (nat (si_linesize1 (df_image d))) (w div 2) (h div 2)"
    and ?v = "plane_rows (si_data2 (df_image d)) (nat (si_linesize2 (df_image d))) (w div 2) (h div 2)"
  let ?ys = "h * w" and ?uv = "(h div 2) * (w div 2)"
  let ?z = "replicate (?ys + 2 * ?uv) (0 :: u8)"
  note fits = assms(4) [unfolded image_fits_def]
  have len: "length ?y = ?ys" "length ?u = ?uv" "length ?v = ?uv"
    using fits by (simp_all add: length_plane_rows)
  have c1: "copy_plane ?z 0 (si_data0 (df_image d)) (nat (si_linesize0 (df_image d))) w h
      = ?y @ replicate (2 * ?uv) 0"
    using fits by (subst copy_plane_rows) simp_all
  have c2: "copy_plane (?y @ replicate (2 * ?uv) 0) ?ys (si_data1 (df_image d))
      (nat (si_linesize1 (df_image d))) (w div 2) (h div 2) = ?y @ ?u @ replicate ?uv 0"
    using fits len by (subst copy_plane_rows) simp_all
  have c3: "copy_plane (?y @ ?u @ replicate ?uv 0) (?ys + ?uv) (si_data2 (df_image d))
      (nat (si_linesize2 (df_image d))) (w div 2) (h div 2) = ?y @ ?u @ ?v"
    using fits len by (subst copy_plane_rows) simp_all
  have half: "int n sdiv 2 = int (n div 2)" for n by (simp add: sdiv_pos zdiv_int)
  have sz: "nat (int a * int b) = b * a" for a b
    by (metis mult.commute nat_int of_nat_mult)
  show ?thesis
    using assms(1-3) c1 c2 c3
    by (simp add: AssembleFrame_def Let_def half sz empty_frame_def)
qed

section \<open>Presentation times of decoded frames\<close>

text \<open>The time stamp of the file, in microseconds.\<close>

definition file_pts_us :: "producer \<Rightarrow> decoded_frame \<Rightarrow> int" where
  "file_pts_us p d = trunc_real (real_of_int (case df_pts d of Some t \<Rightarrow> t | None \<Rightarrow> df_best_effort_timestamp d)
     * vp_time_base p * 1000000)"

definition base_pts_us :: "producer \<Rightarrow> decoded_frame \<Rightarrow> int" where
  "base_pts_us p d = (if file_pts_us p d \<le> vp_last_pts_us p then vp_last_pts_us p + vp_frame_interval_us p
     else file_pts_us p d)"

lemma AssembleFrame_metadata:
  assumes "vp_scaled_frame p"
  shows "md_pts (fr_metadata (snd (snd (AssembleFrame p d f)))) = base_pts_us p d"
    "md_dts (fr_metadata (snd (snd (AssembleFrame p d f)))) \<le> base_pts_us p d"
    "fr_width (snd (snd (AssembleFrame p d f))) = pc_target_width (vp_config p)"
    "fr_height (snd (snd (AssembleFrame p d f))) = pc_target_height (vp_config p)"
  using assms by (simp_all add: AssembleFrame_def Let_def base_pts_us_def file_pts_us_def)

lemma base_pts_us_greater: "0 < vp_frame_interval_us p \<Longrightarrow> vp_last_pts_us p < base_pts_us p d"
  by (simp add: base_pts_us_def)

lemma next_real_pts:
  "vp_scaled_frame p \<Longrightarrow> md_pts (fr_metadata (next_real p d)) = base_pts_us p d + vp_pts_offset_us p"
  by (simp add: next_real_def Let_def AssembleFrame_metadata)

lemma next_real_data: "fr_data (next_real p d) = fr_data (snd (snd (AssembleFrame p d empty_frame)))"
  by (simp add: next_real_def Let_def)

lemma after_real_last: "vp_last_pts_us (after_real inp p) = md_pts (fr_metadata (next_real p (li_decoded inp)))"
  by (simp add: after_real_def Let_def)

section \<open>Stub frames\<close>

fun stub_run :: "loop_input list \<Rightarrow> producer \<Rightarrow> ring_buffer \<Rightarrow> (producer \<times> ring_buffer) option" where
  "stub_run [] p q = Some (p, q)"
| "stub_run (inp # inps) p q =
     (case ProduceStubFrame inp p q of None \<Rightarrow> None | Some (p', q') \<Rightarrow> stub_run inps p' q')"

text \<open>The stub frames a producer makes next.\<close>

definition stub_frames :: "producer \<Rightarrow> nat \<Rightarrow> frame list" where
  "stub_frames p n = map (\<lambda>k. stub_frame p ((vp_stub_pts_counter p + int k) * vp_frame_interval_us p
     + vp_pts_offset_us p)) [0..<n]"

lemma stub_frames_Suc:
  assumes "vp_stub_pts_counter p' = vp_stub_pts_counter p + 1" "vp_frame_interval_us p' = vp_frame_interval_us p"
    "vp_pts_offset_us p' = vp_pts_offset_us p" "vp_config p' = vp_config p"
  shows "stub_frames p (Suc n) = next_stub p # stub_frames p' n"
proof -
  have "stub_frame p' = stub_frame p" using assms by (simp add: stub_frame_def fun_eq_iff)
  moreover have "[0..<Suc n] = 0 # map Suc [0..<n]"
    by (simp add: map_Suc_upt upt_conv_Cons del: upt_Suc)
  ultimately show ?thesis
    using assms by (simp add: stub_frames_def next_stub_def add.assoc del: upt_Suc)
qed

text \<open>One stub frame on a ring with \<open>free\<close> slots left.\<close>

lemma ProduceStubFrame_step:
  assumes "ProduceStubFrame inp p q = Some (p', q')" "rb_wf q" "\<not> vp_shadow_decode_mode p"
  defines "free \<equiv> rb_room q - length (rb_frames q)"
  shows "rb_frames q' = rb_frames q @ (if free = 0 then [] else [next_stub p])"
    "rb_wf q'" "rb_room q' = rb_room q" "\<not> vp_shadow_decode_mode p'"
    "vp_frames_produced p' = vp_frames_produced p + (if free = 0 then 0 else 1)"
    "vp_buffer_full_count p' = vp_buffer_full_count p + (if free = 0 then 1 else 0)"
    "vp_stub_pts_counter p' = vp_stub_pts_counter p + 1" "vp_frame_interval_us p' = vp_frame_interval_us p"
    "vp_pts_offset_us p' = vp_pts_offset_us p" "vp_config p' = vp_config p"
    "vp_last_pts_us p' = md_pts (fr_metadata (next_stub p))"
proof -
  have pts: "md_pts (fr_metadata (next_stub p))
      = vp_stub_pts_counter p * vp_frame_interval_us p + vp_pts_offset_us p"
    by (simp add: next_stub_def)
  have free: "free = 0 \<longleftrightarrow> \<not> length (rb_frames q) < rb_room q" by (auto simp: free_def)
  obtain ok q1 where push: "Push q (next_stub p) = (ok, q1)" by (cases "Push q (next_stub p)")
  have spec: "ok \<longleftrightarrow> free \<noteq> 0" "rb_frames q1 = rb_frames q @ (if ok then [next_stub p] else [])"
      "rb_room q1 = rb_room q" "rb_wf q1"
    using video.push_refines [OF assms(2) push] free by (auto simp: spec_push_def split: if_splits)
  from assms(1) consider
    d where "ok" "q' = q1" "p' = (after_stub p d)\<lparr>vp_frames_produced := vp_frames_produced p + 1\<rparr>"
  | d where "\<not> ok" "q' = q1" "p' = (after_stub p d)\<lparr>vp_buffer_full_count := vp_buffer_full_count p + 1\<rparr>"
    by (rule ProduceStubFrame_cases) (use assms(3) push Push_False in auto)
  then have "rb_frames q' = rb_frames q @ (if free = 0 then [] else [next_stub p])
    \<and> rb_wf q' \<and> rb_room q' = rb_room q \<and> \<not> vp_shadow_decode_mode p'
    \<and> vp_frames_produced p' = vp_frames_produced p + (if free = 0 then 0 else 1)
    \<and> vp_buffer_full_count p' = vp_buffer_full_count p + (if free = 0 then 1 else 0)
    \<and> vp_stub_pts_counter p' = vp_stub_pts_counter p + 1 \<and> vp_frame_interval_us p' = vp_frame_interval_us p
    \<and> vp_pts_offset_us p' = vp_pts_offset_us p \<and> vp_config p' = vp_config p
    \<and> vp_last_pts_us p' = md_pts (fr_metadata (next_stub p))"
    using spec assms(3) by cases (simp_all add: after_stub_def pts)
  then show "rb_frames q' = rb_frames q @ (if free = 0 then [] else [next_stub p])"
    "rb_wf q'" "rb_room q' = rb_room q" "\<not> vp_shadow_decode_mode p'"
    "vp_frames_produced p' = vp_frames_produced p + (if free = 0 then 0 else 1)"
    "vp_buffer_full_count p' = vp_buffer_full_count p + (if free = 0 then 1 else 0)"
    "vp_stub_pts_counter p' = vp_stub_pts_counter p + 1" "vp_frame_interval_us p' = vp_frame_interval_us p"
    "vp_pts_offset_us p' = vp_pts_offset_us p" "vp_config p' = vp_config p"
    "vp_last_pts_us p' = md_pts (fr_metadata (next_stub p))" by simp_all
qed

lemma stub_run_frames:
  assumes "stub_run inps p q = Some (p', q')" "rb_wf q" "\<not> vp_shadow_decode_mode p"
  defines "free \<equiv> rb_room q - length (rb_frames q)"
  shows "rb_frames q' = rb_frames q @ take free (stub_frames p (length inps))
    \<and> vp_frames_produced p' = vp_frames_produced p + min free (length inps)
    \<and> vp_buffer_full_count p' = vp_buffer_full_count p + (length inps - free)
    \<and> vp_stub_pts_counter p' = vp_stub_pts_counter p + int (length inps) \<and> rb_wf q'"
  using assms(1-3) unfolding free_def
proof (induction inps arbitrary: p q)
  case Nil
  then show ?case by (simp add: stub_frames_def)
next
  case (Cons inp inps)
  then obtain p1 q1 where s: "ProduceStubFrame inp p q = Some (p1, q1)" "stub_run inps p1 q1 = Some (p', q')"
    by (auto split: option.splits)
  note st = ProduceStubFrame_step [OF s(1) Cons.prems(2,3)]
  note ih = Cons.IH [OF s(2) st(2,4)]
  note fs = stub_frames_Suc [OF st(7-10)]
  show ?case
  proof (cases "rb_room q - length (rb_frames q)")
    case 0
    with ih st fs show ?thesis by simp
  next
    case (Suc free)
    with st(1,3) have "rb_room q1 - length (rb_frames q1) = free" by simp
    with Suc ih st fs show ?thesis by simp
  qed
qed

text \<open>The deadline of the next stub frame moves by the frame interval, whatever the clock showed.\<close>

lemma stub_wait_deadline:
  assumes "stub_wait inp p = Some (p', i)" "vp_clock p \<noteq> NoClock"
  shows "vp_next_stub_deadline_utc p' = (if vp_next_stub_deadline_utc p = 0 then li_clk inp 0
      else vp_next_stub_deadline_utc p) + vp_frame_interval_us p"
    "vp_next_stub_deadline_utc p \<noteq> 0 \<Longrightarrow>
      \<exists>j < i. vp_next_stub_deadline_utc p \<le> li_clk inp j \<or> li_stop inp j"
proof -
  show "vp_next_stub_deadline_utc p' = (if vp_next_stub_deadline_utc p = 0 then li_clk inp 0
      else vp_next_stub_deadline_utc p) + vp_frame_interval_us p"
    using assms by (auto simp: stub_wait_def Let_def split: if_splits option.splits)
  assume "vp_next_stub_deadline_utc p \<noteq> 0"
  with assms have "poll_clock (li_clk inp) (li_stop inp) (vp_next_stub_deadline_utc p) 0 = Some i"
    by (auto simp: stub_wait_def Let_def split: option.splits)
  from poll_clock_Some [OF this] show
    "\<exists>j < i. vp_next_stub_deadline_utc p \<le> li_clk inp j \<or> li_stop inp j"
    by (intro exI [of _ "i - 1"]) auto
qed

section \<open>Passes return\<close>

lemma poll_eventually:
  assumes "\<And>d i. \<exists>k \<ge> i. d \<le> clk k \<or> halt k"
  shows "\<exists>j. poll_clock clk halt d i = Some j"
  using assms [of i d] poll_clock_ends by metis

lemma pass_waits_return:
  assumes "\<And>d i. \<exists>k \<ge> i. d \<le> li_clk inp k \<or> li_stop inp k"
  shows "\<exists>i. push_backoff p inp j = Some i" "\<exists>r. stub_wait inp p = Some r"
    "\<exists>i. eof_wait inp p = Some i" "\<exists>i. real_wait inp p = Some i"
proof -
  have poll: "\<exists>j. poll_clock (li_clk inp) (li_stop inp) d i = Some j" for d i
    using poll_eventually assms by blast
  show "\<exists>i. push_backoff p inp j = Some i" using poll by (simp add: push_backoff_def)
  show "\<exists>r. stub_wait inp p = Some r"
    using poll [of "vp_next_stub_deadline_utc p" 0] by (auto simp: stub_wait_def Let_def)
  show "\<exists>i. eof_wait inp p = Some i" using poll by (simp add: eof_wait_def Let_def)
  show "\<exists>i. real_wait inp p = Some i" using poll by (simp add: real_wait_def Let_def)
qed

lemma if_not_None: "x \<noteq> None \<Longrightarrow> y \<noteq> None \<Longrightarrow> (if c then x else y) \<noteq> None"
  by simp

lemma ProduceStubFrame_returns:
  assumes "\<And>d i. \<exists>k \<ge> i. d \<le> li_clk inp k \<or> li_stop inp k"
  shows "ProduceStubFrame inp p q \<noteq> None"
proof -
  obtain p1 i where w: "stub_wait inp p = Some (p1, i)" using pass_waits_return(2) [OF assms] by force
  have b: "push_backoff r inp j = None \<longleftrightarrow> False" for r j using pass_waits_return(1) [OF assms, of r j] by auto
  show ?thesis
    by (auto simp: b ProduceStubFrame_def w Let_def split: prod.splits option.splits)
qed

lemma ProduceRealFrame_returns:
  assumes "\<And>d i. \<exists>k \<ge> i. d \<le> li_clk inp k \<or> li_stop inp k"
  shows "ProduceRealFrame inp p q \<noteq> None"
proof (cases "decodes_frame inp p")
  case True
  obtain i where w: "real_wait inp p = Some i" using pass_waits_return(4) [OF assms] by blast
  have b: "push_backoff r inp j = None \<longleftrightarrow> False" for r j using pass_waits_return(1) [OF assms, of r j] by auto
  show ?thesis
    by (auto simp: b ProduceRealFrame_decoded [OF True] w Let_def split: prod.splits option.splits)
next
  case False
  have "vp_scaled_frame p \<or> \<not> ScaleFrame p" by (simp add: ScaleFrame_def)
  from ProduceRealFrame_no_frame [OF False this, of q] show ?thesis by auto
qed

section \<open>Alignment\<close>

text \<open>A producer that has made \<open>c\<close> stub frames and was never aligned.\<close>

definition unaligned_stub :: "producer \<Rightarrow> nat \<Rightarrow> bool" where
  "unaligned_stub p c \<longleftrightarrow> 0 < vp_frame_interval_us p \<and> vp_pts_offset_us p = 0
     \<and> vp_stub_pts_counter p = int c
     \<and> vp_last_pts_us p = (if c = 0 then 0 else int (c - 1) * vp_frame_interval_us p)"

lemma next_stub_aligned:
  assumes "unaligned_stub p c"
  shows "md_pts (fr_metadata (next_stub (AlignPTS p target)))
      = target + (if c = 1 then vp_frame_interval_us p else 0)"
    "GetNextPTS p = md_pts (fr_metadata (next_stub p)) - (if c = 1 then vp_frame_interval_us p else 0)"
    "md_pts (fr_metadata (next_stub p)) = int c * vp_frame_interval_us p"
    "1 < c \<Longrightarrow> vp_last_pts_us p \<noteq> 0"
proof -
  note a = assms [unfolded unaligned_stub_def]
  have ne: "(1 + int m) * vp_frame_interval_us p \<noteq> 0" for m using a by auto
  consider "c = 0" | "c = 1" | m where "c = Suc (Suc m)" by (metis One_nat_def not0_implies_Suc)
  then have "md_pts (fr_metadata (next_stub (AlignPTS p target)))
      = target + (if c = 1 then vp_frame_interval_us p else 0)
    \<and> GetNextPTS p = md_pts (fr_metadata (next_stub p)) - (if c = 1 then vp_frame_interval_us p else 0)
    \<and> (1 < c \<longrightarrow> vp_last_pts_us p \<noteq> 0)"
  proof cases
    case (3 m)
    with a ne [of m] show ?thesis
      by (simp add: AlignPTS_def GetNextPTS_def next_stub_def Let_def algebra_simps)
  qed (use a in \<open>simp_all add: AlignPTS_def GetNextPTS_def next_stub_def Let_def\<close>)
  then show "md_pts (fr_metadata (next_stub (AlignPTS p target)))
      = target + (if c = 1 then vp_frame_interval_us p else 0)"
    "GetNextPTS p = md_pts (fr_metadata (next_stub p)) - (if c = 1 then vp_frame_interval_us p else 0)"
    "1 < c \<Longrightarrow> vp_last_pts_us p \<noteq> 0" by simp_all
  show "md_pts (fr_metadata (next_stub p)) = int c * vp_frame_interval_us p"
    using a by (simp add: next_stub_def)
qed

section \<open>Properties\<close>

text \<open>
  C33. A decoded picture is packed without gaps: the frame's bytes are exactly the rows of the Y, U
  and V planes in order, without the padding of their lines; the size is width * height plus two
  quarter planes, no row overwrites another, and the frame carries the target size and asset.
\<close>

theorem frame_packing:
  assumes "vp_scaled_frame p" and "pc_target_width (vp_config p) = int w"
    and "pc_target_height (vp_config p) = int h" and "image_fits (df_image d) w h"
  shows "fst (AssembleFrame p d empty_frame)
    \<and> fr_data (snd (snd (AssembleFrame p d empty_frame))) =
        plane_rows (si_data0 (df_image d)) (nat (si_linesize0 (df_image d))) w h
        @ plane_rows (si_data1 (df_image d)) (nat (si_linesize1 (df_image d))) (w div 2) (h div 2)
        @ plane_rows (si_data2 (df_image d)) (nat (si_linesize2 (df_image d))) (w div 2) (h div 2)
    \<and> length (fr_data (snd (snd (AssembleFrame p d empty_frame)))) = h * w + 2 * ((h div 2) * (w div 2))
    \<and> fr_width (snd (snd (AssembleFrame p d empty_frame))) = int w
    \<and> fr_height (snd (snd (AssembleFrame p d empty_frame))) = int h"
proof -
  note fits = assms(4) [unfolded image_fits_def]
  have "fst (AssembleFrame p d empty_frame)" using AssembleFrame_producer [OF assms(1)] by (metis fst_conv)
  then show ?thesis
    using AssembleFrame_data [OF assms] AssembleFrame_metadata(3,4) [OF assms(1), of d empty_frame]
      fits assms(2,3)
    by (simp add: length_plane_rows)
qed

definition small_image :: scaled_image where
  "small_image = \<lparr>si_data0 = [1, 2, 0, 3, 4, 0], si_data1 = [5, 0], si_data2 = [6, 0],
     si_linesize0 = 3, si_linesize1 = 2, si_linesize2 = 2\<rparr>"

definition small_decoded :: "int \<Rightarrow> decoded_frame" where
  "small_decoded t = \<lparr>df_pts = Some t, df_best_effort_timestamp = t, df_pkt_dts = None, df_image = small_image\<rparr>"

definition small_producer :: producer where
  "small_producer = (VideoFileProducer (ProducerConfig\<lparr>pc_target_width := 2, pc_target_height := 2,
      pc_target_fps := 25\<rparr>) NoClock True)
     \<lparr>vp_scaled_frame := True, vp_time_base := 1 / 1000000\<rparr>"

theorem frame_packing_witness:
  "fr_data (snd (snd (AssembleFrame small_producer (small_decoded 40000) empty_frame))) = [1, 2, 3, 4, 5, 6]"
proof -
  have a: "vp_scaled_frame small_producer" "pc_target_width (vp_config small_producer) = int 2"
    "pc_target_height (vp_config small_producer) = int 2"
    by (simp_all add: small_producer_def VideoFileProducer_def)
  have f: "image_fits (df_image (small_decoded 40000)) 2 2"
    by (simp add: image_fits_def small_decoded_def small_image_def)
  have two: "[0..<2] = [0, 1 :: nat]" by (simp add: numeral_2_eq_2)
  have "plane_rows (si_data0 small_image) (nat (si_linesize0 small_image)) 2 2 = [1, 2, 3, 4]"
    "plane_rows (si_data1 small_image) (nat (si_linesize1 small_image)) 1 1 = [5]"
    "plane_rows (si_data2 small_image) (nat (si_linesize2 small_image)) 1 1 = [6]"
    by (simp_all add: plane_rows_def two small_image_def)
  with frame_packing [OF a f] show ?thesis by (simp add: small_decoded_def)
qed

text \<open>
  Decoded frames without an alignment offset have strictly increasing presentation times,
  whatever time stamps the file carries: a stamp that does not advance is replaced by the last one
  plus the frame interval, a stamp that does is kept, and the decoding time never exceeds the
  presentation time. With an offset, the offset is added on top, and the result becomes the base of
  the next frame.
\<close>

theorem decoded_pts_monotone:
  assumes "decodes_frame inp p" and "0 < vp_frame_interval_us p"
  shows "let f = next_real p (li_decoded inp); file = file_pts_us p (li_decoded inp)
    in md_pts (fr_metadata f) = (if file \<le> vp_last_pts_us p then vp_last_pts_us p + vp_frame_interval_us p
                                 else file) + vp_pts_offset_us p
      \<and> (vp_pts_offset_us p = 0 \<longrightarrow> vp_last_pts_us p < md_pts (fr_metadata f))
      \<and> md_dts (fr_metadata f) + vp_pts_offset_us p \<le> md_pts (fr_metadata f)
      \<and> vp_last_pts_us (after_real inp p) = md_pts (fr_metadata f)
      \<and> vp_last_decoded_frame_pts_us (after_real inp p) = md_pts (fr_metadata f)"
proof -
  have s: "vp_scaled_frame p" using assms(1) by (simp add: decodes_frame_def ScaleFrame_def)
  show ?thesis
    using next_real_pts [OF s] AssembleFrame_metadata(2) [OF s, of "li_decoded inp" empty_frame]
      base_pts_us_greater [OF assms(2)]
    by (simp add: Let_def base_pts_us_def after_real_def next_real_def)
qed

theorem decoded_pts_monotone_witness:
  "let inp = \<lparr>li_steady_now_ms = 0, li_read = ReadPacket 0, li_send_ok = True, li_receive = ReceiveFrame,
              li_decoded = small_decoded 10, li_clk = \<lambda>_. 0, li_stop = \<lambda>_. False\<rparr>;
       p = small_producer\<lparr>vp_decoder_initialized := True, vp_video_stream_index := 0, vp_sws_ctx := True,
              vp_frame := True, vp_frame_interval_us := 40000, vp_last_pts_us := 80000\<rparr>
   in md_pts (fr_metadata (next_real p (li_decoded inp))) = 120000"
proof -
  let ?inp = "\<lparr>li_steady_now_ms = 0, li_read = ReadPacket 0, li_send_ok = True, li_receive = ReceiveFrame,
              li_decoded = small_decoded 10, li_clk = \<lambda>_. 0, li_stop = \<lambda>_. False\<rparr>"
  let ?p = "small_producer\<lparr>vp_decoder_initialized := True, vp_video_stream_index := 0, vp_sws_ctx := True,
              vp_frame := True, vp_frame_interval_us := 40000, vp_last_pts_us := 80000\<rparr>"
  have d: "decodes_frame ?inp ?p" "0 < vp_frame_interval_us ?p"
    by (simp_all add: decodes_frame_def ScaleFrame_def small_producer_def)
  have "file_pts_us ?p (small_decoded 10) = trunc_real (of_int 10)"
    by (simp add: file_pts_us_def small_decoded_def small_producer_def del: trunc_real_of_int)
  then have "file_pts_us ?p (small_decoded 10) = 10" by (simp only: trunc_real_of_int)
  with decoded_pts_monotone [OF d] show ?thesis
    by (simp add: Let_def small_producer_def VideoFileProducer_def)
qed

text \<open>
  Stub mode keeps its cadence: n passes make the n next frames of the exact series counter *
  interval + offset, of which the ring takes the first ones in order and the rest are counted as
  refused; every frame is counted once. With a clock a frame after the first is not made before its
  deadline unless the producer is being stopped, and the deadlines advance by exactly the interval,
  so late passes do not add up.
\<close>

theorem stub_cadence:
  assumes "stub_run inps p q = Some (p', q')" and "rb_wf q" and "\<not> vp_shadow_decode_mode p"
  shows "rb_frames q' = rb_frames q @ take (rb_room q - length (rb_frames q)) (stub_frames p (length inps))
    \<and> vp_frames_produced p' + vp_buffer_full_count p'
        = vp_frames_produced p + vp_buffer_full_count p + length inps
    \<and> vp_stub_pts_counter p' = vp_stub_pts_counter p + int (length inps)
    \<and> (\<forall>inp p'' i. stub_wait inp p = Some (p'', i) \<longrightarrow> vp_clock p \<noteq> NoClock \<longrightarrow>
         vp_next_stub_deadline_utc p \<noteq> 0 \<longrightarrow>
         vp_next_stub_deadline_utc p'' = vp_next_stub_deadline_utc p + vp_frame_interval_us p
         \<and> (\<exists>j < i. vp_next_stub_deadline_utc p \<le> li_clk inp j \<or> li_stop inp j))"
proof -
  have "\<forall>inp p'' i. stub_wait inp p = Some (p'', i) \<longrightarrow> vp_clock p \<noteq> NoClock \<longrightarrow>
         vp_next_stub_deadline_utc p \<noteq> 0 \<longrightarrow>
         vp_next_stub_deadline_utc p'' = vp_next_stub_deadline_utc p + vp_frame_interval_us p
         \<and> (\<exists>j < i. vp_next_stub_deadline_utc p \<le> li_clk inp j \<or> li_stop inp j)"
    using stub_wait_deadline(1) stub_wait_deadline(2) by simp
  with stub_run_frames [OF assms] show ?thesis by (simp add: min_def)
qed

definition quiet_loop :: loop_input where
  "quiet_loop = \<lparr>li_steady_now_ms = 0, li_read = ReadEOF, li_send_ok = True, li_receive = ReceiveFrame,
     li_decoded = small_decoded 10, li_clk = (\<lambda>_. 0), li_stop = (\<lambda>_. False)\<rparr>"

theorem stub_cadence_witness:
  "\<exists>p' q'. stub_run [quiet_loop, quiet_loop] small_producer (FrameRingBuffer 1) = Some (p', q')
     \<and> rb_frames q' = take 1 (stub_frames small_producer 2) \<and> vp_stub_pts_counter p' = 2"
proof -
  have nc: "vp_clock small_producer = NoClock" and sh: "\<not> vp_shadow_decode_mode small_producer"
    and c0: "vp_stub_pts_counter small_producer = 0"
    by (simp_all add: small_producer_def VideoFileProducer_def)
  have ret: "\<exists>p' q'. ProduceStubFrame inp p q = Some (p', q') \<and> vp_clock p' = NoClock"
    if "vp_clock p = NoClock" for inp p q
    using that by (simp add: ProduceStubFrame_def stub_wait_def push_backoff_def cache_shadow_frame_def
        Let_def split: prod.split)
  obtain p1 q1 where 1: "ProduceStubFrame quiet_loop small_producer (FrameRingBuffer 1) = Some (p1, q1)"
      "vp_clock p1 = NoClock" using ret [OF nc] by blast
  obtain p' q' where "ProduceStubFrame quiet_loop p1 q1 = Some (p', q')" using ret [OF 1(2)] by blast
  with 1 have run: "stub_run [quiet_loop, quiet_loop] small_producer (FrameRingBuffer 1) = Some (p', q')"
    by simp
  have wf: "rb_wf (FrameRingBuffer 1)" by (rule FrameRingBuffer_wf) simp
  have "rb_room (FrameRingBuffer 1) = 1" "rb_frames (FrameRingBuffer 1) = []"
    using FrameRingBuffer_wf [of 1] by simp_all
  with stub_cadence [OF run wf sh] c0 run show ?thesis by (simp add: numeral_2_eq_2)
qed

text \<open>
  Aligning a stub producer that has no offset yet puts its next frame exactly on the target,
  except after exactly one frame: that frame had time 0, which AlignPTS takes for no frame at all,
  and the next frame then comes one interval late. GetNextPTS names the next frame's time under the
  same exception, up to the first frame after the alignment; from then on it counts the offset twice.
\<close>

theorem align_hits_target:
  assumes "unaligned_stub p c"
  shows "md_pts (fr_metadata (next_stub (AlignPTS p target)))
      = target + (if c = 1 then vp_frame_interval_us p else 0)
    \<and> GetNextPTS p = md_pts (fr_metadata (next_stub p)) - (if c = 1 then vp_frame_interval_us p else 0)
    \<and> (1 < c \<longrightarrow> target \<noteq> 0 \<longrightarrow>
         (let p1 = AlignPTS p target; p2 = after_stub p1 deadline
          in GetNextPTS p1 = target
            \<and> md_pts (fr_metadata (next_stub p2)) = target + vp_frame_interval_us p
            \<and> GetNextPTS p2 = target + vp_frame_interval_us p + (target - int c * vp_frame_interval_us p)))"
proof -
  note a = assms [unfolded unaligned_stub_def]
  have "let p1 = AlignPTS p target; p2 = after_stub p1 deadline
          in GetNextPTS p1 = target
            \<and> md_pts (fr_metadata (next_stub p2)) = target + vp_frame_interval_us p
            \<and> GetNextPTS p2 = target + vp_frame_interval_us p + (target - int c * vp_frame_interval_us p)"
    if "1 < c" "target \<noteq> 0"
    using a that next_stub_aligned(4) [OF assms that(1)]
    by (simp add: AlignPTS_def GetNextPTS_def next_stub_def after_stub_def Let_def of_nat_diff algebra_simps)
  then show ?thesis using next_stub_aligned [OF assms] by simp
qed

theorem align_hits_target_witness:
  "md_pts (fr_metadata (next_stub (AlignPTS small_producer 5000000))) = 5000000"
proof -
  let ?p = small_producer
  have "llround (1000000 / 25) = llround (of_int 40000)" by simp
  then have i: "vp_frame_interval_us ?p = 40000"
    unfolding llround_of_int by (simp add: small_producer_def VideoFileProducer_def)
  have a: "unaligned_stub ?p 0"
    using i by (simp add: unaligned_stub_def) (simp add: small_producer_def VideoFileProducer_def)
  from align_hits_target [OF a, of 5000000] show ?thesis by simp
qed

text \<open>
  A pass of the producer loop always returns when the clock it polls eventually reaches any
  time or the stop flag is eventually raised; it leaves the producer's state, thread and alignment
  alone, decodes or makes at most one frame, and ends the loop only on a stop request, a drained or
  timed-out teardown or the end of the file.
\<close>

theorem producer_pass_returns:
  assumes "\<And>d i. \<exists>k \<ge> i. d \<le> li_clk inp k \<or> li_stop inp k"
  shows "\<exists>b p' q'. ProduceLoop_pass inp p q = Some (b, p', q')
    \<and> vp_state p' = vp_state p \<and> vp_thread p' = vp_thread p \<and> vp_pts_offset_us p' = vp_pts_offset_us p
    \<and> (q' = q \<or> (\<exists>f. Push q f = (True, q')))
    \<and> (\<not> b \<longrightarrow> vp_stop_requested p \<or> vp_teardown_requested p \<or> vp_eof_reached p')"
proof -
  obtain i pq bpq where w: "eof_wait inp p = Some i" "ProduceStubFrame inp p q = Some pq"
      "ProduceRealFrame inp p q = Some bpq"
    using pass_waits_return(3) [OF assms, of p] ProduceStubFrame_returns [OF assms, of p q]
      ProduceRealFrame_returns [OF assms, of p q] by blast
  have "ProduceLoop_pass inp p q \<noteq> None"
    unfolding ProduceLoop_pass_def w option.case split_beta by (intro if_not_None) simp_all
  then obtain b p' q' where r: "ProduceLoop_pass inp p q = Some (b, p', q')" by auto
  from ProduceLoop_pass_keeps [OF r] have k: "pass_keeps p p'" "pass_output p q p' q'" by simp_all
  have "\<not> b \<longrightarrow> vp_stop_requested p \<or> vp_teardown_requested p \<or> vp_eof_reached p'"
    using r by (cases rule: ProduceLoop_pass_cases) auto
  with k r show ?thesis by (auto simp: pass_keeps_def pass_output_def split: if_splits)
qed

theorem producer_pass_returns_witness:
  "\<exists>b p' q'. ProduceLoop_pass \<lparr>li_steady_now_ms = 0, li_read = ReadEOF, li_send_ok = True,
      li_receive = ReceiveFrame, li_decoded = small_decoded 10, li_clk = int, li_stop = \<lambda>_. False\<rparr>
      small_producer (FrameRingBuffer 1) = Some (b, p', q')"
proof -
  let ?inp = "\<lparr>li_steady_now_ms = 0, li_read = ReadEOF, li_send_ok = True,
      li_receive = ReceiveFrame, li_decoded = small_decoded 10, li_clk = int, li_stop = \<lambda>_. False\<rparr>"
  have "\<exists>k \<ge> i. d \<le> li_clk ?inp k \<or> li_stop ?inp k" for d i
    by (rule exI [of _ "max i (nat d)"]) auto
  from producer_pass_returns [of ?inp, OF this] show ?thesis by blast
qed

end
