(* ===== verification/ControlStateMachine.thy ===== *)
theory ControlStateMachine
  imports Percentile
begin

text \<open>
  The session control state machine (\<open>PlayoutControlStateMachine\<close> in
  \<open>include/retrovue/runtime/PlayoutControlStateMachine.h\<close> and \<open>src/runtime/\<close>): the commands,
  the events that drive it and its metrics. Every public operation holds the object's mutex from
  start to end, so it is one function on the state. The preview and live slots are in
  \<open>ProducerSlots\<close>. The time arguments that the code ignores are kept.
\<close>

section \<open>Data\<close>

datatype control_state = kIdle | kBuffering | kReady | kPlaying | kPaused | kStopping | kError

datatype back_pressure_event = kUnderrun | kOverrun | kStall

record control =
  cs_state :: control_state
  cs_processed_commands :: "string \<rightharpoonup> int"
  cs_current_pts_us :: int
  cs_transitions :: "control_state \<times> control_state \<rightharpoonup> nat"
  cs_illegal_transition_total :: nat
  cs_latency_violation_total :: nat
  cs_timeout_total :: nat
  cs_queue_overflow_total :: nat
  cs_recover_total :: nat
  cs_consistency_failure_total :: nat
  cs_late_seek_total :: nat
  cs_pause_latencies_ms :: "real list"
  cs_resume_latencies_ms :: "real list"
  cs_seek_latencies_ms :: "real list"
  cs_stop_latencies_ms :: "real list"
  cs_pause_deviation_ms :: "real list"

definition PlayoutControlStateMachine :: control where
  "PlayoutControlStateMachine =
     \<lparr>cs_state = kIdle, cs_processed_commands = Map.empty, cs_current_pts_us = 0,
      cs_transitions = Map.empty, cs_illegal_transition_total = 0, cs_latency_violation_total = 0,
      cs_timeout_total = 0, cs_queue_overflow_total = 0, cs_recover_total = 0,
      cs_consistency_failure_total = 0, cs_late_seek_total = 0, cs_pause_latencies_ms = [],
      cs_resume_latencies_ms = [], cs_seek_latencies_ms = [], cs_stop_latencies_ms = [],
      cs_pause_deviation_ms = []\<rparr>"

definition kPauseLatencyThresholdMs :: real where "kPauseLatencyThresholdMs = 33"
definition kResumeLatencyThresholdMs :: real where "kResumeLatencyThresholdMs = 50"
definition kSeekLatencyThresholdMs :: real where "kSeekLatencyThresholdMs = 250"
definition kStopLatencyThresholdMs :: real where "kStopLatencyThresholdMs = 500"
definition kReadinessThresholdFrames :: nat where "kReadinessThresholdFrames = 3"

definition MicrosecondsToMilliseconds :: "int \<Rightarrow> real" where
  "MicrosecondsToMilliseconds delta_us = real_of_int delta_us / 1000"

section \<open>Internal operations\<close>

text \<open>\<open>transitions_[{from, to}]++\<close>: a missing entry counts from zero.\<close>

definition increment_entry :: "('edge \<rightharpoonup> nat) \<Rightarrow> 'edge \<Rightarrow> 'edge \<Rightarrow> nat option" where
  "increment_entry table edge = table(edge := Some (if edge \<in> dom table then Suc (the (table edge)) else 1))"

definition RecordTransitionLocked :: "control_state \<Rightarrow> control_state \<Rightarrow> control \<Rightarrow> control" where
  "RecordTransitionLocked from to c = c\<lparr>cs_transitions := increment_entry (cs_transitions c) (from, to)\<rparr>"

definition TransitionLocked :: "control_state \<Rightarrow> int \<Rightarrow> control \<Rightarrow> control" where
  "TransitionLocked to event_utc_us c =
     (if cs_state c = to then c
      else (RecordTransitionLocked (cs_state c) to c)\<lparr>cs_state := to\<rparr>)"

definition RecordIllegalTransitionLocked :: "control_state \<Rightarrow> control_state \<Rightarrow> control \<Rightarrow> control" where
  "RecordIllegalTransitionLocked from attempted_to c =
     c\<lparr>cs_illegal_transition_total := cs_illegal_transition_total c + 1,
       cs_transitions := increment_entry (cs_transitions c) (from, attempted_to)\<rparr>"

definition RegisterCommandLocked :: "string \<Rightarrow> control \<Rightarrow> bool \<times> control" where
  "RegisterCommandLocked command_id c =
     (if command_id = [] then (True, c)
      else case cs_processed_commands c command_id of
        Some _ \<Rightarrow> (False, c)
      | None \<Rightarrow> (True, c\<lparr>cs_processed_commands := (cs_processed_commands c)(command_id \<mapsto> 1)\<rparr>))"

definition count_violation :: "bool \<Rightarrow> control \<Rightarrow> control" where
  "count_violation late c =
     (if late then c\<lparr>cs_latency_violation_total := cs_latency_violation_total c + 1\<rparr> else c)"

section \<open>Commands\<close>

definition BeginSession :: "string \<Rightarrow> int \<Rightarrow> control \<Rightarrow> bool \<times> control" where
  "BeginSession command_id request_utc_us c =
     (let (fresh, c) = RegisterCommandLocked command_id c
      in if \<not> fresh then (True, c)
      else if cs_state c \<noteq> kIdle then (False, RecordIllegalTransitionLocked (cs_state c) kBuffering c)
      else (True, TransitionLocked kBuffering request_utc_us c))"

definition Pause :: "string \<Rightarrow> int \<Rightarrow> int \<Rightarrow> real \<Rightarrow> control \<Rightarrow> bool \<times> control" where
  "Pause command_id request_utc_us effective_utc_us boundary_deviation_ms c =
     (let (fresh, c) = RegisterCommandLocked command_id c
      in if \<not> fresh then (True, c)
      else if cs_state c \<noteq> kPlaying then (False, RecordIllegalTransitionLocked (cs_state c) kPaused c)
      else let latency_ms = MicrosecondsToMilliseconds (effective_utc_us - request_utc_us);
               c = c\<lparr>cs_pause_latencies_ms := cs_pause_latencies_ms c @ [latency_ms]\<rparr>;
               c = c\<lparr>cs_pause_deviation_ms := cs_pause_deviation_ms c @ [boundary_deviation_ms]\<rparr>;
               c = count_violation (kPauseLatencyThresholdMs < latency_ms) c
           in (True, TransitionLocked kPaused effective_utc_us c))"

definition Resume :: "string \<Rightarrow> int \<Rightarrow> int \<Rightarrow> control \<Rightarrow> bool \<times> control" where
  "Resume command_id request_utc_us effective_utc_us c =
     (let (fresh, c) = RegisterCommandLocked command_id c
      in if \<not> fresh then (True, c)
      else if cs_state c \<noteq> kPaused then (False, RecordIllegalTransitionLocked (cs_state c) kPlaying c)
      else let latency_ms = MicrosecondsToMilliseconds (effective_utc_us - request_utc_us);
               c = c\<lparr>cs_resume_latencies_ms := cs_resume_latencies_ms c @ [latency_ms]\<rparr>;
               c = count_violation (kResumeLatencyThresholdMs < latency_ms) c
           in (True, TransitionLocked kPlaying effective_utc_us c))"

definition Seek :: "string \<Rightarrow> int \<Rightarrow> int \<Rightarrow> int \<Rightarrow> control \<Rightarrow> bool \<times> control" where
  "Seek command_id request_utc_us target_pts_us effective_utc_us c =
     (let (fresh, c) = RegisterCommandLocked command_id c
      in if \<not> fresh then (True, c)
      else if target_pts_us < cs_current_pts_us c
        then (False, c\<lparr>cs_late_seek_total := cs_late_seek_total c + 1\<rparr>)
      else if cs_state c \<noteq> kPlaying \<and> cs_state c \<noteq> kPaused
        then (False, RecordIllegalTransitionLocked (cs_state c) kBuffering c)
      else let latency_ms = MicrosecondsToMilliseconds (effective_utc_us - request_utc_us);
               c = c\<lparr>cs_seek_latencies_ms := cs_seek_latencies_ms c @ [latency_ms]\<rparr>;
               c = count_violation (kSeekLatencyThresholdMs < latency_ms) c;
               c = TransitionLocked kBuffering request_utc_us c;
               c = TransitionLocked kReady effective_utc_us c;
               c = TransitionLocked kPlaying effective_utc_us c
           in (True, c\<lparr>cs_current_pts_us := target_pts_us\<rparr>))"

definition Stop :: "string \<Rightarrow> int \<Rightarrow> int \<Rightarrow> control \<Rightarrow> bool \<times> control" where
  "Stop command_id request_utc_us effective_utc_us c =
     (let (fresh, c) = RegisterCommandLocked command_id c
      in if \<not> fresh then (True, c)
      else if cs_state c = kIdle then (False, RecordIllegalTransitionLocked (cs_state c) kStopping c)
      else let latency_ms = MicrosecondsToMilliseconds (effective_utc_us - request_utc_us);
               c = c\<lparr>cs_stop_latencies_ms := cs_stop_latencies_ms c @ [latency_ms]\<rparr>;
               c = count_violation (kStopLatencyThresholdMs < latency_ms) c;
               c = TransitionLocked kStopping request_utc_us c
           in (True, TransitionLocked kIdle effective_utc_us c))"

definition Recover :: "string \<Rightarrow> int \<Rightarrow> control \<Rightarrow> bool \<times> control" where
  "Recover command_id request_utc_us c =
     (let (fresh, c) = RegisterCommandLocked command_id c
      in if \<not> fresh then (True, c)
      else if cs_state c \<noteq> kError then (False, RecordIllegalTransitionLocked (cs_state c) kBuffering c)
      else let c = TransitionLocked kBuffering request_utc_us c
           in (True, c\<lparr>cs_recover_total := cs_recover_total c + 1\<rparr>))"

section \<open>Events\<close>

definition OnBufferDepth :: "nat \<Rightarrow> nat \<Rightarrow> int \<Rightarrow> control \<Rightarrow> control" where
  "OnBufferDepth depth capacity event_utc_us c =
     (if capacity = 0 then c
      else if cs_state c = kBuffering \<and> kReadinessThresholdFrames \<le> depth
        then TransitionLocked kPlaying event_utc_us (TransitionLocked kReady event_utc_us c)
      else if cs_state c = kPlaying \<and> depth = 0 then TransitionLocked kBuffering event_utc_us c
      else c)"

definition OnBackPressureEvent :: "back_pressure_event \<Rightarrow> int \<Rightarrow> control \<Rightarrow> control" where
  "OnBackPressureEvent event event_utc_us c =
     (case event of
        kUnderrun \<Rightarrow> if cs_state c = kPlaying then TransitionLocked kBuffering event_utc_us c else c
      | kOverrun \<Rightarrow> c\<lparr>cs_queue_overflow_total := cs_queue_overflow_total c + 1\<rparr>
      | kStall \<Rightarrow> c)"

definition OnBackPressureCleared :: "int \<Rightarrow> control \<Rightarrow> control" where
  "OnBackPressureCleared event_utc_us c =
     (if cs_state c = kBuffering
      then TransitionLocked kPlaying event_utc_us (TransitionLocked kReady event_utc_us c) else c)"

definition OnExternalTimeout :: "int \<Rightarrow> control \<Rightarrow> control" where
  "OnExternalTimeout event_utc_us c =
     TransitionLocked kError event_utc_us (c\<lparr>cs_timeout_total := cs_timeout_total c + 1\<rparr>)"

definition OnQueueOverflow :: "control \<Rightarrow> control" where
  "OnQueueOverflow c = c\<lparr>cs_queue_overflow_total := cs_queue_overflow_total c + 1\<rparr>"

section \<open>The metrics snapshot\<close>

record metrics_snapshot =
  ms_transitions :: "control_state \<times> control_state \<rightharpoonup> nat"
  ms_illegal_transition_total :: nat
  ms_latency_violation_total :: nat
  ms_timeout_total :: nat
  ms_queue_overflow_total :: nat
  ms_recover_total :: nat
  ms_consistency_failure_total :: nat
  ms_late_seek_total :: nat
  ms_pause_latency_p95_ms :: real
  ms_resume_latency_p95_ms :: real
  ms_seek_latency_p95_ms :: real
  ms_stop_latency_p95_ms :: real
  ms_pause_deviation_p95_ms :: real
  ms_last_pause_latency_ms :: real
  ms_last_resume_latency_ms :: real
  ms_last_seek_latency_ms :: real
  ms_last_stop_latency_ms :: real
  ms_last_pause_deviation_ms :: real
  ms_state :: control_state

definition last_or_zero :: "real list \<Rightarrow> real" where
  "last_or_zero xs = (if xs = [] then 0 else last xs)"

definition Snapshot :: "control \<Rightarrow> metrics_snapshot" where
  "Snapshot c =
     \<lparr>ms_transitions = cs_transitions c,
      ms_illegal_transition_total = cs_illegal_transition_total c,
      ms_latency_violation_total = cs_latency_violation_total c,
      ms_timeout_total = cs_timeout_total c, ms_queue_overflow_total = cs_queue_overflow_total c,
      ms_recover_total = cs_recover_total c,
      ms_consistency_failure_total = cs_consistency_failure_total c,
      ms_late_seek_total = cs_late_seek_total c,
      ms_pause_latency_p95_ms = PercentileLocked (cs_pause_latencies_ms c) (95 / 100),
      ms_resume_latency_p95_ms = PercentileLocked (cs_resume_latencies_ms c) (95 / 100),
      ms_seek_latency_p95_ms = PercentileLocked (cs_seek_latencies_ms c) (95 / 100),
      ms_stop_latency_p95_ms = PercentileLocked (cs_stop_latencies_ms c) (95 / 100),
      ms_pause_deviation_p95_ms = PercentileLocked (cs_pause_deviation_ms c) (95 / 100),
      ms_last_pause_latency_ms = last_or_zero (cs_pause_latencies_ms c),
      ms_last_resume_latency_ms = last_or_zero (cs_resume_latencies_ms c),
      ms_last_seek_latency_ms = last_or_zero (cs_seek_latencies_ms c),
      ms_last_stop_latency_ms = last_or_zero (cs_stop_latencies_ms c),
      ms_last_pause_deviation_ms = last_or_zero (cs_pause_deviation_ms c),
      ms_state = cs_state c\<rparr>"

section \<open>Operations as data\<close>

datatype control_op =
    OpBegin string int
  | OpPause string int int real
  | OpResume string int int
  | OpSeek string int int int
  | OpStop string int int
  | OpRecover string int
  | OpDepth nat nat int
  | OpBackPressure back_pressure_event int
  | OpCleared int
  | OpTimeout int
  | OpOverflow

text \<open>The result of an operation; the events return nothing.\<close>

fun control_apply :: "control_op \<Rightarrow> control \<Rightarrow> bool option \<times> control" where
  "control_apply (OpBegin k t) c = map_prod Some id (BeginSession k t c)"
| "control_apply (OpPause k t u d) c = map_prod Some id (Pause k t u d c)"
| "control_apply (OpResume k t u) c = map_prod Some id (Resume k t u c)"
| "control_apply (OpSeek k t p u) c = map_prod Some id (Seek k t p u c)"
| "control_apply (OpStop k t u) c = map_prod Some id (Stop k t u c)"
| "control_apply (OpRecover k t) c = map_prod Some id (Recover k t c)"
| "control_apply (OpDepth d cap t) c = (None, OnBufferDepth d cap t c)"
| "control_apply (OpBackPressure e t) c = (None, OnBackPressureEvent e t c)"
| "control_apply (OpCleared t) c = (None, OnBackPressureCleared t c)"
| "control_apply (OpTimeout t) c = (None, OnExternalTimeout t c)"
| "control_apply OpOverflow c = (None, OnQueueOverflow c)"

fun command_id :: "control_op \<Rightarrow> string" where
  "command_id (OpBegin k _) = k"
| "command_id (OpPause k _ _ _) = k"
| "command_id (OpResume k _ _) = k"
| "command_id (OpSeek k _ _ _) = k"
| "command_id (OpStop k _ _) = k"
| "command_id (OpRecover k _) = k"
| "command_id _ = ''''"

definition control_run :: "control_op list \<Rightarrow> control \<Rightarrow> control" where
  "control_run ops c = foldl (\<lambda>c op. snd (control_apply op c)) c ops"

section \<open>Transitions\<close>

text \<open>The transition matrix of \<open>docs/domain/PlayoutControlDomain.md\<close>, and the edges the code takes
  beside it.\<close>

definition matrix_edge :: "control_state \<times> control_state \<Rightarrow> bool" where
  "matrix_edge e \<longleftrightarrow>
     e \<in> {(kIdle, kBuffering), (kBuffering, kReady), (kReady, kPlaying), (kPlaying, kPaused),
          (kPaused, kPlaying), (kPlaying, kBuffering), (kBuffering, kPlaying), (kPlaying, kStopping),
          (kStopping, kIdle), (kError, kBuffering)} \<or> snd e = kError"

definition extra_edge :: "control_state \<times> control_state \<Rightarrow> bool" where
  "extra_edge e \<longleftrightarrow> e \<in> {(kPaused, kBuffering), (kBuffering, kStopping), (kPaused, kStopping), (kError, kStopping)}"

text \<open>Ready and Stopping are only passed through inside one operation.\<close>

definition resting :: "control_state \<Rightarrow> bool" where
  "resting s \<longleftrightarrow> s \<in> {kIdle, kBuffering, kPlaying, kPaused, kError}"

fun path_edges :: "control_state \<Rightarrow> control_state list \<Rightarrow> (control_state \<times> control_state) list" where
  "path_edges s [] = []"
| "path_edges s (t # ts) = (s, t) # path_edges t ts"

definition increment_entries :: "('edge \<rightharpoonup> nat) \<Rightarrow> 'edge list \<Rightarrow> 'edge \<Rightarrow> nat option" where
  "increment_entries = foldl increment_entry"

definition legal_path :: "control_state \<Rightarrow> control_state list \<Rightarrow> bool" where
  "legal_path s path \<longleftrightarrow> (\<forall>e \<in> set (path_edges s path). matrix_edge e \<or> extra_edge e)
     \<and> resting (last (s # path))"

text \<open>What a step that follows a path of the state machine does.\<close>

definition follows :: "control \<Rightarrow> control_state list \<Rightarrow> control \<Rightarrow> bool" where
  "follows c path c' \<longleftrightarrow> legal_path (cs_state c) path \<and> cs_state c' = last (cs_state c # path)
     \<and> cs_transitions c' = increment_entries (cs_transitions c) (path_edges (cs_state c) path)
     \<and> cs_illegal_transition_total c' = cs_illegal_transition_total c"

text \<open>What a rejected command does: count the attempt and nothing else.\<close>

definition rejects :: "control \<Rightarrow> control \<Rightarrow> bool" where
  "rejects c c' \<longleftrightarrow>
     (\<exists>m to. c' = c\<lparr>cs_processed_commands := m, cs_illegal_transition_total := cs_illegal_transition_total c + 1,
        cs_transitions := increment_entry (cs_transitions c) (cs_state c, to)\<rparr>)
     \<or> (\<exists>m. c' = c\<lparr>cs_processed_commands := m, cs_late_seek_total := cs_late_seek_total c + 1\<rparr>)"

lemma RegisterCommandLocked_cases:
  obtains (duplicate) n where "RegisterCommandLocked k c = (False, c)" "k \<noteq> []" "cs_processed_commands c k = Some n"
  | (fresh) m where "RegisterCommandLocked k c = (True, c\<lparr>cs_processed_commands := m\<rparr>)"
      "k = [] \<or> cs_processed_commands c k = None" "m = (if k = [] then cs_processed_commands c else (cs_processed_commands c)(k \<mapsto> 1))"
proof (cases "k = []")
  case True
  then show thesis using fresh [of "cs_processed_commands c"] by (simp add: RegisterCommandLocked_def)
next
  case False
  show thesis
  proof (cases "cs_processed_commands c k")
    case None
    with False show thesis
      using fresh [of "(cs_processed_commands c)(k \<mapsto> 1)"] by (simp add: RegisterCommandLocked_def)
  next
    case (Some n)
    with False show thesis using duplicate [of n] by (simp add: RegisterCommandLocked_def)
  qed
qed

lemmas command_defs = BeginSession_def Pause_def Resume_def Seek_def Stop_def Recover_def Let_def

lemmas event_defs = OnBufferDepth_def OnBackPressureEvent_def OnBackPressureCleared_def
  OnExternalTimeout_def OnQueueOverflow_def

lemmas transition_defs = TransitionLocked_def RecordTransitionLocked_def RecordIllegalTransitionLocked_def
  count_violation_def

lemmas edge_defs = matrix_edge_def extra_edge_def resting_def legal_path_def follows_def increment_entries_def

lemma rejectsI:
  "c' = c\<lparr>cs_processed_commands := m, cs_illegal_transition_total := cs_illegal_transition_total c + 1,
     cs_transitions := increment_entry (cs_transitions c) (cs_state c, to)\<rparr> \<Longrightarrow> rejects c c'"
  "c' = c\<lparr>cs_processed_commands := m, cs_late_seek_total := cs_late_seek_total c + 1\<rparr> \<Longrightarrow> rejects c c'"
  unfolding rejects_def by blast+

text \<open>Each command, fresh and in each state.\<close>

lemma BeginSession_step:
  assumes "RegisterCommandLocked k c = (True, c\<lparr>cs_processed_commands := m\<rparr>)" "resting (cs_state c)"
  shows "fst (BeginSession k t c) \<longleftrightarrow> cs_state c = kIdle"
    "cs_state c = kIdle \<Longrightarrow> follows c [kBuffering] (snd (BeginSession k t c))"
    "cs_state c \<noteq> kIdle \<Longrightarrow> rejects c (snd (BeginSession k t c))"
  using assms
  by (auto simp: command_defs transition_defs edge_defs intro!: rejectsI(1) [where m = m and to = kBuffering])

lemma Pause_step:
  assumes "RegisterCommandLocked k c = (True, c\<lparr>cs_processed_commands := m\<rparr>)" "resting (cs_state c)"
  shows "fst (Pause k t u d c) \<longleftrightarrow> cs_state c = kPlaying"
    "cs_state c = kPlaying \<Longrightarrow> follows c [kPaused] (snd (Pause k t u d c))"
    "cs_state c \<noteq> kPlaying \<Longrightarrow> rejects c (snd (Pause k t u d c))"
  using assms
  by (auto simp: command_defs transition_defs edge_defs intro!: rejectsI(1) [where m = m and to = kPaused])

lemma Resume_step:
  assumes "RegisterCommandLocked k c = (True, c\<lparr>cs_processed_commands := m\<rparr>)" "resting (cs_state c)"
  shows "fst (Resume k t u c) \<longleftrightarrow> cs_state c = kPaused"
    "cs_state c = kPaused \<Longrightarrow> follows c [kPlaying] (snd (Resume k t u c))"
    "cs_state c \<noteq> kPaused \<Longrightarrow> rejects c (snd (Resume k t u c))"
  using assms
  by (auto simp: command_defs transition_defs edge_defs intro!: rejectsI(1) [where m = m and to = kPlaying])

lemma Seek_step:
  assumes "RegisterCommandLocked k c = (True, c\<lparr>cs_processed_commands := m\<rparr>)" "resting (cs_state c)"
  shows "fst (Seek k t p u c) \<longleftrightarrow> cs_current_pts_us c \<le> p \<and> cs_state c \<in> {kPlaying, kPaused}"
    "fst (Seek k t p u c) \<Longrightarrow> follows c [kBuffering, kReady, kPlaying] (snd (Seek k t p u c))
      \<and> cs_current_pts_us (snd (Seek k t p u c)) = p"
    "\<not> fst (Seek k t p u c) \<Longrightarrow> rejects c (snd (Seek k t p u c))"
proof -
  show "fst (Seek k t p u c) \<longleftrightarrow> cs_current_pts_us c \<le> p \<and> cs_state c \<in> {kPlaying, kPaused}"
    using assms by (auto simp: command_defs)
  show "fst (Seek k t p u c) \<Longrightarrow> follows c [kBuffering, kReady, kPlaying] (snd (Seek k t p u c))
      \<and> cs_current_pts_us (snd (Seek k t p u c)) = p"
    using assms by (auto simp: command_defs transition_defs edge_defs split: if_splits)
  assume no: "\<not> fst (Seek k t p u c)"
  show "rejects c (snd (Seek k t p u c))"
  proof (cases "p < cs_current_pts_us c")
    case True
    with assms show ?thesis by (intro rejectsI(2) [where m = m]) (simp add: command_defs)
  next
    case False
    with assms no have "cs_state c \<noteq> kPlaying" "cs_state c \<noteq> kPaused" by (auto simp: command_defs)
    with assms False show ?thesis
      by (intro rejectsI(1) [where m = m and to = kBuffering]) (simp add: command_defs transition_defs)
  qed
qed

lemma Stop_step:
  assumes "RegisterCommandLocked k c = (True, c\<lparr>cs_processed_commands := m\<rparr>)" "resting (cs_state c)"
  shows "fst (Stop k t u c) \<longleftrightarrow> cs_state c \<noteq> kIdle"
    "cs_state c \<noteq> kIdle \<Longrightarrow> follows c [kStopping, kIdle] (snd (Stop k t u c))"
    "cs_state c = kIdle \<Longrightarrow> rejects c (snd (Stop k t u c))"
  using assms
  by (auto simp: command_defs transition_defs edge_defs intro!: rejectsI(1) [where m = m and to = kStopping])

lemma Recover_step:
  assumes "RegisterCommandLocked k c = (True, c\<lparr>cs_processed_commands := m\<rparr>)" "resting (cs_state c)"
  shows "fst (Recover k t c) \<longleftrightarrow> cs_state c = kError"
    "cs_state c = kError \<Longrightarrow> follows c [kBuffering] (snd (Recover k t c))"
    "cs_state c \<noteq> kError \<Longrightarrow> rejects c (snd (Recover k t c))"
  using assms
  by (auto simp: command_defs transition_defs edge_defs intro!: rejectsI(1) [where m = m and to = kBuffering])

text \<open>A command whose identifier has been seen is acknowledged and does nothing.\<close>

lemma duplicate_command:
  assumes "command_id op \<noteq> []" "cs_processed_commands c (command_id op) = Some n"
  shows "control_apply op c = (Some True, c)"
  using assms by (cases op) (simp_all add: command_defs RegisterCommandLocked_def)

lemma event_follows:
  assumes "resting (cs_state c)"
  shows "\<exists>path. follows c path (OnBufferDepth d cap t c)" "\<exists>path. follows c path (OnBackPressureEvent e t c)"
    "\<exists>path. follows c path (OnBackPressureCleared t c)" "\<exists>path. follows c path (OnExternalTimeout t c)"
    "\<exists>path. follows c path (OnQueueOverflow c)"
proof -
  note defs = event_defs transition_defs edge_defs
  have stay: "follows c [] c" using assms by (simp add: edge_defs)
  have up: "follows c [kReady, kPlaying] (TransitionLocked kPlaying t (TransitionLocked kReady t c))"
    if "cs_state c = kBuffering" using that by (simp add: transition_defs edge_defs)
  have down: "follows c [kBuffering] (TransitionLocked kBuffering t c)" if "cs_state c = kPlaying"
    using that by (simp add: transition_defs edge_defs)
  show "\<exists>path. follows c path (OnBufferDepth d cap t c)"
    using stay up down by (auto simp: OnBufferDepth_def)
  show "\<exists>path. follows c path (OnBackPressureCleared t c)"
    using stay up by (auto simp: OnBackPressureCleared_def)
  have count: "follows c [] (c\<lparr>cs_queue_overflow_total := n\<rparr>)" for n using assms by (simp add: edge_defs)
  show "\<exists>path. follows c path (OnBackPressureEvent e t c)" "\<exists>path. follows c path (OnQueueOverflow c)"
    using stay down count by (auto simp: OnBackPressureEvent_def OnQueueOverflow_def split: back_pressure_event.split)
  have "follows c (if cs_state c = kError then [] else [kError]) (OnExternalTimeout t c)"
    using assms by (auto simp: OnExternalTimeout_def transition_defs edge_defs)
  then show "\<exists>path. follows c path (OnExternalTimeout t c)" by blast
qed

lemma control_apply_step:
  assumes "resting (cs_state c)" "control_apply op c = (r, c')"
  shows "(r = Some True \<and> c' = c \<and> command_id op \<noteq> [] \<and> cs_processed_commands c (command_id op) \<noteq> None)
    \<or> (r \<noteq> Some False \<and> (\<exists>path. follows c path c'))
    \<or> (r = Some False \<and> rejects c c')"
proof (cases "command_id op \<noteq> [] \<and> cs_processed_commands c (command_id op) \<noteq> None")
  case True
  then obtain n where "cs_processed_commands c (command_id op) = Some n" by blast
  with True duplicate_command [of op c n] assms(2) show ?thesis by auto
next
  case False
  define m where "m = (if command_id op = [] then cs_processed_commands c
      else (cs_processed_commands c)(command_id op \<mapsto> 1))"
  have reg: "RegisterCommandLocked (command_id op) c = (True, c\<lparr>cs_processed_commands := m\<rparr>)"
    using False by (auto simp: RegisterCommandLocked_def m_def)
  show ?thesis
  proof (cases op)
    case (OpBegin k t)
    with BeginSession_step [of k c m t] reg assms show ?thesis
      by (cases "cs_state c = kIdle"; cases "BeginSession k t c") auto
  next
    case (OpPause k t u d)
    with Pause_step [of k c m t u d] reg assms show ?thesis
      by (cases "cs_state c = kPlaying"; cases "Pause k t u d c") auto
  next
    case (OpResume k t u)
    with Resume_step [of k c m t u] reg assms show ?thesis
      by (cases "cs_state c = kPaused"; cases "Resume k t u c") auto
  next
    case (OpSeek k t p u)
    with Seek_step [of k c m t p u] reg assms show ?thesis by (cases "Seek k t p u c") auto
  next
    case (OpStop k t u)
    with Stop_step [of k c m t u] reg assms show ?thesis
      by (cases "cs_state c = kIdle"; cases "Stop k t u c") auto
  next
    case (OpRecover k t)
    with Recover_step [of k c m t] reg assms show ?thesis
      by (cases "cs_state c = kError"; cases "Recover k t c") auto
  qed (use assms event_follows [OF assms(1)] in auto)
qed

lemma follows_resting: "follows c path c' \<Longrightarrow> resting (cs_state c')"
  by (simp add: follows_def legal_path_def)

lemma rejects_state: "rejects c c' \<Longrightarrow> cs_state c' = cs_state c"
  by (auto simp: rejects_def)

lemma control_apply_resting:
  "resting (cs_state c) \<Longrightarrow> resting (cs_state (snd (control_apply op c)))"
  using control_apply_step [of c op] follows_resting rejects_state by (metis prod.collapse)

lemma control_run_Nil [simp]: "control_run [] c = c"
  by (simp add: control_run_def)

lemma control_run_Cons [simp]: "control_run (op # ops) c = control_run ops (snd (control_apply op c))"
  by (simp add: control_run_def)

lemma control_run_append: "control_run (ops @ ops') c = control_run ops' (control_run ops c)"
  by (simp add: control_run_def)

lemma control_run_resting: "resting (cs_state c) \<Longrightarrow> resting (cs_state (control_run ops c))"
  by (induction ops arbitrary: c) (simp_all add: control_apply_resting)

lemma initial_resting [simp]: "resting (cs_state PlayoutControlStateMachine)"
  by (simp add: PlayoutControlStateMachine_def resting_def)

section \<open>Identifiers stay processed\<close>




section \<open>Counters\<close>

definition above :: "real \<Rightarrow> real list \<Rightarrow> nat" where
  "above limit xs = length (filter (\<lambda>x. limit < x) xs)"

text \<open>The latency counter is the number of recorded samples above their thresholds, and every pause
  records its deviation.\<close>

definition counters_ok :: "control \<Rightarrow> bool" where
  "counters_ok c \<longleftrightarrow>
     cs_latency_violation_total c =
       above kPauseLatencyThresholdMs (cs_pause_latencies_ms c)
       + above kResumeLatencyThresholdMs (cs_resume_latencies_ms c)
       + above kSeekLatencyThresholdMs (cs_seek_latencies_ms c)
       + above kStopLatencyThresholdMs (cs_stop_latencies_ms c)
     \<and> length (cs_pause_deviation_ms c) = length (cs_pause_latencies_ms c)
     \<and> cs_consistency_failure_total c = 0"

lemma counters_update [simp]:
  "counters_ok (TransitionLocked s t c) = counters_ok c"
  "counters_ok (RecordIllegalTransitionLocked s s' c) = counters_ok c"
  "counters_ok (snd (RegisterCommandLocked k c)) = counters_ok c"
  "counters_ok (c\<lparr>cs_late_seek_total := n\<rparr>) = counters_ok c"
  "counters_ok (c\<lparr>cs_recover_total := n\<rparr>) = counters_ok c"
  "counters_ok (c\<lparr>cs_timeout_total := n\<rparr>) = counters_ok c"
  "counters_ok (c\<lparr>cs_queue_overflow_total := n\<rparr>) = counters_ok c"
  "counters_ok (c\<lparr>cs_current_pts_us := p\<rparr>) = counters_ok c"
  "counters_ok (c\<lparr>cs_processed_commands := m\<rparr>) = counters_ok c"
  by (simp_all add: counters_ok_def transition_defs RegisterCommandLocked_def split: option.split)

lemma counters_sample:
  assumes "counters_ok c"
  shows "counters_ok (count_violation (kPauseLatencyThresholdMs < x)
      (c\<lparr>cs_pause_latencies_ms := cs_pause_latencies_ms c @ [x],
         cs_pause_deviation_ms := cs_pause_deviation_ms c @ [d]\<rparr>))"
    "counters_ok (count_violation (kResumeLatencyThresholdMs < x)
      (c\<lparr>cs_resume_latencies_ms := cs_resume_latencies_ms c @ [x]\<rparr>))"
    "counters_ok (count_violation (kSeekLatencyThresholdMs < x)
      (c\<lparr>cs_seek_latencies_ms := cs_seek_latencies_ms c @ [x]\<rparr>))"
    "counters_ok (count_violation (kStopLatencyThresholdMs < x)
      (c\<lparr>cs_stop_latencies_ms := cs_stop_latencies_ms c @ [x]\<rparr>))"
  using assms by (simp_all add: counters_ok_def count_violation_def above_def)

lemma counters_kept:
  assumes "counters_ok c"
  shows "counters_ok (snd (control_apply op c))"
proof (cases "RegisterCommandLocked (command_id op) c" rule: prod.exhaust)
  case (Pair fresh c1)
  then have "counters_ok c1" using counters_update(3) [of "command_id op" c] assms by simp
  then show ?thesis
    using Pair assms
    by (cases op) (simp_all add: command_defs event_defs counters_sample split: back_pressure_event.split)
qed

lemma counters_run: "counters_ok c \<Longrightarrow> counters_ok (control_run ops c)"
  by (induction ops arbitrary: c) (simp_all add: counters_kept)

lemma counters_initial: "counters_ok PlayoutControlStateMachine"
  by (simp add: counters_ok_def PlayoutControlStateMachine_def above_def)

lemma percentile_between:
  assumes "xs \<noteq> []"
  shows "Min (set xs) \<le> PercentileLocked xs (95 / 100)" "PercentileLocked xs (95 / 100) \<le> Max (set xs)"
proof -
  let ?r = "95 / 100 * real (length xs - 1)"
  have p: "(0 :: real) \<le> 95 / 100" "(95 / 100 :: real) \<le> 1" by simp_all
  note i = percentile_index [OF p assms] and eq = PercentileLocked_interpolate [OF assms p]
  have r: "0 \<le> ?r" by simp
  have s: "nat \<lceil>?r\<rceil> < length (sort xs)" using i(2) by (simp only: length_sort)
  have "Min (set xs) \<le> sort xs ! nat \<lfloor>?r\<rfloor>" using i(1,2) by (intro sort_nth_between) linarith
  then show "Min (set xs) \<le> PercentileLocked xs (95 / 100)"
    unfolding eq using interpolate_between(1) [OF sorted_sort r s] by linarith
  have "sort xs ! nat \<lceil>?r\<rceil> \<le> Max (set xs)" using i(2) by (rule sort_nth_between)
  then show "PercentileLocked xs (95 / 100) \<le> Max (set xs)"
    unfolding eq using interpolate_between(2) [OF sorted_sort r s] by linarith
qed

section \<open>Position and readiness\<close>

lemma pts_update [simp]:
  "cs_current_pts_us (TransitionLocked s t c) = cs_current_pts_us c"
  "cs_current_pts_us (RecordIllegalTransitionLocked s s' c) = cs_current_pts_us c"
  "cs_current_pts_us (snd (RegisterCommandLocked k c)) = cs_current_pts_us c"
  "cs_current_pts_us (count_violation b c) = cs_current_pts_us c"
  by (simp_all add: transition_defs RegisterCommandLocked_def split: option.split)

lemma pts_kept: "cs_current_pts_us c \<le> cs_current_pts_us (snd (control_apply op c))"
proof (cases "RegisterCommandLocked (command_id op) c" rule: prod.exhaust)
  case (Pair fresh c1)
  then have "cs_current_pts_us c1 = cs_current_pts_us c"
    using pts_update(3) [of "command_id op" c] by simp
  then show ?thesis
    using Pair by (cases op) (simp_all add: command_defs event_defs split: back_pressure_event.split)
qed

lemma pts_run: "cs_current_pts_us c \<le> cs_current_pts_us (control_run ops c)"
proof (induction ops arbitrary: c)
  case (Cons op ops)
  then show ?case using pts_kept [of c op] order_trans by fastforce
qed simp

lemma state_update [simp]:
  "cs_state (TransitionLocked s t c) = s"
  "cs_state (RecordIllegalTransitionLocked s s' c) = cs_state c"
  "cs_state (snd (RegisterCommandLocked k c)) = cs_state c"
  "cs_state (count_violation b c) = cs_state c"
  by (simp_all add: transition_defs RegisterCommandLocked_def split: option.split)

text \<open>What can take a session from one state to another in one operation.\<close>

lemma state_after:
  assumes "RegisterCommandLocked (command_id op) c = (True, c1)"
  shows "cs_state (snd (control_apply op c)) =
    (case op of
       OpBegin _ _ \<Rightarrow> if cs_state c = kIdle then kBuffering else cs_state c
     | OpPause _ _ _ _ \<Rightarrow> if cs_state c = kPlaying then kPaused else cs_state c
     | OpResume _ _ _ \<Rightarrow> if cs_state c = kPaused then kPlaying else cs_state c
     | OpSeek _ _ p _ \<Rightarrow> if cs_current_pts_us c \<le> p \<and> cs_state c = kPaused then kPlaying else cs_state c
     | OpStop _ _ _ \<Rightarrow> kIdle
     | OpRecover _ _ \<Rightarrow> if cs_state c = kError then kBuffering else cs_state c
     | OpDepth d cap _ \<Rightarrow>
         if cap \<noteq> 0 \<and> cs_state c = kBuffering \<and> 3 \<le> d then kPlaying
         else if cap \<noteq> 0 \<and> cs_state c = kPlaying \<and> d = 0 then kBuffering else cs_state c
     | OpBackPressure e _ \<Rightarrow> if e = kUnderrun \<and> cs_state c = kPlaying then kBuffering else cs_state c
     | OpCleared _ \<Rightarrow> if cs_state c = kBuffering then kPlaying else cs_state c
     | OpTimeout _ \<Rightarrow> kError
     | OpOverflow \<Rightarrow> cs_state c)"
proof -
  have "cs_state c1 = cs_state c" "cs_current_pts_us c1 = cs_current_pts_us c"
    using assms state_update(3) [of "command_id op" c] pts_update(3) [of "command_id op" c] by simp_all
  then show ?thesis
    using assms
    by (cases op)
      (simp_all add: command_defs event_defs kReadinessThresholdFrames_def split: back_pressure_event.split)
qed

section \<open>Properties\<close>

text \<open>
  C10. Whatever the commands and events so far, an operation either follows edges of the documented
  transition matrix or one of four further edges (leaving Paused for Buffering, and stopping from
  Buffering, Paused or Error), counting each edge once; or it is a rejected command that leaves the
  session as it was but for the count of the attempt; or a duplicate that changes nothing. Ready and
  Stopping are never left as the state between operations.
\<close>

theorem control_transitions_legal:
  assumes "c = control_run ops PlayoutControlStateMachine" and "control_apply op c = (r, c')"
  shows "resting (cs_state c) \<and> resting (cs_state c')
    \<and> ((r = Some True \<and> c' = c)
       \<or> (r \<noteq> Some False \<and> (\<exists>path. (\<forall>e \<in> set (path_edges (cs_state c) path). matrix_edge e \<or> extra_edge e)
             \<and> cs_state c' = last (cs_state c # path)
             \<and> cs_transitions c' = increment_entries (cs_transitions c) (path_edges (cs_state c) path)
             \<and> cs_illegal_transition_total c' = cs_illegal_transition_total c))
       \<or> (r = Some False \<and> rejects c c'))"
proof -
  have rest: "resting (cs_state c)" using assms(1) control_run_resting initial_resting by simp
  with control_apply_resting [of c op] assms(2) have "resting (cs_state c')" by simp
  with rest control_apply_step [OF rest assms(2)] show ?thesis
    unfolding follows_def legal_path_def by blast
qed

theorem control_transitions_legal_witness:
  "\<exists>c'. control_apply (OpPause ''p'' 0 10 0) (control_run [OpBegin ''b'' 0] PlayoutControlStateMachine) = (Some False, c')
     \<and> resting (cs_state c')"
proof -
  let ?c = "control_run [OpBegin ''b'' 0] PlayoutControlStateMachine"
  obtain r c' where a: "control_apply (OpPause ''p'' 0 10 0) ?c = (r, c')"
    by (cases "control_apply (OpPause ''p'' 0 10 0) ?c")
  have "r = Some False"
    using a by (simp add: PlayoutControlStateMachine_def command_defs RegisterCommandLocked_def transition_defs)
  with control_transitions_legal [OF refl a] a show ?thesis by simp
qed



text \<open>
  The metrics tell the truth about the history: after any operations the latency violation
  counter is the number of recorded samples above their thresholds (33, 50, 250 and 500 ms), every
  pause has its deviation, and the snapshot shows the last sample of each kind and a 95th percentile
  between the least and the greatest sample.
\<close>

theorem latency_metrics_accounting:
  assumes "c = control_run ops PlayoutControlStateMachine"
  shows "ms_latency_violation_total (Snapshot c) =
      above 33 (cs_pause_latencies_ms c) + above 50 (cs_resume_latencies_ms c)
      + above 250 (cs_seek_latencies_ms c) + above 500 (cs_stop_latencies_ms c)
    \<and> length (cs_pause_deviation_ms c) = length (cs_pause_latencies_ms c)
    \<and> ms_state (Snapshot c) = cs_state c
    \<and> (cs_seek_latencies_ms c = xs @ [x] \<longrightarrow>
         ms_last_seek_latency_ms (Snapshot c) = x
         \<and> Min (set (xs @ [x])) \<le> ms_seek_latency_p95_ms (Snapshot c)
         \<and> ms_seek_latency_p95_ms (Snapshot c) \<le> Max (set (xs @ [x])))"
proof -
  have "counters_ok c" using assms counters_run [OF counters_initial] by simp
  then show ?thesis
    using percentile_between [of "xs @ [x]"]
    by (simp add: counters_ok_def Snapshot_def last_or_zero_def kPauseLatencyThresholdMs_def
        kResumeLatencyThresholdMs_def kSeekLatencyThresholdMs_def kStopLatencyThresholdMs_def)
qed

theorem latency_metrics_accounting_witness:
  "ms_latency_violation_total (Snapshot (control_run
     [OpBegin ''b'' 0, OpDepth 3 60 1, OpSeek ''s'' 0 7 300000] PlayoutControlStateMachine)) = 1"
proof -
  let ?c = "control_run [OpBegin ''b'' 0, OpDepth 3 60 1, OpSeek ''s'' 0 7 300000] PlayoutControlStateMachine"
  have "cs_seek_latencies_ms ?c = [300] \<and> cs_pause_latencies_ms ?c = [] \<and> cs_resume_latencies_ms ?c = []
      \<and> cs_stop_latencies_ms ?c = []"
    by (simp add: PlayoutControlStateMachine_def command_defs RegisterCommandLocked_def transition_defs
        OnBufferDepth_def kReadinessThresholdFrames_def MicrosecondsToMilliseconds_def)
  with latency_metrics_accounting [OF refl, of "[OpBegin ''b'' 0, OpDepth 3 60 1, OpSeek ''s'' 0 7 300000]"]
  show ?thesis by (simp add: above_def)
qed

text \<open>
  The play position never moves backwards: over any operations it does not decrease, a seek to
  an earlier position is rejected and counted as late without any other effect than its registration,
  and an accepted seek sets exactly the position it asked for and ends in Playing.
\<close>

theorem seek_never_backwards:
  assumes "RegisterCommandLocked k c = (True, c\<lparr>cs_processed_commands := m\<rparr>)" and "resting (cs_state c)"
  shows "cs_current_pts_us c \<le> cs_current_pts_us (control_run ops c)
    \<and> (p < cs_current_pts_us c \<longrightarrow>
         Seek k t p u c = (False, c\<lparr>cs_processed_commands := m, cs_late_seek_total := cs_late_seek_total c + 1\<rparr>))
    \<and> (cs_current_pts_us c \<le> p \<longrightarrow> cs_state c \<in> {kPlaying, kPaused} \<longrightarrow>
         fst (Seek k t p u c) \<and> cs_current_pts_us (snd (Seek k t p u c)) = p
         \<and> cs_state (snd (Seek k t p u c)) = kPlaying)
    \<and> (\<not> fst (Seek k t p u c) \<longrightarrow> cs_state (snd (Seek k t p u c)) = cs_state c
         \<and> cs_current_pts_us (snd (Seek k t p u c)) = cs_current_pts_us c)"
proof -
  have late: "p < cs_current_pts_us c \<Longrightarrow>
      Seek k t p u c = (False, c\<lparr>cs_processed_commands := m, cs_late_seek_total := cs_late_seek_total c + 1\<rparr>)"
    using assms(1) by (simp add: command_defs)
  have "fst (Seek k t p u c) \<longrightarrow> cs_state (snd (Seek k t p u c)) = kPlaying"
    using Seek_step(2) [OF assms, of t p u] by (auto simp: follows_def)
  moreover have "\<not> fst (Seek k t p u c) \<longrightarrow> cs_state (snd (Seek k t p u c)) = cs_state c
         \<and> cs_current_pts_us (snd (Seek k t p u c)) = cs_current_pts_us c"
    using Seek_step(3) [OF assms, of t p u] by (auto simp: rejects_def)
  ultimately show ?thesis
    using pts_run [of c ops] late Seek_step(1,2) [OF assms, of t p u] by blast
qed

theorem seek_never_backwards_witness:
  "fst (Seek '''' 0 4000000 100 (PlayoutControlStateMachine\<lparr>cs_state := kPaused\<rparr>))"
proof -
  let ?c = "PlayoutControlStateMachine\<lparr>cs_state := kPaused\<rparr>"
  have r: "RegisterCommandLocked '''' ?c = (True, ?c\<lparr>cs_processed_commands := Map.empty\<rparr>)"
    and s: "resting (cs_state ?c)"
    by (simp_all add: RegisterCommandLocked_def PlayoutControlStateMachine_def resting_def)
  from seek_never_backwards [OF r s, of "[]" 4000000 0 100] show ?thesis
    by (simp add: PlayoutControlStateMachine_def)
qed

text \<open>
  A timeout puts every session in Error, and only Recover and Stop lead out of it, although the
  domain document allows Recover alone; a session in Error comes back: a fresh Recover and a buffer of
  three frames have it Playing again, and a fresh Stop takes it to Idle from wherever it is not Idle.
\<close>

theorem error_and_recovery:
  assumes "cs_state c = kError"
    and "\<And>k. k \<in> {command_id op, k1, k2} \<Longrightarrow> k = [] \<or> cs_processed_commands c k = None"
    and "3 \<le> depth" and "capacity \<noteq> 0"
  shows "cs_state (OnExternalTimeout t c0) = kError
    \<and> (cs_state (snd (control_apply op c)) \<noteq> kError \<longrightarrow>
         (\<exists>k u v. op = OpRecover k u \<or> op = OpStop k u v))
    \<and> cs_state (control_run [OpRecover k1 u, OpDepth depth capacity v] c) = kPlaying
    \<and> cs_recover_total (snd (Recover k1 u c)) = cs_recover_total c + 1
    \<and> Stop k2 u v c = (True, snd (Stop k2 u v c)) \<and> cs_state (snd (Stop k2 u v c)) = kIdle"
proof -
  have fresh: "RegisterCommandLocked k c = (True, snd (RegisterCommandLocked k c))"
    if "k \<in> {command_id op, k1, k2}" for k
    using assms(2) [OF that] by (auto simp: RegisterCommandLocked_def)
  have fresh_fst: "fst (RegisterCommandLocked k c)" if "k \<in> {command_id op, k1, k2}" for k
    using fresh [OF that] by (metis fst_conv)
  have st: "cs_state (snd (RegisterCommandLocked k c)) = kError" for k using assms(1) by simp
  have reg: "cs_recover_total (snd (RegisterCommandLocked k c)) = cs_recover_total c"
    and trans: "cs_recover_total (TransitionLocked s t c') = cs_recover_total c'" for k s t c'
    by (simp_all add: RegisterCommandLocked_def transition_defs split: option.split)
  obtain c1 where c1: "RegisterCommandLocked (command_id op) c = (True, c1)" using fresh [of "command_id op"] by auto
  have "cs_state (snd (control_apply op c)) \<noteq> kError \<longrightarrow> (\<exists>k u v. op = OpRecover k u \<or> op = OpStop k u v)"
    using state_after [OF c1] assms(1) by (cases op) auto
  moreover have "cs_state (control_run [OpRecover k1 u, OpDepth depth capacity v] c) = kPlaying"
    and "cs_recover_total (snd (Recover k1 u c)) = cs_recover_total c + 1"
    using fresh_fst [of k1] st [of k1] reg [of k1] assms(3,4)
    by (simp_all add: command_defs event_defs kReadinessThresholdFrames_def trans split_beta)
  moreover have "Stop k2 u v c = (True, snd (Stop k2 u v c)) \<and> cs_state (snd (Stop k2 u v c)) = kIdle"
    using fresh_fst [of k2] st [of k2] by (simp add: command_defs split_beta)
  ultimately show ?thesis by (simp add: OnExternalTimeout_def)
qed

theorem error_and_recovery_witness:
  "cs_state (control_run [OpRecover ''r'' 0, OpDepth 5 60 0]
     (OnExternalTimeout 0 PlayoutControlStateMachine)) = kPlaying"
proof -
  let ?c = "OnExternalTimeout 0 PlayoutControlStateMachine"
  have e: "cs_state ?c = kError" by (simp add: OnExternalTimeout_def)
  have f: "k = [] \<or> cs_processed_commands ?c k = None" for k
    by (simp add: OnExternalTimeout_def transition_defs PlayoutControlStateMachine_def)
  from error_and_recovery [of ?c OpOverflow "''r''" "''s''" 5 60 0 ?c 0 0, OF e f] show ?thesis by simp
qed

end
