(* ===== verification/ProducerSlots.thy ===== *)
theory ProducerSlots
  imports ControlStateMachine Producer_Lifecycle Producer_Frames
begin

text \<open>
  The preview and live slots of the control state machine (\<open>ProducerSlot\<close>,
  \<open>PlayoutControlStateMachine::loadPreviewAsset\<close> and \<open>activatePreviewAsLive\<close>). A producer
  behind the \<open>IProducer\<close> interface is a video file producer or one of another class, which the
  code tells apart by \<open>dynamic_cast\<close>; the operations of other classes are a parameter. A
  producer in a slot is the state its threads have reached when the operation looks at it. The
  decoder answers a thread may still need while it is stopped are the parameter \<open>e\<close>.
\<close>

section \<open>Producers behind the interface\<close>

datatype 'p iproducer = VideoProducer producer | OtherProducer 'p

record 'p iproducer_ops =
  ip_start :: "'p \<Rightarrow> bool \<times> 'p"
  ip_stop :: "'p \<Rightarrow> 'p"
  ip_isRunning :: "'p \<Rightarrow> bool"

fun iproducer_start :: "'p iproducer_ops \<Rightarrow> 'p iproducer \<Rightarrow> bool \<times> 'p iproducer" where
  "iproducer_start ops (VideoProducer p) = map_prod id VideoProducer (start p)"
| "iproducer_start ops (OtherProducer x) = map_prod id OtherProducer (ip_start ops x)"

fun iproducer_stop :: "decoder_env \<Rightarrow> 'p iproducer_ops \<Rightarrow> 'p iproducer \<Rightarrow> 'p iproducer" where
  "iproducer_stop e ops (VideoProducer p) = VideoProducer (stop e p)"
| "iproducer_stop e ops (OtherProducer x) = OtherProducer (ip_stop ops x)"

fun iproducer_isRunning :: "'p iproducer_ops \<Rightarrow> 'p iproducer \<Rightarrow> bool" where
  "iproducer_isRunning ops (VideoProducer p) = isRunning p"
| "iproducer_isRunning ops (OtherProducer x) = ip_isRunning ops x"

text \<open>\<open>dynamic_cast<VideoFileProducer*>\<close>.\<close>

fun video_producer :: "'p iproducer \<Rightarrow> producer option" where
  "video_producer (VideoProducer p) = Some p"
| "video_producer (OtherProducer x) = None"

section \<open>The interface contract\<close>

text \<open>What the slots rely on: a start that succeeds leaves the producer running, one that fails leaves
  it alone, a running producer cannot be started again, and stop returns with it at rest.\<close>

locale iproducer_contract =
  fixes start_op :: "'q \<Rightarrow> bool \<times> 'q"
    and stop_op :: "'q \<Rightarrow> 'q"
    and running :: "'q \<Rightarrow> bool"
    and invar :: "'q \<Rightarrow> bool"
  assumes start_true: "invar x \<Longrightarrow> start_op x = (True, y) \<Longrightarrow> running y \<and> invar y"
    and start_false: "start_op x = (False, y) \<Longrightarrow> y = x"
    and start_running: "running x \<Longrightarrow> \<not> fst (start_op x)"
    and stop_stops: "invar x \<Longrightarrow> \<not> running (stop_op x) \<and> invar (stop_op x)"
    and stop_restart: "invar x \<Longrightarrow> fst (start_op (stop_op x))"
begin

lemma restart:
  assumes "invar x"
  obtains y where "start_op (stop_op x) = (True, y)" "running y" "invar y"
proof -
  obtain b y where s: "start_op (stop_op x) = (b, y)" by (cases "start_op (stop_op x)")
  with stop_restart [OF assms] start_true [of "stop_op x" y] stop_stops [OF assms] show thesis
    by (intro that [of y]) auto
qed

text \<open>Stopping what is running and leaving the rest: nothing runs afterwards.\<close>

lemma wound_down: "invar x \<Longrightarrow> \<not> running (if running x then stop_op x else x)"
  using stop_stops [of x] by simp

end

lemma stop_inv:
  assumes "vfp_inv p"
  shows "vfp_inv (stop e p) \<and> vp_state (stop e p) = STOPPED"
proof (cases "vp_state p = RUNNING")
  case True
  have "vfp_inv r" if "vfp_step\<^sup>*\<^sup>* (p, FrameRingBuffer 0) (r, s)" for r s
  proof -
    from that have "vfp_inv (fst (r, s)) \<and> rb_wf (snd (r, s))"
    proof (induction rule: rtranclp_induct)
      case base
      then show ?case using assms FrameRingBuffer_wf(1) [of 0] by simp
    next
      case (step y z)
      then show ?case using vfp_step_inv by blast
    qed
    then show ?thesis by simp
  qed
  with stop_steps [OF assms True] have "vfp_inv (stop e p)" by blast
  moreover have "vp_state (stop e p) = STOPPED"
    using True by (simp add: stop_def Let_def stop_finish_def SetState_def)
  ultimately show ?thesis by simp
next
  case False
  show ?thesis
  proof (cases "vp_state p = STOPPED")
    case True
    with assms show ?thesis by (simp add: stop_def)
  next
    case nst: False
    with False assms have st: "vp_state p = STOPPING" "vp_stop_requested p"
      by (cases "vp_state p"; simp add: vfp_inv_def control_ok_def)+
    let ?p1 = "stop_request p"
    have i1: "vfp_inv ?p1"
      using assms st by (simp add: stop_request_def SetState_def Let_def)
        (simp add: vfp_inv_def control_ok_def no_decoder_def whole_decoder_def)
    let ?p2 = "if vp_thread ?p1 = Spawned then ProduceLoop_begin e ?p1 else ?p1"
    have i2: "vfp_inv ?p2" using i1 begin_inv by simp
    let ?p3 = "if vp_thread ?p2 = InLoop then ProduceLoop_end ?p2 else ?p2"
    have "vfp_inv ?p3" using i2 ProduceLoop_end_inv by simp
    then have "vfp_inv (stop_finish ?p3)" by (rule stop_finish_inv)
    then show ?thesis using nst by (simp add: stop_def Let_def stop_finish_def SetState_def)
  qed
qed

interpretation video_file: iproducer_contract start "stop e" isRunning vfp_inv for e
proof unfold_locales
  fix x y
  show "start x = (True, y) \<Longrightarrow> isRunning y \<and> vfp_inv y" if "vfp_inv x"
    using start_inv [OF that] start_fields(1) [of x]
    by (cases "vp_state x = STOPPED") (auto simp: isRunning_def start_def)
  show "start x = (False, y) \<Longrightarrow> y = x" by (auto simp: start_def Let_def split: if_splits)
  show "isRunning x \<Longrightarrow> \<not> fst (start x)" by (simp add: isRunning_def start_def)
  show "\<not> isRunning (stop e x) \<and> vfp_inv (stop e x)" "fst (start (stop e x))" if "vfp_inv x"
    using stop_inv [OF that, of e] by (simp_all add: isRunning_def start_def Let_def)
qed

section \<open>Slots\<close>

record 'p producer_slot =
  sl_producer :: "'p iproducer option"
  sl_loaded :: bool
  sl_asset_id :: string
  sl_file_path :: string

definition empty_slot :: "'p producer_slot" where
  "empty_slot = \<lparr>sl_producer = None, sl_loaded = False, sl_asset_id = '''', sl_file_path = ''''\<rparr>"

text \<open>\<open>ProducerSlot::reset\<close>: the slot, and the producer as it is when it is destroyed.\<close>

definition ProducerSlot_reset ::
  "decoder_env \<Rightarrow> 'p iproducer_ops \<Rightarrow> 'p producer_slot \<Rightarrow> 'p iproducer option \<times> 'p producer_slot" where
  "ProducerSlot_reset e ops s =
     (let destroyed = (case sl_producer s of None \<Rightarrow> None
        | Some p \<Rightarrow> Some (if iproducer_isRunning ops p then iproducer_stop e ops p else p))
      in (destroyed, s\<lparr>sl_producer := None, sl_loaded := False, sl_asset_id := '''', sl_file_path := ''''\<rparr>))"

record 'p session = control +
  ss_preview :: "'p producer_slot"
  ss_live :: "'p producer_slot"
  ss_factory :: "(string \<Rightarrow> string \<Rightarrow> 'p iproducer option) option"

definition setProducerFactory ::
  "(string \<Rightarrow> string \<Rightarrow> 'p iproducer option) option \<Rightarrow> 'p session \<Rightarrow> 'p session" where
  "setProducerFactory factory s = s\<lparr>ss_factory := factory\<rparr>"

definition loadPreviewAsset ::
  "decoder_env \<Rightarrow> 'p iproducer_ops \<Rightarrow> string \<Rightarrow> string \<Rightarrow> 'p session \<Rightarrow> bool \<times> 'p session" where
  "loadPreviewAsset e ops path assetId s =
     (let s = (if sl_loaded (ss_preview s)
               then let slot = ss_preview s;
                        slot = (case sl_producer slot of
                            Some (VideoProducer p) \<Rightarrow>
                              slot\<lparr>sl_producer := Some (VideoProducer (SetShadowDecodeMode p False))\<rparr>
                          | _ \<Rightarrow> slot)
                    in s\<lparr>ss_preview := snd (ProducerSlot_reset e ops slot)\<rparr>
               else s)
      in case ss_factory s of
        None \<Rightarrow> (False, s)
      | Some producer_factory \<Rightarrow>
        (case producer_factory path assetId of
           None \<Rightarrow> (False, s)
         | Some producer \<Rightarrow>
           (let producer = (case producer of
                  VideoProducer p \<Rightarrow> VideoProducer (SetShadowDecodeMode p True)
                | OtherProducer x \<Rightarrow> OtherProducer x);
                (ok, producer) = iproducer_start ops producer
            in if \<not> ok then (False, s)
               else (True, s\<lparr>ss_preview := \<lparr>sl_producer = Some producer, sl_loaded = True,
                                            sl_asset_id = assetId, sl_file_path = path\<rparr>\<rparr>))))"

text \<open>The producer of a loaded slot that is running.\<close>

definition getPreviewSlot :: "'p session \<Rightarrow> 'p producer_slot" where
  "getPreviewSlot s = ss_preview s"

definition getLiveSlot :: "'p session \<Rightarrow> 'p producer_slot" where
  "getLiveSlot s = ss_live s"

definition running_producer :: "'p iproducer_ops \<Rightarrow> 'p producer_slot \<Rightarrow> 'p iproducer option" where
  "running_producer ops slot =
     (case sl_producer slot of
        None \<Rightarrow> None
      | Some p \<Rightarrow> if sl_loaded slot \<and> iproducer_isRunning ops p then Some p else None)"

definition switch_target_pts :: "'p iproducer_ops \<Rightarrow> 'p producer_slot \<Rightarrow> int" where
  "switch_target_pts ops live =
     (case Option.bind (running_producer ops live) video_producer of
        None \<Rightarrow> 0 + 0
      | Some live_video_producer \<Rightarrow> GetNextPTS live_video_producer + 33366)"

text \<open>The answer, the session, and the old live producer as it is when the new one takes its place.\<close>

definition activatePreviewAsLive ::
  "decoder_env \<Rightarrow> 'p iproducer_ops \<Rightarrow> 'p session \<Rightarrow> bool \<times> 'p session \<times> 'p iproducer option" where
  "activatePreviewAsLive e ops s =
     (let preview = ss_preview s; live = ss_live s
      in if \<not> sl_loaded preview then (False, s, None)
      else case sl_producer preview of
        None \<Rightarrow> (False, s, None)
      | Some producer \<Rightarrow>
        (case video_producer producer of
           None \<Rightarrow> (False, s, None)
         | Some p \<Rightarrow>
           if \<not> IsShadowDecodeReady p then (False, s, None)
           else let target_pts = switch_target_pts ops live;
                    p = AlignPTS p target_pts;
                    p = SetShadowDecodeMode p False;
                    old_live = (case sl_producer live of
                        None \<Rightarrow> None
                      | Some l \<Rightarrow> Some (if sl_loaded live \<and> iproducer_isRunning ops l
                                         then iproducer_stop e ops l else l));
                    live = \<lparr>sl_producer = Some (VideoProducer p), sl_loaded = True,
                            sl_asset_id = sl_asset_id preview, sl_file_path = sl_file_path preview\<rparr>;
                    preview = snd (ProducerSlot_reset e ops (preview\<lparr>sl_producer := None\<rparr>))
                in (True, s\<lparr>ss_live := live, ss_preview := preview\<rparr>, old_live)))"

section \<open>Properties\<close>

lemma ProducerSlot_reset_empty: "snd (ProducerSlot_reset e ops s) = empty_slot"
  by (simp add: ProducerSlot_reset_def empty_slot_def Let_def)

lemma reset_stops_video:
  "sl_producer s = Some (VideoProducer p) \<Longrightarrow> vfp_inv p \<Longrightarrow>
    \<exists>p'. fst (ProducerSlot_reset e ops s) = Some (VideoProducer p') \<and> \<not> isRunning p'"
  using video_file.wound_down [of p e] by (auto simp: ProducerSlot_reset_def Let_def)

lemma loadPreviewAsset_eq:
  "loadPreviewAsset e ops path asset s =
     (let s = (if sl_loaded (ss_preview s) then s\<lparr>ss_preview := empty_slot\<rparr> else s)
      in case ss_factory s of
        None \<Rightarrow> (False, s)
      | Some factory \<Rightarrow>
        (case factory path asset of
           None \<Rightarrow> (False, s)
         | Some producer \<Rightarrow>
           (let producer = (case producer of
                  VideoProducer p \<Rightarrow> VideoProducer (SetShadowDecodeMode p True)
                | OtherProducer x \<Rightarrow> OtherProducer x)
            in if fst (iproducer_start ops producer)
               then (True, s\<lparr>ss_preview := \<lparr>sl_producer = Some (snd (iproducer_start ops producer)),
                       sl_loaded = True, sl_asset_id = asset, sl_file_path = path\<rparr>\<rparr>)
               else (False, s))))"
proof -
  have clear: "(let slot = ss_preview s;
                    slot = (case sl_producer slot of
                        Some (VideoProducer p) \<Rightarrow>
                          slot\<lparr>sl_producer := Some (VideoProducer (SetShadowDecodeMode p False))\<rparr>
                      | _ \<Rightarrow> slot)
                in s\<lparr>ss_preview := snd (ProducerSlot_reset e ops slot)\<rparr>) = s\<lparr>ss_preview := empty_slot\<rparr>"
    by (simp add: ProducerSlot_reset_empty Let_def)
  show ?thesis
    unfolding loadPreviewAsset_def clear
    by (simp add: Let_def split_beta split: option.split)
qed

lemma SetShadowDecodeMode_fields:
  "vp_state (SetShadowDecodeMode p on) = vp_state p"
  "vp_shadow_decode_mode (SetShadowDecodeMode p on) = on"
  "vp_shadow_decode_ready (SetShadowDecodeMode p on) = False"
  "vp_cached_first_frame (SetShadowDecodeMode p on) = None"
  by (simp_all add: SetShadowDecodeMode_def Let_def)

lemma start_shadow:
  assumes "vfp_inv p"
  shows "fst (start (SetShadowDecodeMode p True)) \<longleftrightarrow> vp_state p = STOPPED"
    "vp_state p = STOPPED \<Longrightarrow> isRunning (snd (start (SetShadowDecodeMode p True)))
      \<and> vfp_inv (snd (start (SetShadowDecodeMode p True)))
      \<and> vp_shadow_decode_mode (snd (start (SetShadowDecodeMode p True)))
      \<and> \<not> IsShadowDecodeReady (snd (start (SetShadowDecodeMode p True)))"
proof -
  have inv: "vfp_inv (SetShadowDecodeMode p True)" using control_inv(3) [OF assms] .
  show iff: "fst (start (SetShadowDecodeMode p True)) \<longleftrightarrow> vp_state p = STOPPED"
    by (simp add: start_def SetShadowDecodeMode_fields Let_def)
  assume st: "vp_state p = STOPPED"
  then have st': "vp_state (SetShadowDecodeMode p True) = STOPPED" by (simp add: SetShadowDecodeMode_fields)
  show "isRunning (snd (start (SetShadowDecodeMode p True)))
      \<and> vfp_inv (snd (start (SetShadowDecodeMode p True)))
      \<and> vp_shadow_decode_mode (snd (start (SetShadowDecodeMode p True)))
      \<and> \<not> IsShadowDecodeReady (snd (start (SetShadowDecodeMode p True)))"
    using start_inv [OF inv] start_fields [OF st']
    by (simp add: isRunning_def IsShadowDecodeReady_def SetShadowDecodeMode_fields)
qed

text \<open>
  Loading a preview touches only the preview slot. With a factory that makes a video producer it
  succeeds exactly when that producer was stopped, and the slot then holds it running in shadow mode
  with nothing cached yet. When the factory is missing, makes nothing or makes a producer that does
  not start, it fails; a preview loaded before is then gone all the same, although the contract asks
  for an unchanged state. A producer is stopped before its slot is emptied.
\<close>

theorem load_preview:
  assumes "loadPreviewAsset e ops path asset s = (ok, s')"
    and "\<And>p. ss_factory s \<noteq> None \<Longrightarrow> the (ss_factory s) path asset = Some (VideoProducer p) \<Longrightarrow> vfp_inv p"
    and "\<And>p. sl_producer (ss_preview s) = Some (VideoProducer p) \<Longrightarrow> vfp_inv p"
  shows "ss_live s' = ss_live s \<and> control.truncate s' = control.truncate s
    \<and> (\<not> ok \<longrightarrow> ss_preview s' = (if sl_loaded (ss_preview s) then empty_slot else ss_preview s))
    \<and> (ss_factory s = None \<longrightarrow> \<not> ok)
    \<and> (\<forall>factory. ss_factory s = Some factory \<longrightarrow> factory path asset = None \<longrightarrow> \<not> ok)
    \<and> (\<forall>factory p. ss_factory s = Some factory \<longrightarrow> factory path asset = Some (VideoProducer p) \<longrightarrow>
         (ok \<longleftrightarrow> vp_state p = STOPPED) \<and>
         (ok \<longrightarrow> (\<exists>p'. ss_preview s' = \<lparr>sl_producer = Some (VideoProducer p'), sl_loaded = True,
                           sl_asset_id = asset, sl_file_path = path\<rparr>
              \<and> isRunning p' \<and> vfp_inv p' \<and> vp_shadow_decode_mode p' \<and> \<not> IsShadowDecodeReady p')))
    \<and> (\<forall>p. sl_producer (ss_preview s) = Some (VideoProducer p) \<longrightarrow>
         (\<exists>p'. fst (ProducerSlot_reset e ops (ss_preview s)) = Some (VideoProducer p') \<and> \<not> isRunning p'))"
proof -
  let ?s = "if sl_loaded (ss_preview s) then s\<lparr>ss_preview := empty_slot\<rparr> else s"
  have s: "ss_live ?s = ss_live s" "control.truncate ?s = control.truncate s" "ss_factory ?s = ss_factory s"
    "ss_preview ?s = (if sl_loaded (ss_preview s) then empty_slot else ss_preview s)"
    by (simp_all add: control.truncate_def)
  note load = assms(1) [unfolded loadPreviewAsset_eq Let_def s]
  have upd: "control.truncate (?s\<lparr>ss_preview := x\<rparr>) = control.truncate s" "ss_live (?s\<lparr>ss_preview := x\<rparr>) = ss_live s"
    for x by (simp_all add: control.truncate_def)
  have video: "(ok \<longleftrightarrow> vp_state p = STOPPED) \<and>
         (ok \<longrightarrow> (\<exists>p'. ss_preview s' = \<lparr>sl_producer = Some (VideoProducer p'), sl_loaded = True,
                           sl_asset_id = asset, sl_file_path = path\<rparr>
              \<and> isRunning p' \<and> vfp_inv p' \<and> vp_shadow_decode_mode p' \<and> \<not> IsShadowDecodeReady p'))"
    if "ss_factory s = Some factory" "factory path asset = Some (VideoProducer p)" for factory p
  proof -
    have "vfp_inv p" using assms(2) that by simp
    then show ?thesis
      using start_shadow [of p] load that by (cases "vp_state p = STOPPED") auto
  qed
  have "ss_live s' = ss_live s \<and> control.truncate s' = control.truncate s
    \<and> (\<not> ok \<longrightarrow> ss_preview s' = ss_preview ?s) \<and> (ss_factory s = None \<longrightarrow> \<not> ok)
    \<and> (\<forall>factory. ss_factory s = Some factory \<longrightarrow> factory path asset = None \<longrightarrow> \<not> ok)"
    using load s(1,2) upd by (simp split: option.splits if_splits prod.splits del: if_split) auto
  note base = this [unfolded s(4)]
  have reset: "\<forall>p. sl_producer (ss_preview s) = Some (VideoProducer p) \<longrightarrow>
      (\<exists>p'. fst (ProducerSlot_reset e ops (ss_preview s)) = Some (VideoProducer p') \<and> \<not> isRunning p')"
    using reset_stops_video assms(3) by blast
  show ?thesis
    using base by (elim conjE, intro conjI allI impI reset) (assumption | simp | rule video [THEN conjunct1]
      video [THEN conjunct2, THEN mp] | rule reset [rule_format])+
qed

text \<open>A session with a factory that makes stub producers from the configuration.\<close>

definition stub_config :: producer_config where
  "stub_config = ProducerConfig\<lparr>pc_stub_mode := True\<rparr>"

definition stub_session :: "unit session" where
  "stub_session = control.extend PlayoutControlStateMachine
     \<lparr>ss_preview = empty_slot, ss_live = empty_slot,
      ss_factory = Some (\<lambda>path asset. Some (VideoProducer (VideoFileProducer
        (stub_config\<lparr>pc_asset_uri := path\<rparr>) NoClock True)))\<rparr>"

definition no_other :: "unit iproducer_ops" where
  "no_other = \<lparr>ip_start = \<lambda>x. (False, x), ip_stop = id, ip_isRunning = \<lambda>x. False\<rparr>"

theorem load_preview_witness:
  "\<exists>e s' p'. loadPreviewAsset e no_other ''a.mp4'' ''A'' stub_session = (True, s')
     \<and> sl_producer (ss_preview s') = Some (VideoProducer p') \<and> isRunning p' \<and> vp_shadow_decode_mode p'"
proof -
  let ?p = "VideoFileProducer (stub_config\<lparr>pc_asset_uri := ''a.mp4''\<rparr>) NoClock True"
  have f: "ss_factory stub_session = Some (\<lambda>path asset. Some (VideoProducer (VideoFileProducer
        (stub_config\<lparr>pc_asset_uri := path\<rparr>) NoClock True)))"
    and e: "ss_preview stub_session = empty_slot"
    by (simp_all add: stub_session_def control.extend_def)
  obtain ok s' where l: "loadPreviewAsset undefined no_other ''a.mp4'' ''A'' stub_session = (ok, s')"
    by fastforce
  have inv: "vfp_inv q" if "ss_factory stub_session \<noteq> None"
      "the (ss_factory stub_session) ''a.mp4'' ''A'' = Some (VideoProducer q)" for q
    using that f VideoFileProducer_inv by auto
  have inv': "vfp_inv q" if "sl_producer (ss_preview stub_session) = Some (VideoProducer q)" for q
    using that e by (simp add: empty_slot_def)
  have "vp_state ?p = STOPPED" by (simp add: VideoFileProducer_def)
  with load_preview [OF l inv inv'] f l show ?thesis by fastforce
qed

text \<open>
  C34. Activation is guarded and atomic: it succeeds exactly when the preview slot is loaded with a
  video producer that has cached its first frame, and otherwise changes nothing. On success the
  preview producer becomes the live one, still running, out of shadow mode and with its cached frame
  dropped; the preview slot is empty, asset and path move along, the session's state machine is not
  touched, and a running live producer is stopped.
\<close>

theorem activate_preview:
  assumes "activatePreviewAsLive e ops s = (ok, s', old)"
    and "\<And>p. sl_producer (ss_preview s) = Some (VideoProducer p) \<Longrightarrow> vfp_inv p"
    and "\<And>l. sl_producer (ss_live s) = Some (VideoProducer l) \<Longrightarrow> vfp_inv l"
  shows "(ok \<longleftrightarrow> sl_loaded (ss_preview s)
        \<and> (\<exists>p. sl_producer (ss_preview s) = Some (VideoProducer p) \<and> IsShadowDecodeReady p))
    \<and> (\<not> ok \<longrightarrow> s' = s)
    \<and> (ok \<longrightarrow> ss_preview s' = empty_slot \<and> control.truncate s' = control.truncate s
         \<and> sl_loaded (ss_live s') \<and> sl_asset_id (ss_live s') = sl_asset_id (ss_preview s)
         \<and> sl_file_path (ss_live s') = sl_file_path (ss_preview s)
         \<and> (\<exists>p p'. sl_producer (ss_preview s) = Some (VideoProducer p)
              \<and> sl_producer (ss_live s') = Some (VideoProducer p') \<and> vfp_inv p'
              \<and> vp_state p' = vp_state p \<and> vp_thread p' = vp_thread p \<and> \<not> vp_shadow_decode_mode p'
              \<and> vp_cached_first_frame p' = None
              \<and> p' = SetShadowDecodeMode (AlignPTS p (switch_target_pts ops (ss_live s))) False))
    \<and> (ok \<longrightarrow> sl_loaded (ss_live s) \<longrightarrow> (\<forall>l. sl_producer (ss_live s) = Some (VideoProducer l) \<longrightarrow>
         (\<exists>l'. old = Some (VideoProducer l') \<and> \<not> isRunning l')))"
proof (cases "sl_loaded (ss_preview s)
        \<and> (\<exists>p. sl_producer (ss_preview s) = Some (VideoProducer p) \<and> IsShadowDecodeReady p)")
  case True
  then obtain p where p: "sl_producer (ss_preview s) = Some (VideoProducer p)" "IsShadowDecodeReady p"
    by blast
  let ?p' = "SetShadowDecodeMode (AlignPTS p (switch_target_pts ops (ss_live s))) False"
  have inv: "vfp_inv ?p'" using control_inv(3,4) assms(2) [OF p(1)] by blast
  have f: "vp_state ?p' = vp_state p" "vp_thread ?p' = vp_thread p" "\<not> vp_shadow_decode_mode ?p'"
      "vp_cached_first_frame ?p' = None"
    by (simp_all add: SetShadowDecodeMode_def AlignPTS_def Let_def)
  have live: "\<not> isRunning (if isRunning l then stop e l else l)"
    if "sl_producer (ss_live s) = Some (VideoProducer l)" for l
    using video_file.wound_down [OF assms(3) [OF that]] .
  have r: "ok" "ss_preview s' = empty_slot" "control.truncate s' = control.truncate s"
    "ss_live s' = \<lparr>sl_producer = Some (VideoProducer ?p'), sl_loaded = True,
       sl_asset_id = sl_asset_id (ss_preview s), sl_file_path = sl_file_path (ss_preview s)\<rparr>"
    "old = (case sl_producer (ss_live s) of None \<Rightarrow> None
            | Some l \<Rightarrow> Some (if sl_loaded (ss_live s) \<and> iproducer_isRunning ops l
                             then iproducer_stop e ops l else l))"
    using assms(1) True p
    by (auto simp: activatePreviewAsLive_def Let_def ProducerSlot_reset_empty control.truncate_def)
  have old: "\<exists>l'. old = Some (VideoProducer l') \<and> \<not> isRunning l'"
    if "sl_loaded (ss_live s)" "sl_producer (ss_live s) = Some (VideoProducer l)" for l
    using live [OF that(2)] that r(5) by auto
  show ?thesis using True r old p(1) inv f by simp
next
  case False
  then have "ok = False" "s' = s"
    using assms(1)
    by (auto simp: activatePreviewAsLive_def Let_def split: if_splits option.splits elim!: video_producer.elims)
  with False show ?thesis by simp
qed

text \<open>A stub producer in shadow mode that has cached its first frame.\<close>

definition ready_producer :: producer where
  "ready_producer = (snd (start (SetShadowDecodeMode (VideoFileProducer stub_config NoClock True) True)))
     \<lparr>vp_thread := InLoop, vp_cached_first_frame := Some empty_frame, vp_shadow_decode_ready := True,
      vp_stub_pts_counter := 5, vp_frame_interval_us := 33333, vp_last_pts_us := 4 * 33333\<rparr>"

definition ready_session :: "unit session" where
  "ready_session = stub_session\<lparr>ss_preview := \<lparr>sl_producer = Some (VideoProducer ready_producer),
     sl_loaded = True, sl_asset_id = ''A'', sl_file_path = ''a.mp4''\<rparr>\<rparr>"

lemma ready_producer_inv: "vfp_inv ready_producer" "IsShadowDecodeReady ready_producer"
proof -
  let ?p0 = "SetShadowDecodeMode (VideoFileProducer stub_config NoClock True) True"
  have i: "vfp_inv (snd (start ?p0))" "vp_state ?p0 = STOPPED"
    using start_inv control_inv(3) VideoFileProducer_inv
    by (blast, simp add: SetShadowDecodeMode_def VideoFileProducer_def Let_def)
  note f = start_fields [OF i(2)]
  have sh: "vp_shadow_decode_mode ?p0" by (simp add: SetShadowDecodeMode_fields)
  have "no_decoder (snd (start ?p0))" using i(1) f(2) by (simp add: vfp_inv_def control_ok_def)
  then show "vfp_inv ready_producer"
    using f sh
    by (simp add: ready_producer_def vfp_inv_def control_ok_def no_decoder_def whole_decoder_def)
  show "IsShadowDecodeReady ready_producer" by (simp add: ready_producer_def IsShadowDecodeReady_def)
qed

theorem activate_preview_witness:
  "\<exists>e s' old. activatePreviewAsLive e no_other ready_session = (True, s', old)
     \<and> ss_preview s' = empty_slot \<and> sl_asset_id (ss_live s') = ''A''"
proof -
  obtain ok s' old where a: "activatePreviewAsLive undefined no_other ready_session = (ok, s', old)"
    by (cases "activatePreviewAsLive undefined no_other ready_session")
  have p: "ss_preview ready_session = \<lparr>sl_producer = Some (VideoProducer ready_producer), sl_loaded = True,
      sl_asset_id = ''A'', sl_file_path = ''a.mp4''\<rparr>" and l: "ss_live ready_session = empty_slot"
    by (simp_all add: ready_session_def stub_session_def control.extend_def)
  have 1: "vfp_inv q" if "sl_producer (ss_preview ready_session) = Some (VideoProducer q)" for q
    using that p ready_producer_inv by simp
  have 2: "vfp_inv q" if "sl_producer (ss_live ready_session) = Some (VideoProducer q)" for q
    using that l by (simp add: empty_slot_def)
  have "ok \<and> ss_preview s' = empty_slot \<and> sl_asset_id (ss_live s') = ''A''"
    using activate_preview [OF a 1 2] p ready_producer_inv(2) by auto
  with a show ?thesis by (intro exI [of _ undefined] exI [of _ s'] exI [of _ old]) simp
qed

text \<open>
  How far a switch is from seamless: with stub producers on both sides, neither aligned before
  and the live one past its first frame, the first frame of the new live producer comes one frame
  interval of the old producer plus 33366 microseconds after the last live frame, where the contract
  asks for one frame; it comes one more interval later when the preview had made exactly one frame.
\<close>

theorem switch_pts_gap:
  assumes "unaligned_stub p c" and "unaligned_stub l m" and "1 < m"
    and "sl_loaded live" and "sl_producer live = Some (VideoProducer l)" and "isRunning l"
  shows "md_pts (fr_metadata (next_stub (SetShadowDecodeMode (AlignPTS p (switch_target_pts ops live)) False)))
      = vp_last_pts_us l + vp_frame_interval_us l + 33366 + (if c = 1 then vp_frame_interval_us p else 0)"
proof -
  have t: "switch_target_pts ops live = GetNextPTS l + 33366"
    using assms(4-6) by (simp add: switch_target_pts_def running_producer_def)
  have "GetNextPTS l = vp_last_pts_us l + vp_frame_interval_us l"
    using next_stub_aligned(4) [OF assms(2,3)] assms(2) by (simp add: GetNextPTS_def unaligned_stub_def)
  moreover have "next_stub (SetShadowDecodeMode q on) = next_stub q" for q on
    by (simp add: next_stub_def stub_frame_def SetShadowDecodeMode_def Let_def)
  ultimately show ?thesis using next_stub_aligned(1) [OF assms(1), of "switch_target_pts ops live"] t by simp
qed

theorem switch_pts_gap_witness:
  "md_pts (fr_metadata (next_stub (SetShadowDecodeMode (AlignPTS ready_producer (switch_target_pts no_other
     (ss_preview ready_session))) False))) = 4 * 33333 + 33333 + 33366"
proof -
  have u: "unaligned_stub ready_producer 5"
    by (simp add: unaligned_stub_def ready_producer_def start_def SetState_def SetShadowDecodeMode_def
        VideoFileProducer_def Let_def)
  have s: "sl_loaded (ss_preview ready_session)"
    "sl_producer (ss_preview ready_session) = Some (VideoProducer ready_producer)"
    by (simp_all add: ready_session_def)
  have r: "isRunning ready_producer"
    by (simp add: isRunning_def ready_producer_def start_def SetState_def SetShadowDecodeMode_def
        VideoFileProducer_def Let_def)
  have m: "1 < (5 :: nat)" by simp
  from switch_pts_gap [OF u u m s r, of no_other] show ?thesis
    by (simp add: ready_producer_def)
qed

end
