(* ===== verification/OrchestrationLoop.thy ===== *)
theory OrchestrationLoop
  imports ControlStateMachine MasterClock
begin

text \<open>
  The orchestration loop (\<open>include/retrovue/runtime/OrchestrationLoop.h\<close>,
  \<open>src/runtime/OrchestrationLoop.cpp\<close>): the paced tick, its statistics and the back pressure
  bookkeeping. One turn of \<open>Run\<close>'s outer loop is \<open>Run_tick\<close>; the deadline it carries to the
  next turn is an argument and a result. The clock (the master clock, or the system clock without
  one) is a sequence of readings, \<open>halted i\<close> says that \<open>running_\<close> is found false before
  reading \<open>i\<close>, and the steady clock enters only as the gap between ticks.
\<close>

section \<open>Data\<close>

record loop_config =
  lc_target_fps :: real
  lc_max_tick_skew_ms :: real
  lc_max_latency_ms :: real
  lc_max_backpressure_ticks :: nat
  lc_starvation_threshold_ms :: real
  lc_graceful_stop_timeout_ms :: real

definition LoopConfig :: loop_config where
  "LoopConfig = \<lparr>lc_target_fps = 30, lc_max_tick_skew_ms = 1, lc_max_latency_ms = 33,
     lc_max_backpressure_ticks = 3, lc_starvation_threshold_ms = 100, lc_graceful_stop_timeout_ms = 500\<rparr>"

record tick_context =
  tk_tick_index :: nat
  tk_scheduled_deadline_utc_us :: time_us

record tick_result =
  tr_producer_to_renderer_latency_ms :: "real option"
  tr_deadline_met :: bool
  tr_backpressure_cleared :: bool

definition TickResult :: tick_result where
  "TickResult = \<lparr>tr_producer_to_renderer_latency_ms = None, tr_deadline_met = True,
     tr_backpressure_cleared = False\<rparr>"

record loop_stats =
  st_tick_skew_ms :: "real list"
  st_latency_ms :: "real list"
  st_backpressure_events :: "back_pressure_event \<rightharpoonup> nat"
  st_backpressure_recovery_ms :: "back_pressure_event \<rightharpoonup> real list"
  st_starvation_detected :: bool
  st_backpressure_unresolved :: bool
  st_teardown_duration_ms :: real

definition empty_stats :: loop_stats where
  "empty_stats = \<lparr>st_tick_skew_ms = [], st_latency_ms = [], st_backpressure_events = Map.empty,
     st_backpressure_recovery_ms = Map.empty, st_starvation_detected = False,
     st_backpressure_unresolved = False, st_teardown_duration_ms = 0\<rparr>"

record pending_back_pressure =
  pb_event :: back_pressure_event
  pb_start_tick :: nat
  pb_start_time_utc_us :: time_us
  pb_ticks_elapsed :: nat

record orchestration =
  ol_config :: loop_config
  ol_tick_callback :: "(tick_context \<Rightarrow> tick_result) option"
  ol_running :: bool
  ol_tick_index :: nat
  ol_thread :: bool
  ol_stats :: loop_stats
  ol_pending_backpressure :: "pending_back_pressure option"

section \<open>Operations\<close>

definition ToMicroseconds :: "real \<Rightarrow> int" where
  "ToMicroseconds seconds = llround (seconds * 1000000)"

definition ToMilliseconds :: "int \<Rightarrow> real" where
  "ToMilliseconds microseconds = real_of_int microseconds / 1000"

definition OrchestrationLoop :: "loop_config \<Rightarrow> (tick_context \<Rightarrow> tick_result) option \<Rightarrow> orchestration" where
  "OrchestrationLoop config callback =
     \<lparr>ol_config = config, ol_tick_callback = callback, ol_running = False, ol_tick_index = 0,
      ol_thread = False, ol_stats = empty_stats, ol_pending_backpressure = None\<rparr>"

text \<open>\<open>Start\<close> launches the thread once; \<open>Stop\<close> clears the flag, waits for the thread and
  records how long that took.\<close>

definition Loop_Start :: "orchestration \<Rightarrow> orchestration" where
  "Loop_Start l = (if ol_running l then l else l\<lparr>ol_running := True, ol_thread := True\<rparr>)"

definition Loop_Stop :: "real \<Rightarrow> orchestration \<Rightarrow> orchestration" where
  "Loop_Stop duration_ms l =
     (if \<not> ol_running l then l
      else l\<lparr>ol_running := False, ol_thread := False,
             ol_stats := (ol_stats l)\<lparr>st_teardown_duration_ms := duration_ms\<rparr>\<rparr>)"

definition Loop_Snapshot :: "orchestration \<Rightarrow> loop_stats" where
  "Loop_Snapshot l = ol_stats l"

definition SetTickCallback :: "(tick_context \<Rightarrow> tick_result) option \<Rightarrow> orchestration \<Rightarrow> orchestration" where
  "SetTickCallback callback l = l\<lparr>ol_tick_callback := callback\<rparr>"

definition ReportBackPressureEvent :: "back_pressure_event \<Rightarrow> time_us \<Rightarrow> orchestration \<Rightarrow> orchestration" where
  "ReportBackPressureEvent event now_utc l =
     l\<lparr>ol_stats := (ol_stats l)\<lparr>st_backpressure_events := increment_entry (st_backpressure_events (ol_stats l)) event\<rparr>,
       ol_pending_backpressure := Some \<lparr>pb_event = event, pb_start_tick = ol_tick_index l,
         pb_start_time_utc_us = now_utc, pb_ticks_elapsed = 0\<rparr>\<rparr>"

definition RecordTickSkew :: "real \<Rightarrow> orchestration \<Rightarrow> orchestration" where
  "RecordTickSkew skew_ms l =
     l\<lparr>ol_stats := (ol_stats l)\<lparr>st_tick_skew_ms := st_tick_skew_ms (ol_stats l) @ [skew_ms]\<rparr>\<rparr>"

definition RecordLatency :: "real \<Rightarrow> orchestration \<Rightarrow> orchestration" where
  "RecordLatency latency_ms l =
     l\<lparr>ol_stats := (ol_stats l)\<lparr>st_latency_ms := st_latency_ms (ol_stats l) @ [latency_ms]\<rparr>\<rparr>"

text \<open>\<open>backpressure_recovery_ms[event].push_back(ms)\<close>.\<close>

definition push_sample :: "('k \<rightharpoonup> 'a list) \<Rightarrow> 'k \<Rightarrow> 'a \<Rightarrow> ('k \<rightharpoonup> 'a list)" where
  "push_sample m k x = m(k \<mapsto> (case m k of None \<Rightarrow> [] | Some xs \<Rightarrow> xs) @ [x])"

definition HandleBackPressure :: "tick_result \<Rightarrow> time_us \<Rightarrow> orchestration \<Rightarrow> orchestration" where
  "HandleBackPressure result now_utc l =
     (case ol_pending_backpressure l of
        None \<Rightarrow> l
      | Some pending \<Rightarrow>
        (let pending = pending\<lparr>pb_ticks_elapsed := pb_ticks_elapsed pending + 1\<rparr>
         in if tr_backpressure_cleared result
            then let recovery_ms = ToMilliseconds (now_utc - pb_start_time_utc_us pending)
                 in l\<lparr>ol_stats := (ol_stats l)\<lparr>st_backpressure_recovery_ms :=
                          push_sample (st_backpressure_recovery_ms (ol_stats l)) (pb_event pending) recovery_ms\<rparr>,
                      ol_pending_backpressure := None\<rparr>
            else let l = l\<lparr>ol_pending_backpressure := Some pending\<rparr>
                 in if lc_max_backpressure_ticks (ol_config l) < pb_ticks_elapsed pending
                    then l\<lparr>ol_stats := (ol_stats l)\<lparr>st_backpressure_unresolved := True\<rparr>\<rparr>
                    else l))"

section \<open>The loop\<close>

definition tick_interval_us :: "loop_config \<Rightarrow> time_us" where
  "tick_interval_us config = ToMicroseconds (1 / max (lc_target_fps config) 1)"

definition first_deadline :: "loop_config \<Rightarrow> time_us \<Rightarrow> time_us" where
  "first_deadline config now_utc = now_utc + tick_interval_us config"

text \<open>The inner loop: poll until the deadline or until \<open>running_\<close> is false. The result is the next
  unused reading and whether the loop was halted.\<close>

partial_function (option) await_deadline ::
  "(nat \<Rightarrow> time_us) \<Rightarrow> (nat \<Rightarrow> bool) \<Rightarrow> time_us \<Rightarrow> nat \<Rightarrow> (nat \<times> bool) option" where
  "await_deadline clk halted next_deadline i =
     (if halted i then Some (i, True)
      else let remaining_us = next_deadline - clk i
           in if remaining_us \<le> 0 then Some (Suc i, False)
              else await_deadline clk halted next_deadline (Suc i))"

record run_input =
  ri_clk :: "nat \<Rightarrow> time_us"
  ri_halted :: "nat \<Rightarrow> bool"
  ri_gap_ms :: real

definition Run_body :: "run_input \<Rightarrow> nat \<Rightarrow> time_us \<Rightarrow> orchestration \<Rightarrow> time_us \<times> orchestration" where
  "Run_body inp i next_deadline l =
     (let interval_us = tick_interval_us (ol_config l);
          l = (if lc_starvation_threshold_ms (ol_config l) < ri_gap_ms inp
               then l\<lparr>ol_stats := (ol_stats l)\<lparr>st_starvation_detected := True\<rparr>\<rparr> else l);
          actual_utc = ri_clk inp i;
          l = RecordTickSkew (ToMilliseconds (actual_utc - next_deadline)) l;
          result = (case ol_tick_callback l of
              None \<Rightarrow> TickResult
            | Some callback \<Rightarrow> callback \<lparr>tk_tick_index = ol_tick_index l,
                                        tk_scheduled_deadline_utc_us = next_deadline\<rparr>);
          l = (if \<not> tr_deadline_met result
               then l\<lparr>ol_stats := (ol_stats l)\<lparr>st_backpressure_unresolved := True\<rparr>\<rparr> else l);
          l = (case tr_producer_to_renderer_latency_ms result of
              None \<Rightarrow> l | Some latency_ms \<Rightarrow> RecordLatency latency_ms l);
          l = HandleBackPressure result (ri_clk inp (Suc i)) l;
          l = l\<lparr>ol_tick_index := ol_tick_index l + 1\<rparr>;
          next_deadline = next_deadline + interval_us;
          next_deadline = (if interval_us < actual_utc - next_deadline then actual_utc + interval_us
                           else next_deadline)
      in (next_deadline, l))"

text \<open>One turn, when \<open>running_\<close> was true at its head: the actual time of the tick, whether the
  wait was cut short, and the next deadline.\<close>

definition Run_tick ::
  "run_input \<Rightarrow> time_us \<Rightarrow> orchestration \<Rightarrow> (time_us \<times> bool \<times> time_us \<times> orchestration) option" where
  "Run_tick inp next_deadline l =
     (case await_deadline (ri_clk inp) (ri_halted inp) next_deadline 0 of
        None \<Rightarrow> None
      | Some (i, short) \<Rightarrow>
        (let (next_deadline', l') = Run_body inp i next_deadline l
         in Some (ri_clk inp i, short, next_deadline', l')))"

text \<open>A run of turns. The trace holds each tick's deadline, actual time and whether it was short
  short.\<close>

fun Run_ticks :: "run_input list \<Rightarrow> time_us \<Rightarrow> orchestration
    \<Rightarrow> ((time_us \<times> time_us \<times> bool) list \<times> time_us \<times> orchestration) option" where
  "Run_ticks [] deadline l = Some ([], deadline, l)"
| "Run_ticks (inp # inps) deadline l =
     (case Run_tick inp deadline l of
        None \<Rightarrow> None
      | Some (actual, short, deadline', l') \<Rightarrow>
        (case Run_ticks inps deadline' l' of
           None \<Rightarrow> None
         | Some (trace, deadline'', l'') \<Rightarrow> Some ((deadline, actual, short) # trace, deadline'', l'')))"

section \<open>Waiting\<close>

lemma await_deadline_Some:
  "await_deadline clk halted d i = Some r \<Longrightarrow>
    i \<le> fst r \<and> (snd r \<longrightarrow> halted (fst r))
    \<and> (\<not> snd r \<longrightarrow> d \<le> clk (fst r - 1) \<and> \<not> halted (fst r - 1) \<and> i < fst r)"
proof (induction rule: await_deadline.raw_induct [rotated 1, consumes 1])
  case (1 await clk halted d i r)
  show ?case
  proof (cases "halted i \<or> d \<le> clk i")
    case True
    with 1(2) show ?thesis by (cases "halted i") auto
  next
    case False
    with 1(2) have "await clk halted d (Suc i) = Some r" by (simp add: Let_def)
    from 1(1) [OF this] False show ?thesis by auto
  qed
qed

lemma await_deadline_ends:
  assumes "i \<le> k" and "d \<le> clk k \<or> halted k"
  shows "await_deadline clk halted d i \<noteq> None"
  using assms(1)
proof (induction rule: inc_induct)
  case base
  show ?case using assms(2) by (subst await_deadline.simps) (auto simp: Let_def)
next
  case (step n)
  then show ?case by (subst await_deadline.simps) (auto simp: Let_def)
qed

section \<open>One turn\<close>

lemma HandleBackPressure_keeps [simp]:
  "ol_config (HandleBackPressure r t l) = ol_config l"
  "ol_tick_index (HandleBackPressure r t l) = ol_tick_index l"
  "ol_tick_callback (HandleBackPressure r t l) = ol_tick_callback l"
  "st_tick_skew_ms (ol_stats (HandleBackPressure r t l)) = st_tick_skew_ms (ol_stats l)"
  "st_backpressure_events (ol_stats (HandleBackPressure r t l)) = st_backpressure_events (ol_stats l)"
  by (simp_all add: HandleBackPressure_def Let_def split: option.split)

lemma Run_body_deadline:
  assumes "Run_body inp i d l = (d', l')"
  defines "interval \<equiv> tick_interval_us (ol_config l)"
  shows "d' = (if interval < ri_clk inp i - (d + interval) then ri_clk inp i + interval else d + interval)"
    "ol_config l' = ol_config l" "ol_tick_index l' = ol_tick_index l + 1"
    "st_tick_skew_ms (ol_stats l') = st_tick_skew_ms (ol_stats l) @ [ToMilliseconds (ri_clk inp i - d)]"
  using assms by (auto simp: Run_body_def Let_def RecordTickSkew_def RecordLatency_def split: option.splits)

lemma tick_interval_positive: "0 < tick_interval_us config \<longleftrightarrow> lc_target_fps config \<le> 2000000"
proof -
  let ?f = "max (lc_target_fps config) 1"
  have pos: "0 < ?f" by simp
  have "tick_interval_us config = \<lfloor>1000000 / ?f + 1 / 2\<rfloor>"
    using pos by (simp add: tick_interval_us_def ToMicroseconds_def llround_def)
  then have "0 < tick_interval_us config \<longleftrightarrow> 1 \<le> 1000000 / ?f + 1 / 2" by (simp only: zero_less_floor)
  also have "\<dots> \<longleftrightarrow> ?f \<le> 2000000" using pos by (simp add: field_simps)
  finally show ?thesis by simp
qed

lemma Run_tick_Some:
  assumes "Run_tick inp d l = Some (actual, short, d', l')"
  obtains i where "actual = ri_clk inp i" "Run_body inp i d l = (d', l')"
    "short \<longrightarrow> ri_halted inp i" "\<not> short \<longrightarrow> 0 < i \<and> d \<le> ri_clk inp (i - 1)"
proof -
  from assms obtain i where w: "await_deadline (ri_clk inp) (ri_halted inp) d 0 = Some (i, short)"
      and b: "Run_body inp i d l = (d', l')" "actual = ri_clk inp i"
    by (auto simp: Run_tick_def split: option.splits prod.splits)
  from await_deadline_Some [OF w] b show thesis by (intro that [of i]) auto
qed

definition run_deadlines :: "(time_us \<times> time_us \<times> bool) list \<Rightarrow> time_us \<Rightarrow> time_us list" where
  "run_deadlines trace d = map fst trace @ [d]"

text \<open>A tick and the deadline after it.\<close>

definition paced :: "time_us \<Rightarrow> (time_us \<times> time_us \<times> bool) \<Rightarrow> time_us \<Rightarrow> bool" where
  "paced interval t next \<longleftrightarrow>
     fst t + interval \<le> next \<and> fst (snd t) - next \<le> interval
     \<and> (fst (snd t) - fst t \<le> 2 * interval \<longrightarrow> next = fst t + interval)"

lemma Run_body_paced:
  assumes "Run_body inp i d l = (d', l')" "0 < tick_interval_us (ol_config l)"
  shows "paced (tick_interval_us (ol_config l)) (d, ri_clk inp i, short) d'"
  using Run_body_deadline(1) [OF assms(1)] assms(2) by (auto simp: paced_def)

lemma Run_ticks_invariant:
  assumes "Run_ticks inps d l = Some (trace, d', l')" "0 < tick_interval_us (ol_config l)"
    and "\<And>inp. inp \<in> set inps \<Longrightarrow> mono (ri_clk inp)"
  shows "length trace = length inps \<and> ol_tick_index l' = ol_tick_index l + length inps
    \<and> st_tick_skew_ms (ol_stats l') = st_tick_skew_ms (ol_stats l) @ map (\<lambda>t. ToMilliseconds (fst (snd t) - fst t)) trace
    \<and> (\<forall>k < length trace. paced (tick_interval_us (ol_config l)) (trace ! k) (run_deadlines trace d' ! Suc k))
    \<and> (\<forall>t \<in> set trace. \<not> snd (snd t) \<longrightarrow> fst t \<le> fst (snd t))
    \<and> run_deadlines trace d' ! 0 = d"
  using assms
proof (induction inps arbitrary: d l trace)
  case Nil
  then show ?case by (simp add: run_deadlines_def)
next
  case (Cons inp inps)
  then obtain actual short d1 l1 trace1 where
    tick: "Run_tick inp d l = Some (actual, short, d1, l1)" and
    rest: "Run_ticks inps d1 l1 = Some (trace1, d', l')" "trace = (d, actual, short) # trace1"
    by (auto split: option.splits)
  obtain i where i: "actual = ri_clk inp i" "Run_body inp i d l = (d1, l1)"
    "\<not> short \<longrightarrow> 0 < i \<and> d \<le> ri_clk inp (i - 1)" using Run_tick_Some [OF tick] by metis
  note b = Run_body_deadline [OF i(2)]
  have on_time: "\<not> short \<longrightarrow> d \<le> actual"
    using i Cons.prems(3) [of inp] by (metis diff_le_self dual_order.trans list.set_intros(1) monoD)
  have ih: "length trace1 = length inps \<and> ol_tick_index l' = ol_tick_index l1 + length inps
    \<and> st_tick_skew_ms (ol_stats l') = st_tick_skew_ms (ol_stats l1) @ map (\<lambda>t. ToMilliseconds (fst (snd t) - fst t)) trace1
    \<and> (\<forall>k < length trace1. paced (tick_interval_us (ol_config l1)) (trace1 ! k) (run_deadlines trace1 d' ! Suc k))
    \<and> (\<forall>t \<in> set trace1. \<not> snd (snd t) \<longrightarrow> fst t \<le> fst (snd t))
    \<and> run_deadlines trace1 d' ! 0 = d1"
    using Cons.IH [OF rest(1)] Cons.prems(2,3) b(2) by simp
  have paced1: "paced (tick_interval_us (ol_config l)) (d, actual, short) (run_deadlines trace1 d' ! 0)"
    using Run_body_paced [OF i(2) Cons.prems(2)] i(1) ih by simp
  have shift: "run_deadlines trace d' ! Suc k = run_deadlines trace1 d' ! k" for k
    by (simp add: run_deadlines_def rest(2))
  have "paced (tick_interval_us (ol_config l)) (trace ! k) (run_deadlines trace d' ! Suc k)"
    if "k < length trace" for k
    using that ih paced1 b(2) unfolding shift rest(2) by (cases k) (simp_all add: run_deadlines_def)
  then show ?case using ih on_time b i(1) rest(2) by (simp add: run_deadlines_def)
qed

section \<open>Back pressure\<close>

fun total :: "('k \<rightharpoonup> nat) \<Rightarrow> 'k list \<Rightarrow> nat" where
  "total m [] = 0"
| "total m (k # ks) = (case m k of None \<Rightarrow> 0 | Some n \<Rightarrow> n) + total m ks"

text \<open>How many reports there were, how many recoveries were timed.\<close>

definition all_events :: "back_pressure_event list" where
  "all_events = [kUnderrun, kOverrun, kStall]"

definition reports :: "orchestration \<Rightarrow> nat" where
  "reports l = total (st_backpressure_events (ol_stats l)) all_events"

definition recoveries :: "orchestration \<Rightarrow> nat" where
  "recoveries l = total (\<lambda>k. map_option length (st_backpressure_recovery_ms (ol_stats l) k)) all_events"

datatype loop_op = Turn run_input time_us nat | Report back_pressure_event time_us | SetCallback "(tick_context \<Rightarrow> tick_result) option"

fun loop_apply :: "loop_op \<Rightarrow> orchestration \<Rightarrow> orchestration" where
  "loop_apply (Turn inp d i) l = snd (Run_body inp i d l)"
| "loop_apply (Report e t) l = ReportBackPressureEvent e t l"
| "loop_apply (SetCallback cb) l = SetTickCallback cb l"

definition pressure_inv :: "orchestration \<Rightarrow> bool" where
  "pressure_inv l \<longleftrightarrow>
     recoveries l + (if ol_pending_backpressure l = None then 0 else 1) \<le> reports l
     \<and> (case ol_pending_backpressure l of None \<Rightarrow> True
        | Some p \<Rightarrow> lc_max_backpressure_ticks (ol_config l) < pb_ticks_elapsed p \<longrightarrow>
            st_backpressure_unresolved (ol_stats l))"

lemma reports_increment: "reports (ReportBackPressureEvent e t l) = reports l + 1"
  by (cases e) (auto simp: reports_def all_events_def ReportBackPressureEvent_def increment_entry_def
      split: option.split)

lemma HandleBackPressure_pressure:
  assumes "pressure_inv l"
  shows "pressure_inv (HandleBackPressure r t l)"
proof (cases "ol_pending_backpressure l")
  case None
  with assms show ?thesis by (simp add: HandleBackPressure_def)
next
  case (Some p)
  show ?thesis
  proof (cases "tr_backpressure_cleared r")
    case True
    with Some assms show ?thesis
      by (cases "pb_event p")
        (simp_all add: pressure_inv_def HandleBackPressure_def Let_def recoveries_def reports_def
          all_events_def push_sample_def split: option.splits)
  next
    case False
    with Some assms show ?thesis
      by (simp add: pressure_inv_def HandleBackPressure_def Let_def recoveries_def reports_def)
  qed
qed

lemma pressure_inv_update:
  assumes "pressure_inv l"
  shows "pressure_inv (RecordTickSkew x l)" "pressure_inv (RecordLatency x l)"
    "pressure_inv (l\<lparr>ol_tick_index := n\<rparr>)"
    "pressure_inv (l\<lparr>ol_stats := (ol_stats l)\<lparr>st_backpressure_unresolved := True\<rparr>\<rparr>)"
    "pressure_inv (l\<lparr>ol_stats := (ol_stats l)\<lparr>st_starvation_detected := True\<rparr>\<rparr>)"
    "pressure_inv (SetTickCallback cb l)"
  using assms
  by (auto simp: pressure_inv_def RecordTickSkew_def RecordLatency_def SetTickCallback_def recoveries_def
      reports_def split: option.splits)

lemma pressure_inv_apply: "pressure_inv l \<Longrightarrow> pressure_inv (loop_apply op l)"
proof (cases op)
  case (Turn inp d i)
  assume "pressure_inv l"
  then show ?thesis
    using Turn
    by (simp add: Run_body_def Let_def pressure_inv_update HandleBackPressure_pressure split: option.split)
next
  case (Report e t)
  assume inv: "pressure_inv l"
  then show ?thesis
    using Report reports_increment [of e t l]
    by (simp add: pressure_inv_def) (simp add: ReportBackPressureEvent_def recoveries_def)
next
  case (SetCallback cb)
  assume "pressure_inv l"
  with SetCallback show ?thesis by (simp add: pressure_inv_update)
qed

lemma pressure_inv_run: "pressure_inv l \<Longrightarrow> pressure_inv (foldl (\<lambda>l op. loop_apply op l) l ops)"
  by (induction ops arbitrary: l) (simp_all add: pressure_inv_apply)

lemma pressure_inv_initial: "pressure_inv (OrchestrationLoop config cb)"
  by (simp add: pressure_inv_def OrchestrationLoop_def recoveries_def all_events_def empty_stats_def)

lemma HandleBackPressure_iterate:
  assumes "\<not> tr_backpressure_cleared r"
  shows "let l2 = (HandleBackPressure r u ^^ n) (ReportBackPressureEvent e t l)
    in ol_pending_backpressure l2 = Some \<lparr>pb_event = e, pb_start_tick = ol_tick_index l,
         pb_start_time_utc_us = t, pb_ticks_elapsed = n\<rparr>
      \<and> ol_config l2 = ol_config l
      \<and> st_backpressure_recovery_ms (ol_stats l2) = st_backpressure_recovery_ms (ol_stats l)
      \<and> (st_backpressure_unresolved (ol_stats l2) \<longleftrightarrow>
           st_backpressure_unresolved (ol_stats l) \<or> lc_max_backpressure_ticks (ol_config l) < n)"
proof (induction n)
  case 0
  then show ?case by (simp add: ReportBackPressureEvent_def)
next
  case (Suc n)
  let ?l2 = "(HandleBackPressure r u ^^ n) (ReportBackPressureEvent e t l)"
  have "(HandleBackPressure r u ^^ Suc n) (ReportBackPressureEvent e t l) = HandleBackPressure r u ?l2" by simp
  then show ?case using Suc assms by (auto simp: HandleBackPressure_def Let_def)
qed

section \<open>Properties\<close>

text \<open>
  C30. The loop keeps its pace: over any number of turns with a clock that does not run backwards, no
  tick starts before its deadline unless the loop is being halted, successive deadlines are at least
  one interval apart, after each tick the next deadline is at most one interval behind the tick, and
  as long as a tick is at most two intervals late the next deadline is exactly one interval after the
  last, so lateness does not drift. Every tick has its index and its recorded skew.
\<close>

theorem loop_pacing:
  assumes "Run_ticks inps d l = Some (trace, d', l')" and "lc_target_fps (ol_config l) \<le> 2000000"
    and "\<And>inp. inp \<in> set inps \<Longrightarrow> mono (ri_clk inp)"
  shows "(\<forall>t \<in> set trace. \<not> snd (snd t) \<longrightarrow> fst t \<le> fst (snd t))
    \<and> (\<forall>k < length trace. let interval = tick_interval_us (ol_config l); (deadline, actual, short) = trace ! k;
           next_deadline = run_deadlines trace d' ! Suc k
         in deadline + interval \<le> next_deadline \<and> actual - next_deadline \<le> interval
            \<and> (actual - deadline \<le> 2 * interval \<longrightarrow> next_deadline = deadline + interval))
    \<and> length trace = length inps \<and> ol_tick_index l' = ol_tick_index l + length inps
    \<and> st_tick_skew_ms (ol_stats l')
        = st_tick_skew_ms (ol_stats l) @ map (\<lambda>(deadline, actual, short). ToMilliseconds (actual - deadline)) trace"
proof -
  have i: "0 < tick_interval_us (ol_config l)" using assms(2) by (simp add: tick_interval_positive)
  from Run_ticks_invariant [OF assms(1) i assms(3)] show ?thesis
    by (auto simp: paced_def Let_def split_beta)
qed

definition exact_input :: run_input where
  "exact_input = \<lparr>ri_clk = \<lambda>i. if i = 0 then 33333 else 40000, ri_halted = \<lambda>_. False, ri_gap_ms = 33\<rparr>"

theorem loop_pacing_witness:
  "\<exists>trace d' l'. Run_ticks [exact_input] 33333 (OrchestrationLoop LoopConfig None) = Some (trace, d', l')
     \<and> ol_tick_index l' = 1"
proof -
  let ?l = "OrchestrationLoop LoopConfig None"
  have w: "await_deadline (ri_clk exact_input) (ri_halted exact_input) 33333 0 = Some (1, False)"
    by (subst await_deadline.simps) (simp add: exact_input_def)
  then obtain trace d' l' where r: "Run_ticks [exact_input] 33333 ?l = Some (trace, d', l')"
    by (cases "Run_body exact_input 1 33333 ?l") (simp add: Run_tick_def)
  have f: "lc_target_fps (ol_config ?l) \<le> 2000000" by (simp add: OrchestrationLoop_def LoopConfig_def)
  have m: "mono (ri_clk inp)" if "inp \<in> set [exact_input]" for inp
    using that by (simp add: exact_input_def mono_def)
  from loop_pacing [OF r f m] r show ?thesis by (auto simp: OrchestrationLoop_def)
qed

text \<open>
  Back pressure is accounted for: over any sequence of reports and turns there are never more
  timed recoveries than reports, and a report pending for more turns than allowed has set the
  unresolved flag. After a report, n turns without relief leave it pending with n turns counted and
  raise the flag exactly from the turn after the allowed number on; the turn that brings relief
  records the time since the report under its event and clears it, but not the flag.
\<close>

theorem backpressure_bookkeeping:
  assumes "l = foldl (\<lambda>l op. loop_apply op l) (OrchestrationLoop config cb) ops"
    and "\<not> tr_backpressure_cleared r" and "tr_backpressure_cleared r'"
  shows "recoveries l + (if ol_pending_backpressure l = None then 0 else 1) \<le> reports l
    \<and> (let l2 = (HandleBackPressure r u ^^ n) (ReportBackPressureEvent e t l);
           l3 = HandleBackPressure r' v l2
       in (st_backpressure_unresolved (ol_stats l2) \<longleftrightarrow>
             st_backpressure_unresolved (ol_stats l) \<or> lc_max_backpressure_ticks (ol_config l) < n)
          \<and> ol_pending_backpressure l3 = None
          \<and> st_backpressure_recovery_ms (ol_stats l3)
              = push_sample (st_backpressure_recovery_ms (ol_stats l)) e (ToMilliseconds (v - t))
          \<and> st_backpressure_unresolved (ol_stats l3) = st_backpressure_unresolved (ol_stats l2))"
proof -
  have "pressure_inv l" using assms(1) pressure_inv_run [OF pressure_inv_initial] by simp
  moreover note it = HandleBackPressure_iterate [OF assms(2), where u = u and n = n and e = e and t = t and l = l]
  ultimately show ?thesis
    using assms(3) by (auto simp: pressure_inv_def Let_def HandleBackPressure_def)
qed

theorem backpressure_bookkeeping_witness:
  "st_backpressure_unresolved (ol_stats ((HandleBackPressure TickResult 9 ^^ 4)
     (ReportBackPressureEvent kUnderrun 5 (OrchestrationLoop LoopConfig None))))"
proof -
  let ?r' = "TickResult\<lparr>tr_backpressure_cleared := True\<rparr>"
  have n: "\<not> tr_backpressure_cleared TickResult" and y: "tr_backpressure_cleared ?r'"
    by (simp_all add: TickResult_def)
  have l: "OrchestrationLoop LoopConfig None
      = foldl (\<lambda>l op. loop_apply op l) (OrchestrationLoop LoopConfig None) []" by simp
  have "lc_max_backpressure_ticks (ol_config (OrchestrationLoop LoopConfig None)) < 4"
    by (simp add: OrchestrationLoop_def LoopConfig_def)
  with backpressure_bookkeeping [OF l n y, where u = 9 and n = 4 and e = kUnderrun and t = 5] show ?thesis
    unfolding Let_def by blast
qed

end
