(* ===== verification/MetricsExporter.thy ===== *)
theory MetricsExporter
  imports Bounded_Queue Percentile "HOL-Library.Mapping" "HOL-Library.List_Lexorder" "HOL-Library.Char_ord"
begin

text \<open>
  The metrics exporter (\<open>include/retrovue/telemetry/MetricsExporter.h\<close>,
  \<open>src/telemetry/MetricsExporter.cpp\<close>): the event queue, the submissions, the worker that applies
  events to the metric tables, start and stop, and the text served at \<open>/metrics\<close>. The tables are
  \<open>std::map\<close>s, iterated in key order, and are mappings here. Submissions and worker passes are
  taken one at a time; the queue's code supports a single submitting thread only. The stream format
  of a \<open>double\<close> is the parameter \<open>show_double\<close>.
\<close>

section \<open>Data\<close>

datatype channel_state = STOPPED_CHANNEL | BUFFERING | READY | ERROR_STATE

fun ChannelStateToString :: "channel_state \<Rightarrow> string" where
  "ChannelStateToString STOPPED_CHANNEL = ''stopped''"
| "ChannelStateToString BUFFERING = ''buffering''"
| "ChannelStateToString READY = ''ready''"
| "ChannelStateToString ERROR_STATE = ''error''"

fun ChannelStateToValue :: "channel_state \<Rightarrow> int" where
  "ChannelStateToValue STOPPED_CHANNEL = 0"
| "ChannelStateToValue BUFFERING = 1"
| "ChannelStateToValue READY = 2"
| "ChannelStateToValue ERROR_STATE = 3"

record channel_metrics =
  cm_state :: channel_state
  cm_buffer_depth_frames :: nat
  cm_frame_gap_seconds :: real
  cm_decode_failure_count :: nat
  cm_corrections_total :: nat

definition ChannelMetrics :: channel_metrics where
  "ChannelMetrics = \<lparr>cm_state = STOPPED_CHANNEL, cm_buffer_depth_frames = 0, cm_frame_gap_seconds = 0,
     cm_decode_failure_count = 0, cm_corrections_total = 0\<rparr>"

datatype transport = kGrpcStream | kScrape | kFile

text \<open>The order of the enumerators, which is the key order of the transport table.\<close>

fun transport_value :: "transport \<Rightarrow> nat" where
  "transport_value kGrpcStream = 0"
| "transport_value kScrape = 1"
| "transport_value kFile = 2"

lemma transport_value_inject: "transport_value a = transport_value b \<longleftrightarrow> a = b"
  by (cases a; cases b) simp_all

instantiation transport :: linorder
begin

definition less_eq_transport :: "transport \<Rightarrow> transport \<Rightarrow> bool" where
  "less_eq_transport a b \<longleftrightarrow> transport_value a \<le> transport_value b"

definition less_transport :: "transport \<Rightarrow> transport \<Rightarrow> bool" where
  "less_transport a b \<longleftrightarrow> transport_value a < transport_value b"

instance
  by standard (auto simp: less_eq_transport_def less_transport_def transport_value_inject)

end

text \<open>\<open>Event\<close>: a tag and the fields that belong to it.\<close>

datatype metric_event =
    UpdateChannel int channel_metrics
  | RemoveChannel int
  | RegisterDescriptor string string
  | DeprecateDescriptor string
  | RecordTransport transport bool real

record event_queue =
  eq_capacity :: usize
  eq_buffer :: "metric_event list"
  eq_head :: usize
  eq_tail :: usize

record transport_data =
  td_deliveries :: nat
  td_failures :: nat
  td_latencies_ms :: "real list"

definition empty_transport :: transport_data where
  "empty_transport = \<lparr>td_deliveries = 0, td_failures = 0, td_latencies_ms = []\<rparr>"

record metric_tables =
  mt_channel_metrics :: "(int, channel_metrics) mapping"
  mt_descriptor_versions :: "(string, string) mapping"
  mt_descriptor_deprecated :: "(string, bool) mapping"
  mt_transport_data :: "(transport, transport_data) mapping"

record exporter =
  me_port :: int
  me_enable_http :: bool
  me_running :: bool
  me_stop_requested :: bool
  me_http_started :: bool
  me_queue_overflow_total :: nat
  me_event_queue :: event_queue
  me_submitted_events :: nat
  me_processed_events :: nat
  me_worker :: bool
  me_tables :: metric_tables

section \<open>The event queue\<close>

definition EventQueue :: "usize \<Rightarrow> event_queue" where
  "EventQueue capacity = \<lparr>eq_capacity = capacity,
     eq_buffer = replicate (unat capacity) (UpdateChannel 0 ChannelMetrics), eq_head = 0, eq_tail = 0\<rparr>"

definition EventQueue_Push :: "event_queue \<Rightarrow> metric_event \<Rightarrow> bool \<times> event_queue" where
  "EventQueue_Push q event =
     (let tail = eq_tail q; head = eq_head q; next = (tail + 1) mod eq_capacity q
      in if next = head then (False, q)
         else (True, q\<lparr>eq_buffer := (eq_buffer q)[unat tail := event], eq_tail := next\<rparr>))"

definition EventQueue_Pop :: "event_queue \<Rightarrow> metric_event option \<times> event_queue" where
  "EventQueue_Pop q =
     (let head = eq_head q; tail = eq_tail q
      in if head = tail then (None, q)
         else (Some (eq_buffer q ! unat head), q\<lparr>eq_head := (head + 1) mod eq_capacity q\<rparr>))"

definition EventQueue_Empty :: "event_queue \<Rightarrow> bool" where
  "EventQueue_Empty q \<longleftrightarrow> eq_head q = eq_tail q"

section \<open>The tables\<close>

definition empty_tables :: metric_tables where
  "empty_tables = \<lparr>mt_channel_metrics = Mapping.empty, mt_descriptor_versions = Mapping.empty,
     mt_descriptor_deprecated = Mapping.empty, mt_transport_data = Mapping.empty\<rparr>"

text \<open>\<open>data.latencies_ms.push_back(..)\<close> and the counter of the outcome.\<close>

definition record_transport :: "transport \<Rightarrow> bool \<Rightarrow> real \<Rightarrow> metric_tables \<Rightarrow> metric_tables" where
  "record_transport transport success latency_ms t =
     (let data = (case Mapping.lookup (mt_transport_data t) transport of
                    None \<Rightarrow> empty_transport | Some data \<Rightarrow> data);
          data = data\<lparr>td_latencies_ms := td_latencies_ms data @ [latency_ms]\<rparr>;
          data = (if success then data\<lparr>td_deliveries := td_deliveries data + 1\<rparr>
                  else data\<lparr>td_failures := td_failures data + 1\<rparr>)
      in t\<lparr>mt_transport_data := Mapping.update transport data (mt_transport_data t)\<rparr>)"

fun ProcessEvent :: "metric_event \<Rightarrow> metric_tables \<Rightarrow> metric_tables" where
  "ProcessEvent (UpdateChannel channel_id metrics) t =
     t\<lparr>mt_channel_metrics := Mapping.update channel_id metrics (mt_channel_metrics t)\<rparr>"
| "ProcessEvent (RemoveChannel channel_id) t =
     t\<lparr>mt_channel_metrics := Mapping.delete channel_id (mt_channel_metrics t)\<rparr>"
| "ProcessEvent (RegisterDescriptor name version) t =
     t\<lparr>mt_descriptor_versions := Mapping.update name version (mt_descriptor_versions t),
       mt_descriptor_deprecated := Mapping.update name False (mt_descriptor_deprecated t)\<rparr>"
| "ProcessEvent (DeprecateDescriptor name) t =
     t\<lparr>mt_descriptor_deprecated := Mapping.update name True (mt_descriptor_deprecated t)\<rparr>"
| "ProcessEvent (RecordTransport transport success latency_ms) t = record_transport transport success latency_ms t"

section \<open>Submitting\<close>

definition MetricsExporter :: "int \<Rightarrow> bool \<Rightarrow> exporter" where
  "MetricsExporter port enable_http =
     \<lparr>me_port = port, me_enable_http = enable_http, me_running = False, me_stop_requested = False,
      me_http_started = False, me_queue_overflow_total = 0, me_event_queue = EventQueue 1024,
      me_submitted_events = 0, me_processed_events = 0, me_worker = False, me_tables = empty_tables\<rparr>"

definition enqueue :: "metric_event \<Rightarrow> exporter \<Rightarrow> bool \<times> exporter" where
  "enqueue event x =
     (let (ok, q) = EventQueue_Push (me_event_queue x) event
      in if \<not> ok then (False, x\<lparr>me_queue_overflow_total := me_queue_overflow_total x + 1\<rparr>)
         else (True, x\<lparr>me_event_queue := q, me_submitted_events := me_submitted_events x + 1\<rparr>))"

definition SubmitChannelMetrics :: "int \<Rightarrow> channel_metrics \<Rightarrow> exporter \<Rightarrow> bool \<times> exporter" where
  "SubmitChannelMetrics channel_id metrics x =
     (if \<not> me_running x
      then (True, x\<lparr>me_tables := (me_tables x)\<lparr>mt_channel_metrics :=
              Mapping.update channel_id metrics (mt_channel_metrics (me_tables x))\<rparr>\<rparr>)
      else enqueue (UpdateChannel channel_id metrics) x)"

definition SubmitChannelRemoval :: "int \<Rightarrow> exporter \<Rightarrow> exporter" where
  "SubmitChannelRemoval channel_id x =
     (if \<not> me_running x
      then x\<lparr>me_tables := (me_tables x)\<lparr>mt_channel_metrics :=
              Mapping.delete channel_id (mt_channel_metrics (me_tables x))\<rparr>\<rparr>
      else snd (enqueue (RemoveChannel channel_id) x))"

definition RegisterMetricDescriptor :: "string \<Rightarrow> string \<Rightarrow> exporter \<Rightarrow> exporter" where
  "RegisterMetricDescriptor name version x =
     (if \<not> me_running x
      then x\<lparr>me_tables := (me_tables x)\<lparr>
              mt_descriptor_versions := Mapping.update name version (mt_descriptor_versions (me_tables x)),
              mt_descriptor_deprecated := Mapping.update name False (mt_descriptor_deprecated (me_tables x))\<rparr>\<rparr>
      else snd (enqueue (RegisterDescriptor name version) x))"

definition DeprecateMetricDescriptor :: "string \<Rightarrow> exporter \<Rightarrow> exporter" where
  "DeprecateMetricDescriptor name x =
     (if \<not> me_running x
      then x\<lparr>me_tables := (me_tables x)\<lparr>
              mt_descriptor_deprecated := Mapping.update name True (mt_descriptor_deprecated (me_tables x))\<rparr>\<rparr>
      else snd (enqueue (DeprecateDescriptor name) x))"

definition RecordDeliveryStatus :: "transport \<Rightarrow> bool \<Rightarrow> real \<Rightarrow> exporter \<Rightarrow> exporter" where
  "RecordDeliveryStatus transport success latency_ms x =
     (if \<not> me_running x
      then x\<lparr>me_tables := record_transport transport success latency_ms (me_tables x)\<rparr>
      else snd (enqueue (RecordTransport transport success latency_ms) x))"

definition GetChannelMetrics :: "int \<Rightarrow> exporter \<Rightarrow> channel_metrics option" where
  "GetChannelMetrics channel_id x = Mapping.lookup (mt_channel_metrics (me_tables x)) channel_id"

section \<open>The worker, start and stop\<close>

text \<open>One pass of \<open>WorkerLoop\<close>: \<open>None\<close> when the loop ends; an empty queue just waits.\<close>

definition WorkerLoop_pass :: "exporter \<Rightarrow> exporter option" where
  "WorkerLoop_pass x =
     (if me_stop_requested x \<and> EventQueue_Empty (me_event_queue x) then None
      else case EventQueue_Pop (me_event_queue x) of
        (Some event, q) \<Rightarrow>
          Some (x\<lparr>me_event_queue := q, me_tables := ProcessEvent event (me_tables x),
                  me_processed_events := me_processed_events x + 1\<rparr>)
      | (None, q) \<Rightarrow> Some x)"

text \<open>The worker run to its end, as \<open>Stop\<close> waits for.\<close>

partial_function (option) WorkerLoop :: "exporter \<Rightarrow> exporter option" where
  "WorkerLoop x = (case WorkerLoop_pass x of None \<Rightarrow> Some x | Some x' \<Rightarrow> WorkerLoop x')"

text \<open>\<open>http_ok\<close> is what \<open>MetricsHTTPServer::Start\<close> answers.\<close>

definition Exporter_Start :: "bool \<Rightarrow> bool \<Rightarrow> exporter \<Rightarrow> bool \<times> exporter" where
  "Exporter_Start http_ok start_http_server x =
     (if me_running x then (False, x)
      else let x = x\<lparr>me_running := True, me_stop_requested := False\<rparr>
      in if me_enable_http x \<and> start_http_server \<and> \<not> http_ok then (False, x\<lparr>me_running := False\<rparr>)
      else let x = (if me_enable_http x \<and> start_http_server then x\<lparr>me_http_started := True\<rparr> else x)
      in (True, x\<lparr>me_worker := True\<rparr>))"

definition Exporter_Stop :: "exporter \<Rightarrow> exporter option" where
  "Exporter_Stop x =
     (if \<not> me_running x then Some x
      else case WorkerLoop (x\<lparr>me_running := False, me_stop_requested := True\<rparr>) of
        None \<Rightarrow> None
      | Some x \<Rightarrow> Some (x\<lparr>me_worker := False,
                         me_http_started := (me_http_started x \<and> \<not> me_enable_http x)\<rparr>))"

text \<open>\<open>WaitUntilDrainedForTest\<close>: at poll \<open>n\<close> the clock shows \<open>fst (polls n)\<close> and the exporter, on which
  other threads work meanwhile, is \<open>snd (polls n)\<close>.\<close>

definition drained :: "exporter \<Rightarrow> bool" where
  "drained x \<longleftrightarrow> me_submitted_events x \<le> me_processed_events x \<and> EventQueue_Empty (me_event_queue x)"

partial_function (option) drain_polls :: "int \<Rightarrow> (nat \<Rightarrow> int \<times> exporter) \<Rightarrow> nat \<Rightarrow> bool option" where
  "drain_polls deadline polls n =
     (if fst (polls n) < deadline
      then if drained (snd (polls n)) then Some True else drain_polls deadline polls (Suc n)
      else Some False)"

definition WaitUntilDrainedForTest :: "int \<Rightarrow> int \<Rightarrow> (nat \<Rightarrow> int \<times> exporter) \<Rightarrow> exporter \<Rightarrow> bool option" where
  "WaitUntilDrainedForTest now timeout polls x =
     (if \<not> me_running x then Some True else drain_polls (now + timeout) polls 0)"

section \<open>The queue keeps the contract of a bounded queue\<close>

definition eq_wf :: "event_queue \<Rightarrow> bool" where
  "eq_wf q \<longleftrightarrow> 0 < unat (eq_capacity q) \<and> length (eq_buffer q) = unat (eq_capacity q)
     \<and> unat (eq_head q) < unat (eq_capacity q) \<and> unat (eq_tail q) < unat (eq_capacity q)"

definition eq_events :: "event_queue \<Rightarrow> metric_event list" where
  "eq_events q = ring_list (unat (eq_capacity q)) (unat (eq_head q)) (unat (eq_tail q)) (eq_buffer q)"

definition eq_room :: "event_queue \<Rightarrow> nat" where
  "eq_room q = unat (eq_capacity q) - 1"

lemma unat_next:
  fixes i cap :: usize
  assumes "unat i < unat cap"
  shows "unat ((i + 1) mod cap) = Suc (unat i) mod unat cap"
proof -
  have "unat cap < 2 ^ LENGTH(64)" by (rule unsigned_less)
  with assms have "Suc (unat i) < 2 ^ 64" by simp
  then have "unat (i + 1) = Suc (unat i)" by (simp add: unat_word_ariths)
  then show ?thesis by (simp add: unat_mod)
qed

lemma unat_next_less: "eq_wf q \<Longrightarrow> unat i < unat (eq_capacity q) \<Longrightarrow> unat ((i + 1) mod eq_capacity q) < unat (eq_capacity q)"
  by (simp add: unat_next eq_wf_def)

lemma next_full_iff:
  assumes "eq_wf q"
  shows "(eq_tail q + 1) mod eq_capacity q = eq_head q \<longleftrightarrow> length (eq_events q) = eq_room q"
proof -
  note wf = assms [unfolded eq_wf_def]
  have "(eq_tail q + 1) mod eq_capacity q = eq_head q
      \<longleftrightarrow> Suc (unat (eq_tail q)) mod unat (eq_capacity q) = unat (eq_head q)"
    using unat_next [of "eq_tail q" "eq_capacity q"] wf by (metis word_unat_eq_iff)
  then show ?thesis
    using wf ring_full_iff [of "unat (eq_head q)" "unat (eq_capacity q)" "unat (eq_tail q)"]
    by (auto simp: eq_events_def eq_room_def length_ring_list)
qed

lemma eq_bounded: "eq_wf q \<Longrightarrow> length (eq_events q) \<le> eq_room q"
  using ring_count_less [of "unat (eq_head q)" "unat (eq_capacity q)" "unat (eq_tail q)"]
  by (simp add: eq_wf_def eq_events_def eq_room_def length_ring_list)

lemma eq_empty_iff: "eq_wf q \<Longrightarrow> EventQueue_Empty q \<longleftrightarrow> eq_events q = []"
  using ring_count_0 [of "unat (eq_head q)" "unat (eq_capacity q)" "unat (eq_tail q)"]
    length_ring_list [of "unat (eq_capacity q)" "unat (eq_head q)" "unat (eq_tail q)" "eq_buffer q"]
  by (auto simp: eq_wf_def EventQueue_Empty_def eq_events_def word_unat_eq_iff ring_list_Nil)

interpretation events: bounded_queue EventQueue_Push EventQueue_Pop eq_events eq_room eq_wf
proof unfold_locales
  fix q x y ys
  assume wf: "eq_wf q"
  note d = wf [unfolded eq_wf_def]
  show "length (eq_events q) \<le> eq_room q" using eq_bounded [OF wf] .
  show "EventQueue_Push q x = (False, q)" if "length (eq_events q) = eq_room q"
    using that next_full_iff [OF wf] by (simp add: EventQueue_Push_def Let_def)
  show "EventQueue_Pop q = (None, q)" if "eq_events q = []"
    using that eq_empty_iff [OF wf] by (simp add: EventQueue_Pop_def EventQueue_Empty_def Let_def)
  show "\<exists>q'. EventQueue_Push q x = (True, q') \<and> eq_events q' = eq_events q @ [x]
      \<and> eq_room q' = eq_room q \<and> eq_wf q'" if room: "length (eq_events q) < eq_room q"
  proof -
    let ?q' = "q\<lparr>eq_buffer := (eq_buffer q)[unat (eq_tail q) := x], eq_tail := (eq_tail q + 1) mod eq_capacity q\<rparr>"
    have nf: "(eq_tail q + 1) mod eq_capacity q \<noteq> eq_head q" using room next_full_iff [OF wf] by simp
    then have "Suc (unat (eq_tail q)) mod unat (eq_capacity q) \<noteq> unat (eq_head q)"
      using unat_next [of "eq_tail q" "eq_capacity q"] d by (metis word_unat_eq_iff)
    then have "eq_events ?q' = eq_events q @ [x]"
      using d by (simp add: eq_events_def unat_next ring_list_push)
    moreover have "eq_wf ?q'" using d unat_next_less [OF wf, of "eq_tail q"] by (simp add: eq_wf_def)
    ultimately show ?thesis using nf by (simp add: EventQueue_Push_def Let_def eq_room_def)
  qed
  show "\<exists>q'. EventQueue_Pop q = (Some y, q') \<and> eq_events q' = ys \<and> eq_room q' = eq_room q \<and> eq_wf q'"
    if Cons: "eq_events q = y # ys"
  proof -
    let ?q' = "q\<lparr>eq_head := (eq_head q + 1) mod eq_capacity q\<rparr>"
    have ne: "eq_head q \<noteq> eq_tail q" using Cons eq_empty_iff [OF wf] by (simp add: EventQueue_Empty_def)
    then have "eq_events q = eq_buffer q ! unat (eq_head q) # eq_events ?q'"
      using d by (simp add: eq_events_def unat_next ring_list_pop word_unat_eq_iff)
    moreover have "eq_wf ?q'" using d unat_next_less [OF wf, of "eq_head q"] by (simp add: eq_wf_def)
    ultimately show ?thesis using ne Cons by (simp add: EventQueue_Pop_def Let_def eq_room_def)
  qed
qed

lemma EventQueue_wf: "1 < unat c \<Longrightarrow> eq_wf (EventQueue c) \<and> eq_events (EventQueue c) = [] \<and> eq_room (EventQueue c) = unat c - 1"
  by (simp add: eq_wf_def EventQueue_def eq_events_def eq_room_def ring_list_Nil)

section \<open>Queued and synchronous submission agree\<close>

text \<open>A submission as the event it stands for.\<close>

fun submit :: "metric_event \<Rightarrow> exporter \<Rightarrow> exporter" where
  "submit (UpdateChannel channel_id metrics) x = snd (SubmitChannelMetrics channel_id metrics x)"
| "submit (RemoveChannel channel_id) x = SubmitChannelRemoval channel_id x"
| "submit (RegisterDescriptor name version) x = RegisterMetricDescriptor name version x"
| "submit (DeprecateDescriptor name) x = DeprecateMetricDescriptor name x"
| "submit (RecordTransport transport success latency_ms) x = RecordDeliveryStatus transport success latency_ms x"

lemma submit_eq:
  "submit event x = (if me_running x then snd (enqueue event x)
     else x\<lparr>me_tables := ProcessEvent event (me_tables x)\<rparr>)"
  by (cases event)
    (simp_all add: SubmitChannelMetrics_def SubmitChannelRemoval_def RegisterMetricDescriptor_def
      DeprecateMetricDescriptor_def RecordDeliveryStatus_def)

text \<open>What the tables will be when the queue has been worked off.\<close>

definition settled :: "exporter \<Rightarrow> metric_tables" where
  "settled x = fold ProcessEvent (eq_events (me_event_queue x)) (me_tables x)"

definition exporter_inv :: "exporter \<Rightarrow> bool" where
  "exporter_inv x \<longleftrightarrow> eq_wf (me_event_queue x)
     \<and> me_submitted_events x = me_processed_events x + length (eq_events (me_event_queue x))
     \<and> (me_worker x \<longleftrightarrow> me_running x) \<and> (me_running x \<longrightarrow> \<not> me_stop_requested x)
     \<and> (\<not> me_running x \<longrightarrow> eq_events (me_event_queue x) = [])"

definition refused :: "metric_event \<Rightarrow> exporter \<Rightarrow> bool" where
  "refused event x \<longleftrightarrow> me_running x \<and> length (eq_events (me_event_queue x)) = eq_room (me_event_queue x)"

lemma submit_step:
  assumes "exporter_inv x"
  shows "exporter_inv (submit event x)"
    "settled (submit event x) = (if refused event x then settled x else ProcessEvent event (settled x))"
    "me_queue_overflow_total (submit event x) = me_queue_overflow_total x + (if refused event x then 1 else 0)"
    "me_running (submit event x) = me_running x" "eq_room (me_event_queue (submit event x)) = eq_room (me_event_queue x)"
proof -
  note inv = assms [unfolded exporter_inv_def]
  have "exporter_inv (submit event x)
    \<and> settled (submit event x) = (if refused event x then settled x else ProcessEvent event (settled x))
    \<and> me_queue_overflow_total (submit event x) = me_queue_overflow_total x + (if refused event x then 1 else 0)
    \<and> me_running (submit event x) = me_running x
    \<and> eq_room (me_event_queue (submit event x)) = eq_room (me_event_queue x)"
  proof (cases "me_running x")
    case False
    with inv show ?thesis by (simp add: submit_eq exporter_inv_def settled_def refused_def)
  next
    case run: True
    show ?thesis
    proof (cases "refused event x")
      case True
      with inv have "EventQueue_Push (me_event_queue x) event = (False, me_event_queue x)"
        by (simp add: refused_def events.push_full)
      with run True inv show ?thesis by (simp add: submit_eq enqueue_def exporter_inv_def settled_def)
    next
      case False
      with inv run eq_bounded [of "me_event_queue x"]
      have "length (eq_events (me_event_queue x)) < eq_room (me_event_queue x)" by (simp add: refused_def)
      with inv events.push_room [of "me_event_queue x" event] obtain q' where
        "EventQueue_Push (me_event_queue x) event = (True, q')" "eq_wf q'"
        "eq_events q' = eq_events (me_event_queue x) @ [event]" "eq_room q' = eq_room (me_event_queue x)" by blast
      with run False inv show ?thesis by (simp add: submit_eq enqueue_def exporter_inv_def settled_def)
    qed
  qed
  then show "exporter_inv (submit event x)"
    "settled (submit event x) = (if refused event x then settled x else ProcessEvent event (settled x))"
    "me_queue_overflow_total (submit event x) = me_queue_overflow_total x + (if refused event x then 1 else 0)"
    "me_running (submit event x) = me_running x" "eq_room (me_event_queue (submit event x)) = eq_room (me_event_queue x)"
    by simp_all
qed

lemma WorkerLoop_pass_step:
  assumes "eq_wf (me_event_queue x)" "WorkerLoop_pass x = Some x'"
    "me_submitted_events x = me_processed_events x + length (eq_events (me_event_queue x))"
  shows "settled x' = settled x" "eq_wf (me_event_queue x')"
    "me_submitted_events x' = me_processed_events x' + length (eq_events (me_event_queue x'))"
    "me_submitted_events x' = me_submitted_events x"
    "me_queue_overflow_total x' = me_queue_overflow_total x"
    "me_running x' = me_running x" "me_stop_requested x' = me_stop_requested x" "me_worker x' = me_worker x"
    "me_enable_http x' = me_enable_http x"
    "length (eq_events (me_event_queue x')) = length (eq_events (me_event_queue x)) - 1"
    "eq_room (me_event_queue x') = eq_room (me_event_queue x)"
proof -
  have "settled x' = settled x \<and> eq_wf (me_event_queue x')
    \<and> me_submitted_events x' = me_processed_events x' + length (eq_events (me_event_queue x'))
    \<and> me_submitted_events x' = me_submitted_events x
    \<and> me_queue_overflow_total x' = me_queue_overflow_total x
    \<and> me_running x' = me_running x \<and> me_stop_requested x' = me_stop_requested x \<and> me_worker x' = me_worker x
    \<and> me_enable_http x' = me_enable_http x
    \<and> length (eq_events (me_event_queue x')) = length (eq_events (me_event_queue x)) - 1
    \<and> eq_room (me_event_queue x') = eq_room (me_event_queue x)"
  proof (cases "eq_events (me_event_queue x)")
    case Nil
    with events.pop_empty [OF assms(1)] assms show ?thesis
      by (auto simp: WorkerLoop_pass_def split: if_splits)
  next
    case (Cons e es)
    then obtain q' where "EventQueue_Pop (me_event_queue x) = (Some e, q')" "eq_events q' = es" "eq_wf q'"
        "eq_room q' = eq_room (me_event_queue x)"
      using events.pop_Cons [OF assms(1), of e es] by blast
    with Cons assms show ?thesis by (auto simp: WorkerLoop_pass_def settled_def split: if_splits)
  qed
  then show "settled x' = settled x" "eq_wf (me_event_queue x')"
    "me_submitted_events x' = me_processed_events x' + length (eq_events (me_event_queue x'))"
    "me_submitted_events x' = me_submitted_events x"
    "me_queue_overflow_total x' = me_queue_overflow_total x"
    "me_running x' = me_running x" "me_stop_requested x' = me_stop_requested x" "me_worker x' = me_worker x"
    "me_enable_http x' = me_enable_http x"
    "length (eq_events (me_event_queue x')) = length (eq_events (me_event_queue x)) - 1"
    "eq_room (me_event_queue x') = eq_room (me_event_queue x)" by simp_all
qed

text \<open>The worker, once asked to stop, works the queue off and ends.\<close>

lemma WorkerLoop_drains:
  assumes "eq_wf (me_event_queue x)" "me_stop_requested x"
    "me_submitted_events x = me_processed_events x + length (eq_events (me_event_queue x))"
  shows "\<exists>x'. WorkerLoop x = Some x' \<and> eq_events (me_event_queue x') = [] \<and> eq_wf (me_event_queue x')
    \<and> me_tables x' = settled x \<and> me_processed_events x' = me_submitted_events x'
    \<and> me_submitted_events x' = me_submitted_events x
    \<and> me_queue_overflow_total x' = me_queue_overflow_total x
    \<and> me_running x' = me_running x \<and> me_stop_requested x' \<and> me_enable_http x' = me_enable_http x
    \<and> eq_room (me_event_queue x') = eq_room (me_event_queue x)"
  using assms
proof (induction "length (eq_events (me_event_queue x))" arbitrary: x)
  case 0
  then have "eq_events (me_event_queue x) = []" by simp
  with 0 eq_empty_iff show ?case
    by (subst WorkerLoop.simps) (simp add: WorkerLoop_pass_def settled_def)
next
  case (Suc n)
  then have ne: "eq_events (me_event_queue x) \<noteq> []" by auto
  then have "WorkerLoop_pass x \<noteq> None"
    using Suc.prems(1) by (simp add: WorkerLoop_pass_def eq_empty_iff split: prod.split option.split)
  then obtain x1 where p: "WorkerLoop_pass x = Some x1" by auto
  note st = WorkerLoop_pass_step [OF Suc.prems(1) p Suc.prems(3)]
  have "n = length (eq_events (me_event_queue x1))" using st(10) Suc.hyps(2) by simp
  from Suc.hyps(1) [OF this st(2)] st Suc.prems(2) obtain x' where
    "WorkerLoop x1 = Some x' \<and> eq_events (me_event_queue x') = [] \<and> eq_wf (me_event_queue x')
    \<and> me_tables x' = settled x \<and> me_processed_events x' = me_submitted_events x'
    \<and> me_submitted_events x' = me_submitted_events x
    \<and> me_queue_overflow_total x' = me_queue_overflow_total x
    \<and> me_running x' = me_running x \<and> me_stop_requested x' \<and> me_enable_http x' = me_enable_http x
    \<and> eq_room (me_event_queue x') = eq_room (me_event_queue x)" by auto
  with p show ?case by (subst WorkerLoop.simps) simp
qed

section \<open>Interleavings\<close>

text \<open>What callers and the worker thread do, one action at a time.\<close>

datatype exporter_op = EStart bool bool | EStop | ESubmit metric_event | EWork

fun exporter_apply :: "exporter_op \<Rightarrow> exporter \<Rightarrow> exporter option" where
  "exporter_apply (EStart http_ok start_http_server) x = Some (snd (Exporter_Start http_ok start_http_server x))"
| "exporter_apply EStop x = Exporter_Stop x"
| "exporter_apply (ESubmit event) x = Some (submit event x)"
| "exporter_apply EWork x =
     Some (if me_worker x then case WorkerLoop_pass x of None \<Rightarrow> x | Some x' \<Rightarrow> x' else x)"

fun exporter_run :: "exporter_op list \<Rightarrow> exporter \<Rightarrow> exporter option" where
  "exporter_run [] x = Some x"
| "exporter_run (op # ops) x = (case exporter_apply op x of None \<Rightarrow> None | Some x' \<Rightarrow> exporter_run ops x')"

text \<open>The events of a run that were not refused, and the number that were.\<close>

fun kept :: "exporter_op list \<Rightarrow> exporter \<Rightarrow> metric_event list" where
  "kept [] x = []"
| "kept (op # ops) x =
     (case op of ESubmit event \<Rightarrow> (if refused event x then [] else [event]) | _ \<Rightarrow> [])
     @ (case exporter_apply op x of None \<Rightarrow> [] | Some x' \<Rightarrow> kept ops x')"

fun submissions :: "exporter_op list \<Rightarrow> nat" where
  "submissions [] = 0"
| "submissions (op # ops) = (case op of ESubmit event \<Rightarrow> 1 | _ \<Rightarrow> 0) + submissions ops"

lemma exporter_inv_initial:
  "exporter_inv (MetricsExporter port http)" "settled (MetricsExporter port http) = empty_tables"
  "eq_room (me_event_queue (MetricsExporter port http)) = 1023"
proof -
  have "unat (1024 :: usize) = 1024" by simp
  then have "eq_wf (EventQueue 1024)" "eq_events (EventQueue 1024) = []" "eq_room (EventQueue 1024) = 1023"
    using EventQueue_wf [of 1024] by auto
  then show "exporter_inv (MetricsExporter port http)" "settled (MetricsExporter port http) = empty_tables"
    "eq_room (me_event_queue (MetricsExporter port http)) = 1023"
    by (simp_all add: MetricsExporter_def exporter_inv_def settled_def)
qed

lemma Exporter_Start_step:
  assumes "exporter_inv x"
  shows "exporter_inv (snd (Exporter_Start ok http x)) \<and> settled (snd (Exporter_Start ok http x)) = settled x
    \<and> me_queue_overflow_total (snd (Exporter_Start ok http x)) = me_queue_overflow_total x
    \<and> eq_room (me_event_queue (snd (Exporter_Start ok http x))) = eq_room (me_event_queue x)"
  using assms by (simp add: exporter_inv_def settled_def Exporter_Start_def Let_def)

lemma Exporter_Stop_step:
  assumes "exporter_inv x"
  obtains x' where "Exporter_Stop x = Some x'" "exporter_inv x'" "settled x' = settled x"
    "me_queue_overflow_total x' = me_queue_overflow_total x"
    "eq_room (me_event_queue x') = eq_room (me_event_queue x)"
    "\<not> me_running x'" "me_tables x' = settled x" "me_submitted_events x' = me_submitted_events x"
proof (cases "me_running x")
  case False
  with assms have "Exporter_Stop x = Some x" "me_tables x = settled x"
    by (simp_all add: Exporter_Stop_def exporter_inv_def settled_def)
  with False assms show thesis by (intro that) auto
next
  case True
  let ?x = "x\<lparr>me_running := False, me_stop_requested := True\<rparr>"
  have s: "settled ?x = settled x" by (simp add: settled_def)
  from assms have "eq_wf (me_event_queue ?x)" "me_stop_requested ?x"
    "me_submitted_events ?x = me_processed_events ?x + length (eq_events (me_event_queue ?x))"
    by (simp_all add: exporter_inv_def)
  from WorkerLoop_drains [OF this] s obtain x1 where w: "WorkerLoop ?x = Some x1"
      "eq_events (me_event_queue x1) = []" "eq_wf (me_event_queue x1)" "me_tables x1 = settled x"
      "me_processed_events x1 = me_submitted_events x1" "me_submitted_events x1 = me_submitted_events x"
      "me_queue_overflow_total x1 = me_queue_overflow_total x" "\<not> me_running x1"
      "eq_room (me_event_queue x1) = eq_room (me_event_queue x)" by auto
  show thesis
    by (rule that [of "x1\<lparr>me_worker := False, me_http_started := (me_http_started x1 \<and> \<not> me_enable_http x1)\<rparr>"])
      (use True w in \<open>simp_all add: Exporter_Stop_def exporter_inv_def settled_def\<close>)
qed

lemma EWork_step:
  assumes "exporter_inv x" "exporter_apply EWork x = Some x'"
  shows "exporter_inv x' \<and> settled x' = settled x \<and> me_queue_overflow_total x' = me_queue_overflow_total x
    \<and> eq_room (me_event_queue x') = eq_room (me_event_queue x)"
proof (cases "me_worker x \<and> WorkerLoop_pass x \<noteq> None")
  case False
  with assms show ?thesis by (auto split: if_splits option.splits)
next
  case True
  with assms have p: "WorkerLoop_pass x = Some x'" by auto
  note st = WorkerLoop_pass_step [OF _ p]
  from assms(1) have "eq_wf (me_event_queue x)"
    "me_submitted_events x = me_processed_events x + length (eq_events (me_event_queue x))"
    by (simp_all add: exporter_inv_def)
  with st assms(1) show ?thesis by (auto simp: exporter_inv_def)
qed

lemma exporter_apply_step:
  assumes "exporter_inv x"
  obtains x' where "exporter_apply op x = Some x'" "exporter_inv x'"
    "settled x' = fold ProcessEvent (kept [op] x) (settled x)"
    "me_queue_overflow_total x' + length (kept [op] x) = me_queue_overflow_total x + submissions [op]"
    "eq_room (me_event_queue x') = eq_room (me_event_queue x)"
proof (cases op)
  case (EStart ok http)
  with assms Exporter_Start_step [OF assms, of ok http] that show thesis by auto
next
  case EStop
  from Exporter_Stop_step [OF assms] obtain x' where "Exporter_Stop x = Some x'" "exporter_inv x'"
    "settled x' = settled x" "me_queue_overflow_total x' = me_queue_overflow_total x"
    "eq_room (me_event_queue x') = eq_room (me_event_queue x)" by metis
  with EStop that show thesis by auto
next
  case (ESubmit event)
  with submit_step [OF assms, of event] that show thesis by auto
next
  case EWork
  obtain x' where w: "exporter_apply EWork x = Some x'" by simp
  with EWork_step [OF assms w] EWork that show thesis by auto
qed

lemma exporter_run_invariant:
  assumes "exporter_inv x"
  shows "\<exists>x'. exporter_run ops x = Some x' \<and> exporter_inv x'
    \<and> settled x' = fold ProcessEvent (kept ops x) (settled x)
    \<and> me_queue_overflow_total x' + length (kept ops x) = me_queue_overflow_total x + submissions ops
    \<and> eq_room (me_event_queue x') = eq_room (me_event_queue x)"
  using assms
proof (induction ops arbitrary: x)
  case Nil
  then show ?case by simp
next
  case (Cons op ops)
  from exporter_apply_step [OF Cons.prems, of op] obtain x1 where st: "exporter_apply op x = Some x1"
    "exporter_inv x1" "settled x1 = fold ProcessEvent (kept [op] x) (settled x)"
    "me_queue_overflow_total x1 + length (kept [op] x) = me_queue_overflow_total x + submissions [op]"
    "eq_room (me_event_queue x1) = eq_room (me_event_queue x)" by metis
  have k: "kept (op # ops) x = kept [op] x @ kept ops x1" "submissions (op # ops) = submissions [op] + submissions ops"
    using st(1) by simp_all
  from Cons.IH [OF st(2)] obtain x' where "exporter_run ops x1 = Some x'" "exporter_inv x'"
    "settled x' = fold ProcessEvent (kept ops x1) (settled x1)"
    "me_queue_overflow_total x' + length (kept ops x1) = me_queue_overflow_total x1 + submissions ops"
    "eq_room (me_event_queue x') = eq_room (me_event_queue x1)" by blast
  then show ?case using st by (simp add: k del: kept.simps submissions.simps)
qed

section \<open>The text served at /metrics\<close>

abbreviation newline :: string where
  "newline \<equiv> [CHR 0x0A]"

definition help_lines :: "string \<Rightarrow> string \<Rightarrow> string \<Rightarrow> string" where
  "help_lines name help kind = ''# HELP '' @ name @ '' '' @ help @ newline @ ''# TYPE '' @ name @ '' '' @ kind @ newline"

fun transport_name :: "transport \<Rightarrow> string" where
  "transport_name kGrpcStream = ''grpc_stream''"
| "transport_name kScrape = ''scrape''"
| "transport_name kFile = ''file''"

text \<open>\<open>for (const auto& [key, value] : table)\<close>: the lines in the order of the keys.\<close>

definition each_entry :: "('k :: linorder \<Rightarrow> 'v \<Rightarrow> string) \<Rightarrow> ('k, 'v) mapping \<Rightarrow> string" where
  "each_entry line table = concat (map (\<lambda>k. case Mapping.lookup table k of None \<Rightarrow> [] | Some v \<Rightarrow> line k v)
     (Mapping.ordered_keys table))"

definition channel_line :: "string \<Rightarrow> (channel_metrics \<Rightarrow> string) \<Rightarrow> int \<Rightarrow> channel_metrics \<Rightarrow> string" where
  "channel_line name value channel_id metrics =
     name @ ''{channel=\"'' @ decimal_of_int channel_id @ ''\"} '' @ value metrics @ newline"

definition state_line :: "int \<Rightarrow> channel_metrics \<Rightarrow> string" where
  "state_line channel_id metrics =
     ''retrovue_playout_channel_state{channel=\"'' @ decimal_of_int channel_id
     @ ''\",state=\"'' @ ChannelStateToString (cm_state metrics) @ ''\"} ''
     @ decimal_of_int (ChannelStateToValue (cm_state metrics)) @ newline"

definition descriptor_line :: "metric_tables \<Rightarrow> string \<Rightarrow> string \<Rightarrow> string" where
  "descriptor_line t name version =
     (let deprecated = (case Mapping.lookup (mt_descriptor_deprecated t) name of None \<Rightarrow> False | Some b \<Rightarrow> b)
      in ''retrovue_metrics_descriptor_version{name=\"'' @ name @ ''\",version=\"'' @ version
         @ ''\",deprecated=\"'' @ (if deprecated then ''true'' else ''false'') @ ''\"} 1'' @ newline)"

definition transport_line :: "string \<Rightarrow> (transport_data \<Rightarrow> string) \<Rightarrow> transport \<Rightarrow> transport_data \<Rightarrow> string" where
  "transport_line name value transport data =
     name @ ''{transport=\"'' @ transport_name transport @ ''\"} '' @ value data @ newline"

definition GenerateMetricsText :: "(real \<Rightarrow> string) \<Rightarrow> exporter \<Rightarrow> string" where
  "GenerateMetricsText show_double x =
     (let t = me_tables x; channels = mt_channel_metrics t in
      help_lines ''retrovue_metrics_overflow_total'' ''Number of dropped metric events due to queue overflow'' ''counter''
    @ ''retrovue_metrics_overflow_total '' @ decimal_of_nat (me_queue_overflow_total x) @ newline @ newline
    @ help_lines ''retrovue_playout_channel_state'' ''Current state of playout channel'' ''gauge''
    @ each_entry state_line channels
    @ newline @ help_lines ''retrovue_playout_buffer_depth_frames'' ''Number of frames in buffer'' ''gauge''
    @ each_entry (channel_line ''retrovue_playout_buffer_depth_frames''
        (\<lambda>m. decimal_of_nat (cm_buffer_depth_frames m))) channels
    @ newline @ help_lines ''retrovue_playout_frame_gap_seconds'' ''Timing deviation from MasterClock'' ''gauge''
    @ each_entry (channel_line ''retrovue_playout_frame_gap_seconds''
        (\<lambda>m. show_double (cm_frame_gap_seconds m))) channels
    @ newline @ help_lines ''retrovue_playout_decode_failure_count'' ''Total decode failures'' ''counter''
    @ each_entry (channel_line ''retrovue_playout_decode_failure_count''
        (\<lambda>m. decimal_of_nat (cm_decode_failure_count m))) channels
    @ newline @ help_lines ''retrovue_playout_corrections_total'' ''Total timing corrections applied'' ''counter''
    @ each_entry (channel_line ''retrovue_playout_corrections_total''
        (\<lambda>m. decimal_of_nat (cm_corrections_total m))) channels
    @ newline @ help_lines ''retrovue_metrics_descriptor_version'' ''Metric descriptor version'' ''gauge''
    @ each_entry (descriptor_line t) (mt_descriptor_versions t)
    @ newline @ help_lines ''retrovue_metrics_delivery_failures_total'' ''Delivery failures per transport'' ''counter''
    @ each_entry (transport_line ''retrovue_metrics_delivery_failures_total''
        (\<lambda>d. decimal_of_nat (td_failures d))) (mt_transport_data t)
    @ newline @ help_lines ''retrovue_metrics_delivery_latency_ms'' ''Delivery latency p95 per transport'' ''gauge''
    @ each_entry (transport_line ''retrovue_metrics_delivery_latency_ms''
        (\<lambda>d. show_double (Exporter_ComputePercentile (td_latencies_ms d) (95 / 100)))) (mt_transport_data t))"

text \<open>\<open>SnapshotForTest\<close>: the tables with the latencies summed up, and the overflow count.\<close>

record transport_snapshot =
  ts_deliveries :: nat
  ts_failures :: nat
  ts_latency_p95_ms :: real

definition SnapshotForTest :: "exporter \<Rightarrow>
    (int, channel_metrics) mapping \<times> (string, string) mapping \<times> (string, bool) mapping
    \<times> (transport, transport_snapshot) mapping \<times> nat" where
  "SnapshotForTest x = (let t = me_tables x in
     (mt_channel_metrics t, mt_descriptor_versions t, mt_descriptor_deprecated t,
      Mapping.map_values (\<lambda>_ data. \<lparr>ts_deliveries = td_deliveries data, ts_failures = td_failures data,
        ts_latency_p95_ms = Exporter_ComputePercentile (td_latencies_ms data) (95 / 100)\<rparr>) (mt_transport_data t),
      me_queue_overflow_total x))"

text \<open>Lines of a text.\<close>

definition newlines :: "string \<Rightarrow> nat" where
  "newlines s = count_list s (CHR 0x0A)"

lemma newlines_append [simp]: "newlines (s @ s') = newlines s + newlines s'"
  by (simp add: newlines_def)

lemma newlines_Cons: "newlines (c # s) = (if c = CHR 0x0A then 1 else 0) + newlines s"
  by (simp add: newlines_def)

lemma newlines_Nil [simp]: "newlines [] = 0"
  by (simp add: newlines_def)

lemma newlines_decimal_of_nat [simp]: "newlines (decimal_of_nat n) = 0"
  using decimal_of_nat_digits [of "CHR 0x0A" n] by (auto simp: newlines_def count_list_0_iff)

lemma newlines_decimal_of_int [simp]: "newlines (decimal_of_int k) = 0"
  by (simp add: decimal_of_int_def newlines_Cons)

lemma newlines_concat: "(\<And>s. s \<in> set ss \<Longrightarrow> newlines s = 1) \<Longrightarrow> newlines (concat ss) = length ss"
  by (induction ss) simp_all

lemma ordered_keys_finite:
  assumes "finite (Mapping.keys m)"
  shows "set (Mapping.ordered_keys m) = Mapping.keys m" "distinct (Mapping.ordered_keys m)"
    "sorted (Mapping.ordered_keys m)" "length (Mapping.ordered_keys m) = Mapping.size m"
  using assms by (simp_all add: Mapping.ordered_keys_def Mapping.size_def)

lemma newlines_each_entry:
  assumes "finite (Mapping.keys m)" "\<And>k v. Mapping.lookup m k = Some v \<Longrightarrow> newlines (line k v) = 1"
  shows "newlines (each_entry line m) = Mapping.size m"
proof -
  have "newlines (each_entry line m)
      = length (map (\<lambda>k. case Mapping.lookup m k of None \<Rightarrow> [] | Some v \<Rightarrow> line k v) (Mapping.ordered_keys m))"
    unfolding each_entry_def
  proof (rule newlines_concat)
    fix s
    assume "s \<in> set (map (\<lambda>k. case Mapping.lookup m k of None \<Rightarrow> [] | Some v \<Rightarrow> line k v) (Mapping.ordered_keys m))"
    then obtain k where k: "k \<in> Mapping.keys m"
      and s: "s = (case Mapping.lookup m k of None \<Rightarrow> [] | Some v \<Rightarrow> line k v)"
      using ordered_keys_finite [OF assms(1)] by auto
    from k obtain v where "Mapping.lookup m k = Some v" by (auto simp: keys_dom_lookup)
    with s assms(2) show "newlines s = 1" by simp
  qed
  then show ?thesis using ordered_keys_finite [OF assms(1)] by simp
qed

definition tables_finite :: "metric_tables \<Rightarrow> bool" where
  "tables_finite t \<longleftrightarrow> finite (Mapping.keys (mt_channel_metrics t))
     \<and> finite (Mapping.keys (mt_descriptor_versions t)) \<and> finite (Mapping.keys (mt_transport_data t))"

lemma tables_finite_ProcessEvent: "tables_finite t \<Longrightarrow> tables_finite (ProcessEvent event t)"
  by (cases event) (simp_all add: tables_finite_def record_transport_def Let_def)

lemma tables_finite_fold: "tables_finite t \<Longrightarrow> tables_finite (fold ProcessEvent events t)"
  by (induction events arbitrary: t) (simp_all add: tables_finite_ProcessEvent)

lemma tables_finite_submit:
  "tables_finite (me_tables x) \<Longrightarrow> tables_finite (me_tables (submit event x))"
  by (simp add: submit_eq enqueue_def tables_finite_ProcessEvent split: prod.split)

lemma tables_finite_apply:
  assumes "exporter_inv x" "tables_finite (me_tables x)" "exporter_apply op x = Some x'"
  shows "tables_finite (me_tables x')"
proof (cases op)
  case (EStart ok http)
  with assms show ?thesis by (auto simp: Exporter_Start_def Let_def)
next
  case EStop
  from Exporter_Stop_step [OF assms(1)] obtain x1 where
    "Exporter_Stop x = Some x1" "me_tables x1 = settled x" by metis
  with EStop assms show ?thesis by (simp add: settled_def tables_finite_fold)
next
  case (ESubmit event)
  with assms tables_finite_submit show ?thesis by auto
next
  case EWork
  with assms show ?thesis
    by (auto simp: WorkerLoop_pass_def tables_finite_ProcessEvent split: if_splits option.splits prod.splits)
qed

lemma tables_finite_run:
  "exporter_inv x \<Longrightarrow> tables_finite (me_tables x) \<Longrightarrow> exporter_run ops x = Some x' \<Longrightarrow> tables_finite (me_tables x')"
proof (induction ops arbitrary: x)
  case (Cons op ops)
  from exporter_apply_step [OF Cons.prems(1), of op] obtain x1 where
    "exporter_apply op x = Some x1" "exporter_inv x1" by metis
  with Cons tables_finite_apply [OF Cons.prems(1,2)] show ?case by simp
qed simp

lemma newlines_texts [simp]: "newlines (ChannelStateToString s) = 0" "newlines (transport_name tr) = 0"
proof -
  show "newlines (ChannelStateToString s) = 0" by (cases s) (simp_all add: newlines_def)
  show "newlines (transport_name tr) = 0" by (cases tr) (simp_all add: newlines_def)
qed

lemma newlines_help: "newlines (help_lines name help kind) = 2 + 2 * newlines name + newlines help + newlines kind"
  by (simp add: help_lines_def newlines_Cons)

section \<open>Waiting for the queue\<close>

lemma drained_settled: "exporter_inv x \<Longrightarrow> drained x \<longleftrightarrow> eq_events (me_event_queue x) = []"
  by (auto simp: drained_def exporter_inv_def eq_empty_iff)

lemma drain_polls_Some:
  "drain_polls deadline polls n = Some b \<Longrightarrow> b \<Longrightarrow> \<exists>k. fst (polls k) < deadline \<and> drained (snd (polls k))"
proof (induction deadline polls n b rule: drain_polls.raw_induct [rotated 1, consumes 1])
  case (1 drain deadline polls n b)
  show ?case
  proof (cases "fst (polls n) < deadline \<and> \<not> drained (snd (polls n))")
    case False
    with 1(2,3) show ?thesis by (intro exI [of _ n]) (auto split: if_splits)
  next
    case True
    with 1(2) have "drain deadline polls (Suc n) = Some b" by simp
    from 1(1) [OF this 1(3)] show ?thesis .
  qed
qed

lemma drain_polls_returns: "n \<le> k \<Longrightarrow> deadline \<le> fst (polls k) \<Longrightarrow> \<exists>b. drain_polls deadline polls n = Some b"
proof (induction "k - n" arbitrary: n)
  case 0
  then have "n = k" by simp
  with 0 show ?case by (subst drain_polls.simps) auto
next
  case (Suc m)
  then have "m = k - Suc n" "Suc n \<le> k" by simp_all
  from Suc.hyps(1) [OF this Suc.prems(2)] show ?case by (subst drain_polls.simps) auto
qed

text \<open>If the wait succeeds, all that was submitted by then is in the tables; it ends at its time-out at the latest.\<close>

lemma WaitUntilDrained_result:
  assumes "me_running x" "\<And>n. exporter_inv (snd (polls n))"
  shows "WaitUntilDrainedForTest now timeout polls x = Some True \<Longrightarrow>
      \<exists>n. fst (polls n) < now + timeout \<and> settled (snd (polls n)) = me_tables (snd (polls n))"
    "now + timeout \<le> fst (polls k) \<Longrightarrow> WaitUntilDrainedForTest now timeout polls x \<noteq> None"
proof -
  assume "WaitUntilDrainedForTest now timeout polls x = Some True"
  then have "drain_polls (now + timeout) polls 0 = Some True" using assms(1) by (simp add: WaitUntilDrainedForTest_def)
  from drain_polls_Some [OF this TrueI] obtain n where "fst (polls n) < now + timeout" "drained (snd (polls n))" by blast
  then show "\<exists>n. fst (polls n) < now + timeout \<and> settled (snd (polls n)) = me_tables (snd (polls n))"
    using drained_settled [OF assms(2), of n] by (auto simp: settled_def)
next
  assume "now + timeout \<le> fst (polls k)"
  from drain_polls_returns [of 0 k "now + timeout" polls] this assms(1) show "WaitUntilDrainedForTest now timeout polls x \<noteq> None"
    by (simp add: WaitUntilDrainedForTest_def)
qed

section \<open>Properties\<close>

text \<open>
  C25. Queued and synchronous operation agree: however starts, stops, submissions and worker passes
  follow one another, the run returns (\<open>Stop\<close> ends), the tables plus what still waits in the queue are
  what the accepted submissions give when applied in order, every submission that was not accepted is
  counted as an overflow, submitted events are processed or waiting, at most 1023 wait, and while the
  exporter is stopped nothing waits, so the tables are exactly the accepted submissions.
\<close>

theorem exporter_async_equals_sync:
  "\<exists>x. exporter_run ops (MetricsExporter port http) = Some x
    \<and> (let events = kept ops (MetricsExporter port http); waiting = eq_events (me_event_queue x) in
         fold ProcessEvent waiting (me_tables x) = fold ProcessEvent events empty_tables
       \<and> me_queue_overflow_total x + length events = submissions ops
       \<and> me_submitted_events x = me_processed_events x + length waiting
       \<and> length waiting \<le> 1023
       \<and> (me_running x \<or> me_tables x = fold ProcessEvent events empty_tables))"
proof -
  let ?x = "MetricsExporter port http"
  from exporter_run_invariant [OF exporter_inv_initial(1), of ops] obtain x where
    x: "exporter_run ops ?x = Some x" "exporter_inv x" "settled x = fold ProcessEvent (kept ops ?x) empty_tables"
    "me_queue_overflow_total x + length (kept ops ?x) = me_queue_overflow_total ?x + submissions ops"
    "eq_room (me_event_queue x) = 1023"
    unfolding exporter_inv_initial(2,3) by blast
  moreover have "me_queue_overflow_total ?x = 0" by (simp add: MetricsExporter_def)
  moreover have "length (eq_events (me_event_queue x)) \<le> 1023"
    using eq_bounded [of "me_event_queue x"] x by (simp add: exporter_inv_def)
  ultimately show ?thesis by (auto simp: exporter_inv_def settled_def Let_def)
qed

text \<open>
  Life cycle and answers: \<open>Start\<close> on a running exporter is refused and changes nothing, and a
  failed HTTP server leaves it stopped; otherwise it runs afterwards. \<open>Stop\<close> returns with the worker
  gone, the queue worked off and the accepted events in the tables, and a second \<open>Stop\<close> changes
  nothing. A channel update is answered with false exactly when the exporter runs and 1023 events wait,
  and then changes the overflow counter only; an accepted one is readable at once when stopped, and
  otherwise after the events before it have been processed.
\<close>

theorem exporter_lifecycle:
  assumes "exporter_run ops (MetricsExporter port http) = Some x"
  shows "(me_running x \<longrightarrow> Exporter_Start ok serve x = (False, x))
    \<and> (\<not> me_running x \<longrightarrow> fst (Exporter_Start ok serve x) = (ok \<or> \<not> me_enable_http x \<or> \<not> serve)
        \<and> me_running (snd (Exporter_Start ok serve x)) = fst (Exporter_Start ok serve x)
        \<and> me_worker (snd (Exporter_Start ok serve x)) = fst (Exporter_Start ok serve x))
    \<and> (\<exists>x'. Exporter_Stop x = Some x' \<and> \<not> me_running x' \<and> \<not> me_worker x' \<and> eq_events (me_event_queue x') = []
        \<and> me_tables x' = fold ProcessEvent (eq_events (me_event_queue x)) (me_tables x) \<and> Exporter_Stop x' = Some x')
    \<and> (fst (SubmitChannelMetrics c m x) = (\<not> (me_running x \<and> length (eq_events (me_event_queue x)) = 1023)))
    \<and> (if fst (SubmitChannelMetrics c m x)
       then (\<exists>x'. Exporter_Stop (snd (SubmitChannelMetrics c m x)) = Some x' \<and> GetChannelMetrics c x' = Some m)
         \<and> (\<not> me_running x \<longrightarrow> GetChannelMetrics c (snd (SubmitChannelMetrics c m x)) = Some m)
       else snd (SubmitChannelMetrics c m x) = x\<lparr>me_queue_overflow_total := me_queue_overflow_total x + 1\<rparr>)"
proof -
  from exporter_run_invariant [OF exporter_inv_initial(1), of ops] assms
  have inv: "exporter_inv x" and room: "eq_room (me_event_queue x) = 1023"
    unfolding exporter_inv_initial(2,3) by (smt (verit) option.inject)+
  let ?u = "UpdateChannel c m" and ?y = "snd (SubmitChannelMetrics c m x)"
  have answer: "fst (SubmitChannelMetrics c m x) = (\<not> refused ?u x)"
  proof (cases "me_running x")
    case False
    then show ?thesis by (simp add: SubmitChannelMetrics_def refused_def)
  next
    case True
    with inv eq_bounded [of "me_event_queue x"] events.push_full [of "me_event_queue x" ?u]
      events.push_room [of "me_event_queue x" ?u] show ?thesis
      by (auto simp: SubmitChannelMetrics_def refused_def enqueue_def exporter_inv_def)
  qed
  have y: "?y = submit ?u x" by simp
  note step = submit_step [OF inv, of ?u, folded y]
  from Exporter_Stop_step [OF step(1)] obtain x1 where
    s1: "Exporter_Stop ?y = Some x1" "me_tables x1 = settled ?y" by metis
  from Exporter_Stop_step [OF inv] obtain x2 where s2: "Exporter_Stop x = Some x2" "exporter_inv x2"
    "\<not> me_running x2" "me_tables x2 = settled x" by metis
  then have s3: "\<not> me_worker x2" "eq_events (me_event_queue x2) = []" "Exporter_Stop x2 = Some x2"
    by (simp_all add: exporter_inv_def Exporter_Stop_def)
  have full: "?y = x\<lparr>me_queue_overflow_total := me_queue_overflow_total x + 1\<rparr>" if "refused ?u x"
    using that inv events.push_full [of "me_event_queue x" ?u]
    by (simp add: SubmitChannelMetrics_def refused_def enqueue_def exporter_inv_def)
  have got: "GetChannelMetrics c x1 = Some m" if "\<not> refused ?u x"
    using that s1 step(2) by (simp add: GetChannelMetrics_def)
  have now: "GetChannelMetrics c ?y = Some m" if "\<not> me_running x"
    using that by (simp add: GetChannelMetrics_def SubmitChannelMetrics_def)
  have again: "Exporter_Start ok serve x = (False, x)" if "me_running x"
    using that by (simp add: Exporter_Start_def)
  have fresh: "fst (Exporter_Start ok serve x) = (ok \<or> \<not> me_enable_http x \<or> \<not> serve)
        \<and> me_running (snd (Exporter_Start ok serve x)) = fst (Exporter_Start ok serve x)
        \<and> me_worker (snd (Exporter_Start ok serve x)) = fst (Exporter_Start ok serve x)" if "\<not> me_running x"
    using that inv by (simp add: Exporter_Start_def Let_def exporter_inv_def)
  have ref: "refused ?u x \<longleftrightarrow> me_running x \<and> length (eq_events (me_event_queue x)) = 1023"
    by (simp add: refused_def room)
  show ?thesis
    unfolding answer using again fresh s2 s3 full got now s1 unfolding ref settled_def by simp
qed

theorem exporter_lifecycle_witness:
  "\<exists>x. Exporter_Stop (snd (SubmitChannelMetrics 7 ChannelMetrics (snd (Exporter_Start True True (MetricsExporter 9308 True))))) = Some x
     \<and> GetChannelMetrics 7 x = Some ChannelMetrics"
proof -
  let ?x = "snd (Exporter_Start True True (MetricsExporter 9308 True))"
  have r: "exporter_run [EStart True True] (MetricsExporter 9308 True) = Some ?x" by simp
  have "eq_events (me_event_queue ?x) = []"
    using EventQueue_wf [of 1024] by (simp add: Exporter_Start_def MetricsExporter_def Let_def)
  then have "length (eq_events (me_event_queue ?x)) \<noteq> 1023" by simp
  with exporter_lifecycle [OF r, where c = 7 and m = ChannelMetrics] show ?thesis by simp
qed

text \<open>
  The text served at \<open>/metrics\<close> is complete and in order: the channel states form one run of
  lines, one per channel with metrics, in ascending order of channel numbers, and the whole text has
  exactly the lines of the nine headings plus five lines per channel, one per descriptor and two per
  transport, provided that no printed number, descriptor name or version contains a line break.
\<close>

theorem metrics_text:
  assumes "exporter_run ops (MetricsExporter port http) = Some x"
    and "\<And>r. newlines (show_double r) = 0"
    and "\<And>name version. Mapping.lookup (mt_descriptor_versions (me_tables x)) name = Some version
           \<Longrightarrow> newlines name = 0 \<and> newlines version = 0"
  shows "newlines (GenerateMetricsText show_double x) = 27 + 5 * Mapping.size (mt_channel_metrics (me_tables x))
      + Mapping.size (mt_descriptor_versions (me_tables x)) + 2 * Mapping.size (mt_transport_data (me_tables x))
    \<and> (\<exists>before ids after. GenerateMetricsText show_double x
        = before @ concat (map (\<lambda>i. state_line i (the (GetChannelMetrics i x))) ids) @ after
        \<and> sorted ids \<and> distinct ids \<and> (\<forall>i. i \<in> set ids \<longleftrightarrow> GetChannelMetrics i x \<noteq> None))"
proof
  let ?t = "me_tables x"
  have "tables_finite (me_tables (MetricsExporter port http))"
    by (simp add: tables_finite_def MetricsExporter_def empty_tables_def)
  from tables_finite_run [OF exporter_inv_initial(1) this assms(1)]
  have fin: "finite (Mapping.keys (mt_channel_metrics ?t))" "finite (Mapping.keys (mt_descriptor_versions ?t))"
    "finite (Mapping.keys (mt_transport_data ?t))" by (simp_all add: tables_finite_def)
  have channels: "newlines (each_entry (channel_line name val) (mt_channel_metrics ?t)) = Mapping.size (mt_channel_metrics ?t)"
    if "newlines name = 0" "\<And>m. newlines (val m) = 0" for name val
    using that by (intro newlines_each_entry fin) (simp add: channel_line_def newlines_Cons)
  have states: "newlines (each_entry state_line (mt_channel_metrics ?t)) = Mapping.size (mt_channel_metrics ?t)"
    by (intro newlines_each_entry fin) (simp add: state_line_def newlines_Cons)
  have descriptors: "newlines (each_entry (descriptor_line ?t) (mt_descriptor_versions ?t)) = Mapping.size (mt_descriptor_versions ?t)"
    using assms(3) by (intro newlines_each_entry fin) (simp add: descriptor_line_def Let_def newlines_Cons)
  have transports: "newlines (each_entry (transport_line name val) (mt_transport_data ?t)) = Mapping.size (mt_transport_data ?t)"
    if "newlines name = 0" "\<And>m. newlines (val m) = 0" for name val
    using that by (intro newlines_each_entry fin) (simp add: transport_line_def newlines_Cons)
  show "newlines (GenerateMetricsText show_double x) = 27 + 5 * Mapping.size (mt_channel_metrics ?t)
      + Mapping.size (mt_descriptor_versions ?t) + 2 * Mapping.size (mt_transport_data ?t)"
    unfolding GenerateMetricsText_def Let_def
    by (simp add: channels states descriptors transports newlines_help newlines_Cons assms(2))
  note ks = ordered_keys_finite [OF fin(1)]
  have "each_entry state_line (mt_channel_metrics ?t)
      = concat (map (\<lambda>i. state_line i (the (GetChannelMetrics i x))) (Mapping.ordered_keys (mt_channel_metrics ?t)))"
    unfolding each_entry_def GetChannelMetrics_def
    by (rule arg_cong [where f = concat], rule map_cong) (auto simp: ks keys_dom_lookup)
  moreover have "i \<in> set (Mapping.ordered_keys (mt_channel_metrics ?t)) \<longleftrightarrow> GetChannelMetrics i x \<noteq> None" for i
    by (auto simp: ks GetChannelMetrics_def keys_dom_lookup)
  moreover obtain before after where "GenerateMetricsText show_double x
      = before @ each_entry state_line (mt_channel_metrics ?t) @ after"
    unfolding GenerateMetricsText_def Let_def by (metis append.assoc)
  ultimately show "\<exists>before ids after. GenerateMetricsText show_double x
        = before @ concat (map (\<lambda>i. state_line i (the (GetChannelMetrics i x))) ids) @ after
        \<and> sorted ids \<and> distinct ids \<and> (\<forall>i. i \<in> set ids \<longleftrightarrow> GetChannelMetrics i x \<noteq> None)"
    using ks by metis
qed

theorem metrics_text_witness:
  "newlines (GenerateMetricsText (\<lambda>_. ''0'') (submit (UpdateChannel 7 ChannelMetrics) (MetricsExporter 9308 True))) = 32"
proof -
  let ?x = "submit (UpdateChannel 7 ChannelMetrics) (MetricsExporter 9308 True)"
  have r: "exporter_run [ESubmit (UpdateChannel 7 ChannelMetrics)] (MetricsExporter 9308 True) = Some ?x"
    by simp
  have t: "me_tables ?x = empty_tables\<lparr>mt_channel_metrics := Mapping.update 7 ChannelMetrics Mapping.empty\<rparr>"
    by (simp add: SubmitChannelMetrics_def MetricsExporter_def empty_tables_def)
  have d: "newlines name = 0 \<and> newlines version = 0"
    if "Mapping.lookup (mt_descriptor_versions (me_tables ?x)) name = Some version" for name version
    using that unfolding t by (simp add: empty_tables_def)
  have z: "newlines ''0'' = 0" by (simp add: newlines_def)
  show ?thesis using metrics_text [OF r z d] unfolding t by (simp add: empty_tables_def Mapping.size_def)
qed

end
