(* ===== verification/MetricsHttp.thy ===== *)
theory MetricsHttp
  imports MetricsExporter
begin

text \<open>
  The HTTP server of the metrics (\<open>include/retrovue/telemetry/MetricsHTTPServer.h\<close>,
  \<open>src/telemetry/MetricsHTTPServer.cpp\<close>): parsing the request line, the response with its headers, the
  connection handler, the accept loop and the life cycle of the server thread. The socket calls are the
  environment: what \<open>socket\<close>, \<open>bind\<close>, \<open>listen\<close>, \<open>accept\<close> and \<open>recv\<close> answer is an input of the
  definitions. The metrics callback is a function of the exporter's state, evaluated when it is called.
\<close>

section \<open>Requests and responses\<close>

text \<open>\<open>request.find(' ', from)\<close>: the index of the first blank at or after \<open>from\<close>, \<open>None\<close> for \<open>npos\<close>.\<close>

fun find_char :: "char \<Rightarrow> nat \<Rightarrow> string \<Rightarrow> nat option" where
  "find_char c i [] = None"
| "find_char c 0 (x # xs) = (if x = c then Some 0 else map_option Suc (find_char c 0 xs))"
| "find_char c (Suc i) (x # xs) = map_option Suc (find_char c i xs)"

definition ParseRequest :: "string \<Rightarrow> string" where
  "ParseRequest request =
     (case find_char (CHR '' '') 0 request of
        None \<Rightarrow> ''/''
      | Some space1 \<Rightarrow>
          (case find_char (CHR '' '') (space1 + 1) request of
             None \<Rightarrow> ''/''
           | Some space2 \<Rightarrow> take (space2 - space1 - 1) (drop (space1 + 1) request)))"

abbreviation crlf :: string where
  "crlf \<equiv> [CHR 0x0D, CHR 0x0A]"

definition http_response :: "string \<Rightarrow> string \<Rightarrow> string \<Rightarrow> string" where
  "http_response status content_type body =
     ''HTTP/1.1 '' @ status @ crlf
     @ ''Content-Type: '' @ content_type @ crlf
     @ ''Content-Length: '' @ decimal_of_nat (length body) @ crlf
     @ ''Connection: close'' @ crlf
     @ crlf
     @ body"

definition info_page :: string where
  "info_page = ''RetroVue Playout Engine - Metrics Server'' @ newline @ ''Metrics available at: /metrics'' @ newline"

definition GenerateResponse :: "string \<Rightarrow> string \<Rightarrow> string" where
  "GenerateResponse metrics path =
     (if path = ''/metrics''
      then http_response ''200 OK'' ''text/plain; version=0.0.4; charset=utf-8'' metrics
      else if path = ''/'' then http_response ''200 OK'' ''text/plain'' info_page
      else http_response ''404 Not Found'' ''text/plain'' (''404 Not Found'' @ newline))"

text \<open>
  The connection handler: \<open>received\<close> is what the peer sent in the first segment, \<open>None\<close> for an error, an
  end of stream or the five-second timeout. At most 4095 bytes are read, and \<open>std::string(buffer)\<close> ends
  at the first NUL.
\<close>

definition HandleConnection :: "string \<Rightarrow> string option \<Rightarrow> string option" where
  "HandleConnection metrics received =
     (case received of
        None \<Rightarrow> None
      | Some bytes \<Rightarrow>
          if bytes = [] then None
          else let request = takeWhile (\<lambda>c. c \<noteq> CHR 0x00) (take 4095 bytes)
               in Some (GenerateResponse metrics (ParseRequest request)))"

section \<open>The server thread\<close>

record http_server =
  hs_port :: int
  hs_running :: bool
  hs_stop_requested :: bool
  hs_server_thread :: bool
  hs_has_callback :: bool
  hs_server_socket :: bool

definition MetricsHTTPServer :: "int \<Rightarrow> http_server" where
  "MetricsHTTPServer port = \<lparr>hs_port = port, hs_running = False, hs_stop_requested = False,
     hs_server_thread = False, hs_has_callback = False, hs_server_socket = False\<rparr>"

definition SetMetricsCallback :: "http_server \<Rightarrow> http_server" where
  "SetMetricsCallback s = s\<lparr>hs_has_callback := True\<rparr>"

text \<open>\<open>Start\<close> answers without waiting for what the new thread meets.\<close>

definition Http_Start :: "http_server \<Rightarrow> bool \<times> http_server" where
  "Http_Start s =
     (if hs_running s then (False, s)
      else if \<not> hs_has_callback s then (False, s)
      else (True, s\<lparr>hs_stop_requested := False, hs_server_thread := True\<rparr>))"

text \<open>The beginning of \<open>ServerLoop\<close>: true when the server listens.\<close>

record socket_calls =
  sc_socket_ok :: bool
  sc_bind_ok :: bool
  sc_listen_ok :: bool

definition ServerLoop_open :: "socket_calls \<Rightarrow> http_server \<Rightarrow> bool \<times> http_server" where
  "ServerLoop_open sys s =
     (if \<not> sc_socket_ok sys then (False, s\<lparr>hs_server_socket := False\<rparr>)
      else let s = s\<lparr>hs_server_socket := True\<rparr>
      in if \<not> sc_bind_ok sys then (False, s\<lparr>hs_server_socket := False\<rparr>)
      else if \<not> sc_listen_ok sys then (False, s\<lparr>hs_server_socket := False\<rparr>)
      else (True, s\<lparr>hs_running := True\<rparr>))"

datatype accepted_connection = WouldBlock | AcceptError | Client "string option"

text \<open>
  The accept loop over the answers of \<open>accept\<close> and the metrics text at that moment; each pass reads
  the stop flag first. The result is the responses sent; the loop is left running at the end of the
  inputs.
\<close>

fun accept_loop :: "(bool \<times> accepted_connection \<times> string) list \<Rightarrow> http_server \<Rightarrow> string list \<times> http_server" where
  "accept_loop [] s = ([], s)"
| "accept_loop ((halt, answer, metrics) # inputs) s =
     (let s = (if halt then s\<lparr>hs_stop_requested := True\<rparr> else s);
          done = s\<lparr>hs_server_socket := False, hs_running := False\<rparr>
      in if hs_stop_requested s then ([], done)
         else case answer of
           WouldBlock \<Rightarrow> accept_loop inputs s
         | AcceptError \<Rightarrow> ([], done)
         | Client received \<Rightarrow>
             (let (sent, s) = accept_loop inputs s
              in ((case HandleConnection metrics received of None \<Rightarrow> sent | Some response \<Rightarrow> response # sent), s)))"

definition ServerLoop :: "socket_calls \<Rightarrow> (bool \<times> accepted_connection \<times> string) list \<Rightarrow> http_server \<Rightarrow> string list \<times> http_server" where
  "ServerLoop sys inputs s =
     (case ServerLoop_open sys s of (True, s) \<Rightarrow> accept_loop inputs s | (False, s) \<Rightarrow> ([], s))"

text \<open>\<open>Stop\<close> sets the flag, closes the socket and joins the thread; \<open>inputs\<close> is what the loop still
  sees until it reads the flag.\<close>

definition Http_Stop :: "http_server \<Rightarrow> http_server" where
  "Http_Stop s =
     (if \<not> hs_running s \<and> \<not> hs_server_thread s then s
      else let s = s\<lparr>hs_stop_requested := True\<rparr>;
               s = s\<lparr>hs_server_socket := False\<rparr>;
               s = snd (if hs_running s then accept_loop [(True, AcceptError, [])] s else ([], s));
               s = s\<lparr>hs_server_thread := False\<rparr>
           in s\<lparr>hs_running := False\<rparr>)"

section \<open>A client of the protocol\<close>

text \<open>Reading a response the way a client does: lines ended by CR LF up to the empty one, then as many
  bytes as \<open>Content-Length\<close> says.\<close>

fun read_line :: "string \<Rightarrow> string \<times> string" where
  "read_line [] = ([], [])"
| "read_line (c # s) = (if c = CHR 0x0D \<and> s \<noteq> [] \<and> hd s = CHR 0x0A then ([], tl s)
     else let (l, r) = read_line s in (c # l, r))"

fun read_head :: "nat \<Rightarrow> string \<Rightarrow> string list \<times> string" where
  "read_head 0 s = ([], s)"
| "read_head (Suc n) s =
     (let (l, r) = read_line s in if l = [] then ([], r) else let (ls, r) = read_head n r in (l # ls, r))"

definition header :: "string \<Rightarrow> string list \<Rightarrow> string option" where
  "header name ls = map_option (drop (length name)) (List.find (\<lambda>l. take (length name) l = name) ls)"

definition client_read :: "string \<Rightarrow> (string \<times> string) option" where
  "client_read response =
     (let (ls, rest) = read_head (length response) response
      in case (ls, header ''Content-Length: '' ls) of
           (status # _, Some len) \<Rightarrow>
             (let n = nat_of_string len
              in if length rest < n then None else Some (drop 9 status, take n rest))
         | _ \<Rightarrow> None)"

lemma read_line_prefix:
  "CHR 0x0D \<notin> set s \<Longrightarrow> read_line (s @ crlf @ r) = (s, r)"
  by (induction s) auto

lemma read_head_lines:
  assumes "\<forall>l \<in> set ls. CHR 0x0D \<notin> set l \<and> l \<noteq> []" "length ls < n"
  shows "read_head n (concat (map (\<lambda>l. l @ crlf) ls) @ crlf @ r) = (ls, r)"
  using assms
proof (induction ls arbitrary: n)
  case Nil
  then show ?case by (cases n) simp_all
next
  case (Cons l ls)
  then obtain m where m: "n = Suc m" by (cases n) simp_all
  have "read_line ((l @ crlf) @ concat (map (\<lambda>l. l @ crlf) ls) @ crlf @ r)
      = (l, concat (map (\<lambda>l. l @ crlf) ls) @ crlf @ r)"
    using Cons.prems(1) read_line_prefix [of l] by simp
  with Cons m show ?case by simp
qed

lemma digits_no_cr: "CHR 0x0D \<notin> set (decimal_of_nat n)"
  using decimal_of_nat_digits [of "CHR 0x0D" n] by auto

lemma client_read_response:
  assumes "CHR 0x0D \<notin> set status" "CHR 0x0D \<notin> set kind"
  shows "client_read (http_response status kind body) = Some (status, body)"
proof -
  let ?r = "http_response status kind body" and ?len = "''Content-Length: '' @ decimal_of_nat (length body)"
  let ?ls = "[''HTTP/1.1 '' @ status, ''Content-Type: '' @ kind, ?len, ''Connection: close'']"
  have r: "?r = concat (map (\<lambda>l. l @ crlf) ?ls) @ crlf @ body" by (simp add: http_response_def)
  have "length ?ls < length ?r" by (simp add: http_response_def)
  moreover have "\<forall>l \<in> set ?ls. CHR 0x0D \<notin> set l \<and> l \<noteq> []" using assms digits_no_cr by simp
  ultimately have "read_head (length ?r) ?r = (?ls, body)" using read_head_lines [of ?ls "length ?r" body] r by simp
  then show ?thesis by (simp add: client_read_def header_def)
qed

section \<open>The request line\<close>

lemma find_char_here: "c \<notin> set s \<Longrightarrow> find_char c 0 (s @ c # r) = Some (length s)"
  by (induction s) auto

lemma find_char_skip: "find_char c (length s + i) (s @ r) = map_option ((+) (length s)) (find_char c i r)"
  by (induction s) (auto simp: option.map_comp o_def option.map_ident)

lemma find_char_None: "find_char c i s = None \<longleftrightarrow> c \<notin> set (drop i s)"
  by (induction c i s rule: find_char.induct) auto

lemma ParseRequest_line:
  assumes "CHR '' '' \<notin> set method" "CHR '' '' \<notin> set path"
  shows "ParseRequest (method @ CHR '' '' # path @ CHR '' '' # rest) = path"
proof -
  have "find_char (CHR '' '') (length method + 1) (method @ CHR '' '' # path @ CHR '' '' # rest)
      = Some (length method + 1 + length path)"
    using find_char_skip [of "CHR '' ''" "method @ [CHR '' '']" 0 "path @ CHR '' '' # rest"]
      find_char_here [OF assms(2)] by simp
  then show ?thesis using find_char_here [OF assms(1)] by (simp add: ParseRequest_def)
qed

text \<open>The life cycle: a server whose port cannot be bound has still answered \<open>Start\<close> with true, and
  \<open>Stop\<close> always leaves it stopped with its socket closed.\<close>

lemma start_true_without_listening:
  assumes "hs_has_callback s" "\<not> hs_running s" "\<not> sc_bind_ok sys"
  shows "fst (Http_Start s) \<and> \<not> hs_running (snd (ServerLoop sys inputs (snd (Http_Start s))))"
  using assms by (simp add: Http_Start_def ServerLoop_def ServerLoop_open_def Let_def)

lemma Http_Stop_stopped:
  assumes "hs_running s \<or> hs_server_thread s"
  shows "\<not> hs_running (Http_Stop s) \<and> \<not> hs_server_thread (Http_Stop s) \<and> \<not> hs_server_socket (Http_Stop s)
    \<and> hs_stop_requested (Http_Stop s) \<and> Http_Stop (Http_Stop s) = Http_Stop s"
  using assms by (auto simp: Http_Stop_def Let_def)

section \<open>Properties\<close>

text \<open>
  C38. The server hands the metrics over intact: a request whose method and path contain no blank and fit
  the receive buffer is answered by its path alone, with a response from which a client that reads the
  head line by line and takes \<open>Content-Length\<close> bytes recovers the status and the body, for
  \<open>/metrics\<close> exactly the text of the exporter. A request line without two blanks is answered like
  \<open>/\<close>, and nothing is sent when nothing was received.
\<close>

theorem http_serves_metrics:
  assumes "CHR '' '' \<notin> set method" "CHR '' '' \<notin> set path" "CHR 0x00 \<notin> set (method @ path)"
    and "length method + length path + 2 \<le> 4095"
    and "CHR '' '' \<notin> set broken" "broken \<noteq> []"
  shows "(\<exists>response. HandleConnection (GenerateMetricsText show_double x)
        (Some (method @ CHR '' '' # path @ CHR '' '' # rest)) = Some response
      \<and> client_read response = Some
          (if path = ''/metrics'' then (''200 OK'', GenerateMetricsText show_double x)
           else if path = ''/'' then (''200 OK'', info_page) else (''404 Not Found'', ''404 Not Found'' @ newline)))
    \<and> (\<exists>response. HandleConnection (GenerateMetricsText show_double x) (Some broken) = Some response
      \<and> client_read response = Some (''200 OK'', info_page))
    \<and> HandleConnection (GenerateMetricsText show_double x) None = None"
proof -
  let ?line = "method @ CHR '' '' # path @ [CHR '' '']" and ?text = "GenerateMetricsText show_double x"
  let ?got = "\<lambda>bytes. takeWhile (\<lambda>c. c \<noteq> CHR 0x00) (take 4095 bytes)"
  have len: "length ?line \<le> 4095" using assms(4) by simp
  have w: "takeWhile (\<lambda>c. c \<noteq> CHR 0x00) (?line @ r) = ?line @ takeWhile (\<lambda>c. c \<noteq> CHR 0x00) r" for r
    using assms(3) by (intro takeWhile_append2) auto
  have "take 4095 (?line @ rest) = ?line @ take (4095 - length ?line) rest"
    by (rule trans [OF take_append]) (simp only: take_all [OF len])
  then have "?got (?line @ rest) = ?line @ takeWhile (\<lambda>c. c \<noteq> CHR 0x00) (take (4095 - length ?line) rest)"
    by (simp only: w)
  then have "ParseRequest (?got (?line @ rest)) = path"
    using ParseRequest_line [OF assms(1,2)] by simp
  then have p: "ParseRequest (?got (method @ CHR '' '' # path @ CHR '' '' # rest)) = path" by simp
  have "CHR '' '' \<notin> set (?got broken)"
    using assms(5) by (meson in_set_takeD set_takeWhileD)
  then have b: "ParseRequest (?got broken) = ''/''"
    by (simp add: ParseRequest_def find_char_None [THEN iffD2])
  have answer: "client_read (GenerateResponse ?text path) = Some
          (if path = ''/metrics'' then (''200 OK'', ?text)
           else if path = ''/'' then (''200 OK'', info_page) else (''404 Not Found'', ''404 Not Found'' @ newline))" for path
    by (simp add: GenerateResponse_def client_read_response)
  have "HandleConnection ?text (Some (method @ CHR '' '' # path @ CHR '' '' # rest)) = Some (GenerateResponse ?text path)"
    unfolding HandleConnection_def using p by (simp add: Let_def)
  moreover have "HandleConnection ?text (Some broken) = Some (GenerateResponse ?text ''/'')"
    unfolding HandleConnection_def using b assms(6) by (simp add: Let_def)
  ultimately show ?thesis using answer [of path] answer [of "''/''"] by (simp add: HandleConnection_def)
qed

theorem http_serves_metrics_witness:
  "\<exists>response. HandleConnection (GenerateMetricsText (\<lambda>_. ''0'') (MetricsExporter 9308 True))
      (Some ''GET /metrics HTTP/1.1'') = Some response
    \<and> client_read response = Some (''200 OK'', GenerateMetricsText (\<lambda>_. ''0'') (MetricsExporter 9308 True))"
proof -
  have "CHR '' '' \<notin> set ''GET''" "CHR '' '' \<notin> set ''/metrics''" "CHR 0x00 \<notin> set (''GET'' @ ''/metrics'')"
    "length ''GET'' + length ''/metrics'' + 2 \<le> 4095" "CHR '' '' \<notin> set ''GET''" "''GET'' \<noteq> []" by simp_all
  from http_serves_metrics [OF this, of "\<lambda>_. ''0''" "MetricsExporter 9308 True" "''HTTP/1.1''"]
  show ?thesis by simp
qed

end
