(* ===== verification/FFmpegDecoder.thy ===== *)
theory FFmpegDecoder
  imports VideoFileProducer
begin

text \<open>
  The decoder of the frame producer (\<open>include/retrovue/decode/FFmpegDecoder.h\<close>,
  \<open>src/decode/FFmpegDecoder.cpp\<close>, built with FFmpeg): opening a file, reading and decoding the next
  video or audio frame into the ring, converting frames, closing. What the FFmpeg calls answer is an
  input: a record of outcomes for \<open>Open\<close>, and for decoding the list of packets still to be read, each
  with what sending it to its codec and receiving a frame yields. The list ends where \<open>av_read_frame\<close>
  reports the end of the file.
\<close>

section \<open>Data\<close>

record decoder_config =
  dc_input_uri :: string
  dc_target_width :: int
  dc_target_height :: int
  dc_hw_accel_enabled :: bool
  dc_max_decode_threads :: int

definition DecoderConfig :: decoder_config where
  "DecoderConfig = \<lparr>dc_input_uri = '''', dc_target_width = 1920, dc_target_height = 1080,
     dc_hw_accel_enabled = False, dc_max_decode_threads = 0\<rparr>"

record decoder_stats =
  ds_frames_decoded :: nat
  ds_frames_dropped :: nat
  ds_decode_errors :: nat
  ds_average_decode_time_ms :: real
  ds_current_fps :: real

definition DecoderStats :: decoder_stats where
  "DecoderStats = \<lparr>ds_frames_decoded = 0, ds_frames_dropped = 0, ds_decode_errors = 0,
     ds_average_decode_time_ms = 0, ds_current_fps = 0\<rparr>"

text \<open>The decoder; the pointers are true when set.\<close>

record ff_decoder =
  fd_config :: decoder_config
  fd_stats :: decoder_stats
  fd_format_ctx :: bool
  fd_codec_ctx :: bool
  fd_audio_codec_ctx :: bool
  fd_frame :: bool
  fd_scaled_frame :: bool
  fd_audio_frame :: bool
  fd_packet :: bool
  fd_sws_ctx :: bool
  fd_swr_ctx :: bool
  fd_video_stream_index :: int
  fd_audio_stream_index :: int
  fd_eof_reached :: bool
  fd_audio_eof_reached :: bool
  fd_start_time :: int
  fd_time_base :: real
  fd_audio_start_time :: int
  fd_audio_time_base :: real

text \<open>
  The constructor leaves the audio members as the memory was: \<open>junk\<close> is a decoder holding those
  values.
\<close>

definition FFmpegDecoder :: "ff_decoder \<Rightarrow> decoder_config \<Rightarrow> ff_decoder" where
  "FFmpegDecoder junk config = junk\<lparr>fd_config := config, fd_stats := DecoderStats,
     fd_format_ctx := False, fd_codec_ctx := False, fd_frame := False, fd_scaled_frame := False,
     fd_packet := False, fd_sws_ctx := False, fd_video_stream_index := - 1, fd_eof_reached := False,
     fd_start_time := 0, fd_time_base := 0\<rparr>"

section \<open>Opening and closing\<close>

definition Ff_Close :: "ff_decoder \<Rightarrow> ff_decoder" where
  "Ff_Close d = d\<lparr>fd_sws_ctx := False, fd_scaled_frame := False, fd_frame := False, fd_packet := False,
     fd_swr_ctx := False, fd_audio_frame := False, fd_audio_codec_ctx := False, fd_codec_ctx := False,
     fd_format_ctx := False, fd_video_stream_index := - 1, fd_audio_stream_index := - 1,
     fd_eof_reached := False, fd_audio_eof_reached := False\<rparr>"

definition Ff_IsOpen :: "ff_decoder \<Rightarrow> bool" where
  "Ff_IsOpen d \<longleftrightarrow> fd_format_ctx d"

definition Ff_IsEOF :: "ff_decoder \<Rightarrow> bool" where
  "Ff_IsEOF d \<longleftrightarrow> fd_eof_reached d"

datatype media_type = VideoStream | AudioStream | OtherStream

record av_stream =
  as_codec_type :: media_type
  as_time_base :: real
  as_start_time :: "int option"
  as_has_decoder :: bool

text \<open>What the calls of \<open>Open\<close> answer: true for a non-null pointer or a success code.\<close>

record ff_open_env =
  fo_alloc_context :: bool
  fo_open_input :: bool
  fo_find_stream_info :: bool
  fo_streams :: "av_stream list"
  fo_alloc_codec :: bool
  fo_copy_parameters :: bool
  fo_open_codec :: bool
  fo_alloc_frame :: bool
  fo_alloc_scaled_frame :: bool
  fo_audio_alloc_codec :: bool
  fo_audio_copy_parameters :: bool
  fo_audio_open_codec :: bool
  fo_audio_alloc_frame :: bool
  fo_layout_channels :: int
  fo_layout_copy :: bool
  fo_channels :: int
  fo_layout_default_channels :: int
  fo_layout_from_mask :: bool
  fo_swr_alloc :: bool
  fo_swr_set_opts :: bool
  fo_swr_init :: bool
  fo_get_scaler :: bool
  fo_image_alloc :: bool
  fo_packet_alloc :: bool

fun find_stream :: "media_type \<Rightarrow> nat \<Rightarrow> av_stream list \<Rightarrow> nat option" where
  "find_stream kind i [] = None"
| "find_stream kind i (s # streams) =
     (if as_codec_type s = kind then Some i else find_stream kind (Suc i) streams)"

definition start_time_of :: "av_stream \<Rightarrow> int" where
  "start_time_of s = (case as_start_time s of Some t \<Rightarrow> t | None \<Rightarrow> 0)"

definition FindVideoStream :: "ff_open_env \<Rightarrow> ff_decoder \<Rightarrow> bool \<times> ff_decoder" where
  "FindVideoStream e d =
     (case find_stream VideoStream 0 (fo_streams e) of
        None \<Rightarrow> (False, d)
      | Some i \<Rightarrow> (True, d\<lparr>fd_video_stream_index := int i, fd_time_base := as_time_base (fo_streams e ! i),
                         fd_start_time := start_time_of (fo_streams e ! i)\<rparr>))"

definition FindAudioStream :: "ff_open_env \<Rightarrow> ff_decoder \<Rightarrow> bool \<times> ff_decoder" where
  "FindAudioStream e d =
     (case find_stream AudioStream 0 (fo_streams e) of
        None \<Rightarrow> (False, d)
      | Some i \<Rightarrow> (True, d\<lparr>fd_audio_stream_index := int i, fd_audio_time_base := as_time_base (fo_streams e ! i),
                         fd_audio_start_time := start_time_of (fo_streams e ! i)\<rparr>))"

definition InitializeCodec :: "ff_open_env \<Rightarrow> ff_decoder \<Rightarrow> bool \<times> ff_decoder" where
  "InitializeCodec e d =
     (if \<not> as_has_decoder (fo_streams e ! nat (fd_video_stream_index d)) then (False, d)
      else if \<not> fo_alloc_codec e then (False, d\<lparr>fd_codec_ctx := False\<rparr>)
      else let d = d\<lparr>fd_codec_ctx := True\<rparr>
      in if \<not> fo_copy_parameters e then (False, d)
      else if \<not> fo_open_codec e then (False, d)
      else let d = d\<lparr>fd_frame := fo_alloc_frame e, fd_scaled_frame := fo_alloc_scaled_frame e\<rparr>
      in if \<not> fd_frame d \<or> \<not> fd_scaled_frame d then (False, d) else (True, d))"

definition InitializeScaler :: "ff_open_env \<Rightarrow> ff_decoder \<Rightarrow> bool \<times> ff_decoder" where
  "InitializeScaler e d =
     (if \<not> fo_get_scaler e then (False, d\<lparr>fd_sws_ctx := False\<rparr>)
      else let d = d\<lparr>fd_sws_ctx := True\<rparr> in if \<not> fo_image_alloc e then (False, d) else (True, d))"

definition InitializeAudioCodec :: "ff_open_env \<Rightarrow> ff_decoder \<Rightarrow> bool \<times> ff_decoder" where
  "InitializeAudioCodec e d =
     (if fd_audio_stream_index d < 0 then (False, d)
      else if \<not> as_has_decoder (fo_streams e ! nat (fd_audio_stream_index d)) then (False, d)
      else if \<not> fo_audio_alloc_codec e then (False, d\<lparr>fd_audio_codec_ctx := False\<rparr>)
      else let d = d\<lparr>fd_audio_codec_ctx := True\<rparr>
      in if \<not> fo_audio_copy_parameters e then (False, d)
      else if \<not> fo_audio_open_codec e then (False, d)
      else if \<not> fo_audio_alloc_frame e then (False, d\<lparr>fd_audio_frame := False\<rparr>)
      else (True, d\<lparr>fd_audio_frame := True\<rparr>))"

definition InitializeResampler :: "ff_open_env \<Rightarrow> ff_decoder \<Rightarrow> bool \<times> ff_decoder" where
  "InitializeResampler e d =
     (if \<not> fd_audio_codec_ctx d \<or> fd_audio_stream_index d < 0 then (False, d)
      else if 0 < fo_layout_channels e \<and> \<not> fo_layout_copy e then (False, d)
      else if \<not> 0 < fo_layout_channels e \<and> fo_channels e \<le> 0 then (False, d)
      else if \<not> 0 < fo_layout_channels e \<and> fo_layout_default_channels e = 0 then (False, d)
      else if \<not> fo_layout_from_mask e then (False, d)
      else if \<not> fo_swr_alloc e then (False, d\<lparr>fd_swr_ctx := False\<rparr>)
      else if \<not> fo_swr_set_opts e then (False, d\<lparr>fd_swr_ctx := False\<rparr>)
      else if \<not> fo_swr_init e then (False, d\<lparr>fd_swr_ctx := False\<rparr>)
      else (True, d\<lparr>fd_swr_ctx := True\<rparr>))"

definition open_audio :: "ff_open_env \<Rightarrow> ff_decoder \<Rightarrow> ff_decoder" where
  "open_audio e d =
     (if 0 \<le> fd_audio_stream_index d
      then let (ok, d) = InitializeAudioCodec e d
           in if \<not> ok then d\<lparr>fd_audio_stream_index := - 1\<rparr>
              else let (ok, d) = InitializeResampler e d
                   in if \<not> ok then d\<lparr>fd_audio_stream_index := - 1\<rparr> else d
      else d)"

definition Ff_Open :: "ff_open_env \<Rightarrow> ff_decoder \<Rightarrow> bool \<times> ff_decoder" where
  "Ff_Open e d =
     (if \<not> fo_alloc_context e then (False, d\<lparr>fd_format_ctx := False\<rparr>)
      else let d = d\<lparr>fd_format_ctx := True\<rparr>
      in if \<not> fo_open_input e then (False, d\<lparr>fd_format_ctx := False\<rparr>)
      else if \<not> fo_find_stream_info e then (False, Ff_Close d)
      else let (ok, d) = FindVideoStream e d
      in if \<not> ok then (False, Ff_Close d)
      else let (_, d) = FindAudioStream e d;
               (ok, d) = InitializeCodec e d
      in if \<not> ok then (False, Ff_Close d)
      else let d = open_audio e d;
               (ok, d) = InitializeScaler e d
      in if \<not> ok then (False, Ff_Close d)
      else if \<not> fo_packet_alloc e then (False, Ff_Close (d\<lparr>fd_packet := False\<rparr>))
      else (True, d\<lparr>fd_packet := True\<rparr>))"

definition AV_NOPTS_VALUE :: int where
  "AV_NOPTS_VALUE = - (2 ^ 63)"

text \<open>What a decoder says of its video: \<open>width\<close>, \<open>height\<close>, \<open>fps\<close> and \<open>duration\<close> are what the contexts of
  FFmpeg hold.\<close>

definition GetVideoWidth :: "int \<Rightarrow> ff_decoder \<Rightarrow> int" where
  "GetVideoWidth width d = (if \<not> fd_codec_ctx d then 0 else width)"

definition GetVideoHeight :: "int \<Rightarrow> ff_decoder \<Rightarrow> int" where
  "GetVideoHeight height d = (if \<not> fd_codec_ctx d then 0 else height)"

definition GetVideoFPS :: "int \<times> int \<Rightarrow> ff_decoder \<Rightarrow> real" where
  "GetVideoFPS fps d =
     (if \<not> fd_format_ctx d \<or> fd_video_stream_index d < 0 then 0
      else if snd fps = 0 then 0 else real_of_int (fst fps) / real_of_int (snd fps))"

definition GetVideoDuration :: "int \<Rightarrow> ff_decoder \<Rightarrow> real" where
  "GetVideoDuration duration d =
     (if \<not> fd_format_ctx d then 0
      else if duration \<noteq> AV_NOPTS_VALUE then real_of_int duration / 1000000 else 0)"

section \<open>Decoding\<close>

text \<open>A decoded frame: its time stamps as FFmpeg left them.\<close>

record av_video =
  av_pts :: int
  av_best_effort_timestamp :: int
  av_pkt_dts :: int
  av_duration :: int
  av_pkt_duration :: int
  av_image :: scaled_image

text \<open>An audio frame: \<open>aa_delay\<close> is what \<open>swr_get_delay\<close> answers and \<open>aa_converted\<close> with \<open>aa_pcm\<close> what
  \<open>swr_convert\<close> returns and writes.\<close>

record av_audio =
  aa_pts :: int
  aa_best_effort_timestamp :: int
  aa_nb_samples :: int
  aa_sample_rate :: int
  aa_delay :: int
  aa_converted :: int
  aa_pcm :: "u8 list"

datatype av_payload = NeedMore | ReceiveFailed | VideoFrame av_video | AudioSamples av_audio

text \<open>One answer of \<open>av_read_frame\<close>: an error, or a packet with its stream, whether the codec takes it,
  and what is received then.\<close>

datatype av_read = AvError | AvPacket int bool av_payload

text \<open>The frame of the payload in the form the codec of the stream delivers it.\<close>

fun video_of :: "av_payload \<Rightarrow> av_video option" where
  "video_of (VideoFrame v) = Some v" | "video_of _ = None"

fun audio_of :: "av_payload \<Rightarrow> av_audio option" where
  "audio_of (AudioSamples a) = Some a" | "audio_of _ = None"

definition count_error :: "ff_decoder \<Rightarrow> ff_decoder" where
  "count_error d = d\<lparr>fd_stats := (fd_stats d)\<lparr>ds_decode_errors := ds_decode_errors (fd_stats d) + 1\<rparr>\<rparr>"

definition ConvertFrame :: "ff_decoder \<Rightarrow> av_video \<Rightarrow> frame" where
  "ConvertFrame d v =
     (let width = dc_target_width (fd_config d); height = dc_target_height (fd_config d);
          pts = (if av_pts v \<noteq> AV_NOPTS_VALUE then av_pts v else av_best_effort_timestamp v);
          frame_duration = (if av_duration v \<noteq> AV_NOPTS_VALUE then av_duration v else av_pkt_duration v);
          y_size = nat (width * height);
          uv_size = nat ((width sdiv 2) * (height sdiv 2));
          data = replicate (y_size + 2 * uv_size) 0;
          data = copy_plane data 0 (si_data0 (av_image v)) (nat (si_linesize0 (av_image v))) (nat width) (nat height);
          data = copy_plane data y_size (si_data1 (av_image v)) (nat (si_linesize1 (av_image v)))
                   (nat (width sdiv 2)) (nat (height sdiv 2));
          data = copy_plane data (y_size + uv_size) (si_data2 (av_image v)) (nat (si_linesize2 (av_image v)))
                   (nat (width sdiv 2)) (nat (height sdiv 2))
      in \<lparr>fr_metadata = \<lparr>md_pts = pts, md_dts = av_pkt_dts v,
                        md_duration = real_of_int frame_duration * fd_time_base d,
                        md_asset_uri = dc_input_uri (fd_config d)\<rparr>,
          fr_data = data, fr_width = width, fr_height = height\<rparr>)"

text \<open>\<open>ReadAndDecodeFrame\<close>: the frame, if any, the decoder and the packets not yet read. A payload of the
  wrong kind does not occur: a codec delivers frames of its own kind.\<close>

fun ReadAndDecodeFrame :: "av_read list \<Rightarrow> ff_decoder \<Rightarrow> frame option \<times> ff_decoder \<times> av_read list" where
  "ReadAndDecodeFrame [] d = (None, d\<lparr>fd_eof_reached := True\<rparr>, [])"
| "ReadAndDecodeFrame (AvError # packets) d = (None, count_error d, packets)"
| "ReadAndDecodeFrame (AvPacket stream_index sent payload # packets) d =
     (if stream_index \<noteq> fd_video_stream_index d then ReadAndDecodeFrame packets d
      else if \<not> sent then (None, count_error d, packets)
      else if payload = NeedMore then ReadAndDecodeFrame packets d
      else case video_of payload of
        None \<Rightarrow> (None, count_error d, packets)
      | Some v \<Rightarrow> (Some (ConvertFrame d v), d, packets))"

definition Ff_UpdateStats :: "real \<Rightarrow> ff_decoder \<Rightarrow> ff_decoder" where
  "Ff_UpdateStats decode_time_ms d =
     (let s = fd_stats d; alpha = 1 / 10;
          s = s\<lparr>ds_frames_decoded := ds_frames_decoded s + 1\<rparr>;
          s = s\<lparr>ds_average_decode_time_ms := alpha * decode_time_ms + (1 - alpha) * ds_average_decode_time_ms s\<rparr>;
          s = (if 0 < ds_average_decode_time_ms s
               then s\<lparr>ds_current_fps := 1000 / ds_average_decode_time_ms s\<rparr> else s)
      in d\<lparr>fd_stats := s\<rparr>)"

definition count_dropped :: "ff_decoder \<Rightarrow> ff_decoder" where
  "count_dropped d = d\<lparr>fd_stats := (fd_stats d)\<lparr>ds_frames_dropped := ds_frames_dropped (fd_stats d) + 1\<rparr>\<rparr>"

text \<open>\<open>DecodeNextFrame\<close> and \<open>DecodeNextAudioFrame\<close>: the answer, the decoder, the packets left, the ring.\<close>

definition DecodeNextFrame :: "real \<Rightarrow> av_read list \<Rightarrow> ff_decoder \<Rightarrow> ring_buffer
    \<Rightarrow> bool \<times> ff_decoder \<times> av_read list \<times> ring_buffer" where
  "DecodeNextFrame decode_time_ms packets d q =
     (if \<not> Ff_IsOpen d then (False, d, packets, q)
      else if fd_eof_reached d then (False, d, packets, q)
      else case ReadAndDecodeFrame packets d of
        (None, d, packets) \<Rightarrow> (False, d, packets, q)
      | (Some output_frame, d, packets) \<Rightarrow>
          (let (pushed, q) = Push q output_frame
           in if \<not> pushed then (False, count_dropped d, packets, q)
              else (True, Ff_UpdateStats decode_time_ms d, packets, q)))"

definition audio_out_samples :: "av_audio \<Rightarrow> int" where
  "audio_out_samples a = \<lceil>real_of_int ((aa_delay a + aa_nb_samples a) * 48000) / real_of_int (aa_sample_rate a)\<rceil>"

definition ConvertAudioFrame :: "ff_decoder \<Rightarrow> av_audio \<Rightarrow> audio_frame option" where
  "ConvertAudioFrame d a =
     (if \<not> fd_swr_ctx d then None
      else let data = replicate (nat (audio_out_samples a * 2 * 2)) 0;
               data = memcpy data 0 (aa_pcm a) (length (aa_pcm a)); samples_converted = aa_converted a
      in if samples_converted < 0 then None
      else let pts = (if aa_pts a \<noteq> AV_NOPTS_VALUE then aa_pts a else aa_best_effort_timestamp a);
               size = nat (samples_converted * 2 * 2)
      in Some \<lparr>af_data = take size data @ replicate (size - length data) 0,
               af_sample_rate = 48000, af_channels = 2,
               af_pts_us = (if pts \<noteq> AV_NOPTS_VALUE
                  then trunc_real (real_of_int (pts - fd_audio_start_time d) * fd_audio_time_base d * 1000000) else 0),
               af_nb_samples = samples_converted\<rparr>)"

fun ReadAndDecodeAudioFrame :: "av_read list \<Rightarrow> ff_decoder \<Rightarrow> audio_frame option \<times> ff_decoder \<times> av_read list" where
  "ReadAndDecodeAudioFrame [] d =
     (if fd_audio_stream_index d < 0 then (None, d, []) else (None, d\<lparr>fd_audio_eof_reached := True\<rparr>, []))"
| "ReadAndDecodeAudioFrame (AvError # packets) d =
     (if fd_audio_stream_index d < 0 then (None, d, AvError # packets) else (None, count_error d, packets))"
| "ReadAndDecodeAudioFrame (AvPacket stream_index sent payload # packets) d =
     (if fd_audio_stream_index d < 0 then (None, d, AvPacket stream_index sent payload # packets)
      else if stream_index \<noteq> fd_audio_stream_index d then ReadAndDecodeAudioFrame packets d
      else if \<not> sent then (None, count_error d, packets)
      else if payload = NeedMore then ReadAndDecodeAudioFrame packets d
      else case audio_of payload of
        None \<Rightarrow> (None, count_error d, packets)
      | Some a \<Rightarrow> (ConvertAudioFrame d a, d, packets))"

definition DecodeNextAudioFrame :: "av_read list \<Rightarrow> ff_decoder \<Rightarrow> ring_buffer
    \<Rightarrow> bool \<times> ff_decoder \<times> av_read list \<times> ring_buffer" where
  "DecodeNextAudioFrame packets d q =
     (if \<not> Ff_IsOpen d \<or> fd_audio_stream_index d < 0 then (False, d, packets, q)
      else if fd_audio_eof_reached d then (False, d, packets, q)
      else case ReadAndDecodeAudioFrame packets d of
        (None, d, packets) \<Rightarrow> (False, d, packets, q)
      | (Some output_audio_frame, d, packets) \<Rightarrow>
          (let (pushed, q) = PushAudioFrame q output_audio_frame
           in if \<not> pushed then (False, count_dropped d, packets, q) else (True, d, packets, q)))"

section \<open>Which packets a read consumes\<close>

text \<open>A read for stream \<open>i\<close> goes past packets of other streams, and past packets after which the codec
  wants more.\<close>

fun passed_over :: "int \<Rightarrow> av_read \<Rightarrow> bool" where
  "passed_over i AvError = False"
| "passed_over i (AvPacket stream_index sent payload) = (stream_index \<noteq> i \<or> (sent \<and> payload = NeedMore))"

fun delivers_video :: "av_read \<Rightarrow> av_video option" where
  "delivers_video (AvPacket stream_index sent payload) = (if sent then video_of payload else None)"
| "delivers_video AvError = None"

fun delivers_audio :: "av_read \<Rightarrow> av_audio option" where
  "delivers_audio (AvPacket stream_index sent payload) = (if sent then audio_of payload else None)"
| "delivers_audio AvError = None"

lemma ReadAndDecodeFrame_next:
  "ReadAndDecodeFrame packets d =
     (case dropWhile (passed_over (fd_video_stream_index d)) packets of
        [] \<Rightarrow> (None, d\<lparr>fd_eof_reached := True\<rparr>, [])
      | p # rest \<Rightarrow> (case delivers_video p of
          None \<Rightarrow> (None, count_error d, rest) | Some v \<Rightarrow> (Some (ConvertFrame d v), d, rest)))"
  by (induction packets d rule: ReadAndDecodeFrame.induct) (auto split: option.split)

lemma ReadAndDecodeAudioFrame_next:
  "0 \<le> fd_audio_stream_index d \<Longrightarrow> ReadAndDecodeAudioFrame packets d =
     (case dropWhile (passed_over (fd_audio_stream_index d)) packets of
        [] \<Rightarrow> (None, d\<lparr>fd_audio_eof_reached := True\<rparr>, [])
      | p # rest \<Rightarrow> (case delivers_audio p of
          None \<Rightarrow> (None, count_error d, rest) | Some a \<Rightarrow> (ConvertAudioFrame d a, d, rest)))"
  by (induction packets d rule: ReadAndDecodeAudioFrame.induct) (auto split: option.split)

lemma Push_cases:
  assumes "rb_wf q"
  obtains (pushed) q' where "Push q f = (True, q')" "rb_frames q' = rb_frames q @ [f]" "rb_wf q'"
      "rb_room q' = rb_room q" "length (rb_frames q) < rb_room q"
    | (full) "Push q f = (False, q)" "length (rb_frames q) = rb_room q"
  using Push_full [OF assms, of f] Push_room [OF assms, of f] rb_frames_bounded [OF assms]
  by (metis le_neq_implies_less)

lemma PushAudioFrame_cases:
  assumes "rb_wf q"
  obtains (pushed) q' where "PushAudioFrame q f = (True, q')" "rb_audio_frames q' = rb_audio_frames q @ [f]"
      "length (rb_audio_frames q) < rb_room q"
    | (full) "PushAudioFrame q f = (False, q)" "length (rb_audio_frames q) = rb_room q"
  using PushAudioFrame_full [OF assms, of f] PushAudioFrame_room [OF assms, of f] rb_audio_frames_bounded [OF assms]
  by (metis le_neq_implies_less)

lemma DecodeNextFrame_next:
  assumes "rb_wf q" "fd_format_ctx d" "\<not> fd_eof_reached d"
  shows "(case dropWhile (passed_over (fd_video_stream_index d)) packets of
        [] \<Rightarrow> DecodeNextFrame ms packets d q = (False, d\<lparr>fd_eof_reached := True\<rparr>, [], q)
      | p # rest \<Rightarrow> (case delivers_video p of
          None \<Rightarrow> DecodeNextFrame ms packets d q = (False, count_error d, rest, q)
        | Some v \<Rightarrow> if length (rb_frames q) = rb_room q
            then DecodeNextFrame ms packets d q = (False, count_dropped d, rest, q)
            else (\<exists>q'. DecodeNextFrame ms packets d q = (True, Ff_UpdateStats ms d, rest, q')
                    \<and> rb_frames q' = rb_frames q @ [ConvertFrame d v] \<and> rb_wf q')))"
proof (cases "dropWhile (passed_over (fd_video_stream_index d)) packets")
  case Nil
  then have "ReadAndDecodeFrame packets d = (None, d\<lparr>fd_eof_reached := True\<rparr>, [])"
    by (simp only: ReadAndDecodeFrame_next list.case)
  with assms Nil show ?thesis by (simp only: DecodeNextFrame_def Ff_IsOpen_def list.case) simp
next
  case (Cons p rest)
  show ?thesis
  proof (cases "delivers_video p")
    case None
    with Cons have "ReadAndDecodeFrame packets d = (None, count_error d, rest)"
      by (simp only: ReadAndDecodeFrame_next list.case option.case)
    with assms Cons None show ?thesis by (simp only: DecodeNextFrame_def Ff_IsOpen_def list.case option.case) simp
  next
    case (Some v)
    with Cons have r: "ReadAndDecodeFrame packets d = (Some (ConvertFrame d v), d, rest)"
      by (simp only: ReadAndDecodeFrame_next list.case option.case)
    show ?thesis
      by (rule Push_cases [OF assms(1), of "ConvertFrame d v"])
        (use assms r in \<open>simp_all add: Cons Some DecodeNextFrame_def Ff_IsOpen_def\<close>)
  qed
qed

lemma DecodeNextAudioFrame_next:
  assumes "rb_wf q" "fd_format_ctx d" "\<not> fd_audio_eof_reached d" "0 \<le> fd_audio_stream_index d"
  shows "(case dropWhile (passed_over (fd_audio_stream_index d)) packets of
        [] \<Rightarrow> DecodeNextAudioFrame packets d q = (False, d\<lparr>fd_audio_eof_reached := True\<rparr>, [], q)
      | p # rest \<Rightarrow> (case delivers_audio p of
          None \<Rightarrow> DecodeNextAudioFrame packets d q = (False, count_error d, rest, q)
        | Some a \<Rightarrow> (case ConvertAudioFrame d a of
            None \<Rightarrow> DecodeNextAudioFrame packets d q = (False, d, rest, q)
          | Some f \<Rightarrow> if length (rb_audio_frames q) = rb_room q
              then DecodeNextAudioFrame packets d q = (False, count_dropped d, rest, q)
              else (\<exists>q'. DecodeNextAudioFrame packets d q = (True, d, rest, q')
                      \<and> rb_audio_frames q' = rb_audio_frames q @ [f]))))"
proof (cases "dropWhile (passed_over (fd_audio_stream_index d)) packets")
  case Nil
  then have "ReadAndDecodeAudioFrame packets d = (None, d\<lparr>fd_audio_eof_reached := True\<rparr>, [])"
    by (simp only: ReadAndDecodeAudioFrame_next [OF assms(4)] list.case)
  with assms Nil show ?thesis by (simp only: DecodeNextAudioFrame_def Ff_IsOpen_def list.case) simp
next
  case (Cons p rest)
  show ?thesis
  proof (cases "delivers_audio p")
    case None
    with Cons have "ReadAndDecodeAudioFrame packets d = (None, count_error d, rest)"
      by (simp only: ReadAndDecodeAudioFrame_next [OF assms(4)] list.case option.case)
    with assms Cons None show ?thesis
      by (simp only: DecodeNextAudioFrame_def Ff_IsOpen_def list.case option.case) simp
  next
    case (Some a)
    with Cons have r: "ReadAndDecodeAudioFrame packets d = (ConvertAudioFrame d a, d, rest)"
      by (simp only: ReadAndDecodeAudioFrame_next [OF assms(4)] list.case option.case)
    show ?thesis
    proof (cases "ConvertAudioFrame d a")
      case None
      with assms r show ?thesis by (simp add: Cons Some DecodeNextAudioFrame_def Ff_IsOpen_def)
    next
      case f: (Some f)
      show ?thesis
        by (rule PushAudioFrame_cases [OF assms(1), of f])
          (use assms r in \<open>simp_all add: Cons Some f DecodeNextAudioFrame_def Ff_IsOpen_def\<close>)
    qed
  qed
qed

section \<open>Properties\<close>

text \<open>
  C27. What one decode step takes from the file: the video step goes past every packet of another
  stream, audio included, and past packets that yield nothing yet; the first other one is consumed and
  either gives a frame, appended to the ring or counted as dropped when the ring is full, or is counted
  as a decode error; at the end of the file the end is recorded. The audio step does the same for its
  stream, so video packets before the next audio packet are thrown away.
\<close>

theorem decode_steps:
  assumes "rb_wf q" "fd_format_ctx d" "\<not> fd_eof_reached d" "\<not> fd_audio_eof_reached d"
    and "0 \<le> fd_audio_stream_index d"
  shows "(case dropWhile (passed_over (fd_video_stream_index d)) packets of
        [] \<Rightarrow> DecodeNextFrame ms packets d q = (False, d\<lparr>fd_eof_reached := True\<rparr>, [], q)
      | p # rest \<Rightarrow> (case delivers_video p of
          None \<Rightarrow> DecodeNextFrame ms packets d q = (False, count_error d, rest, q)
        | Some v \<Rightarrow> if length (rb_frames q) = rb_room q
            then DecodeNextFrame ms packets d q = (False, count_dropped d, rest, q)
            else (\<exists>q'. DecodeNextFrame ms packets d q = (True, Ff_UpdateStats ms d, rest, q')
                    \<and> rb_frames q' = rb_frames q @ [ConvertFrame d v] \<and> rb_wf q')))
    \<and> (case dropWhile (passed_over (fd_audio_stream_index d)) packets of
        [] \<Rightarrow> DecodeNextAudioFrame packets d q = (False, d\<lparr>fd_audio_eof_reached := True\<rparr>, [], q)
      | p # rest \<Rightarrow> (case delivers_audio p of
          None \<Rightarrow> DecodeNextAudioFrame packets d q = (False, count_error d, rest, q)
        | Some a \<Rightarrow> (case ConvertAudioFrame d a of
            None \<Rightarrow> DecodeNextAudioFrame packets d q = (False, d, rest, q)
          | Some f \<Rightarrow> if length (rb_audio_frames q) = rb_room q
              then DecodeNextAudioFrame packets d q = (False, count_dropped d, rest, q)
              else (\<exists>q'. DecodeNextAudioFrame packets d q = (True, d, rest, q')
                      \<and> rb_audio_frames q' = rb_audio_frames q @ [f]))))"
  using DecodeNextFrame_next [OF assms(1-3)] DecodeNextAudioFrame_next [OF assms(1,2,4,5)] by blast

text \<open>A file with one video and one audio stream, everything about it in order.\<close>

definition good_file :: ff_open_env where
  "good_file = \<lparr>fo_alloc_context = True, fo_open_input = True, fo_find_stream_info = True,
     fo_streams = [\<lparr>as_codec_type = VideoStream, as_time_base = 1 / 90000, as_start_time = None, as_has_decoder = True\<rparr>,
                   \<lparr>as_codec_type = AudioStream, as_time_base = 1 / 48000, as_start_time = Some 0, as_has_decoder = True\<rparr>],
     fo_alloc_codec = True, fo_copy_parameters = True, fo_open_codec = True, fo_alloc_frame = True,
     fo_alloc_scaled_frame = True, fo_audio_alloc_codec = True, fo_audio_copy_parameters = True,
     fo_audio_open_codec = True, fo_audio_alloc_frame = True, fo_layout_channels = 2, fo_layout_copy = True,
     fo_channels = 0, fo_layout_default_channels = 0, fo_layout_from_mask = True, fo_swr_alloc = True,
     fo_swr_set_opts = True, fo_swr_init = True, fo_get_scaler = True, fo_image_alloc = True, fo_packet_alloc = True\<rparr>"

definition some_memory :: ff_decoder where
  "some_memory = \<lparr>fd_config = DecoderConfig, fd_stats = DecoderStats, fd_format_ctx = False, fd_codec_ctx = False,
     fd_audio_codec_ctx = False, fd_frame = False, fd_scaled_frame = False, fd_audio_frame = False,
     fd_packet = False, fd_sws_ctx = False, fd_swr_ctx = False, fd_video_stream_index = 0,
     fd_audio_stream_index = 0, fd_eof_reached = False, fd_audio_eof_reached = False, fd_start_time = 0,
     fd_time_base = 0, fd_audio_start_time = 0, fd_audio_time_base = 0\<rparr>"

lemma good_file_opens:
  "fst (Ff_Open good_file (FFmpegDecoder some_memory config))"
  "fd_format_ctx (snd (Ff_Open good_file (FFmpegDecoder some_memory config)))"
  "fd_video_stream_index (snd (Ff_Open good_file (FFmpegDecoder some_memory config))) = 0"
  "fd_audio_stream_index (snd (Ff_Open good_file (FFmpegDecoder some_memory config))) = 1"
  "\<not> fd_eof_reached (snd (Ff_Open good_file (FFmpegDecoder some_memory config)))"
  "\<not> fd_audio_eof_reached (snd (Ff_Open good_file (FFmpegDecoder some_memory config)))"
  by (simp_all add: Ff_Open_def FFmpegDecoder_def good_file_def some_memory_def FindVideoStream_def
      FindAudioStream_def InitializeCodec_def open_audio_def InitializeAudioCodec_def InitializeResampler_def
      InitializeScaler_def Let_def)

theorem decode_steps_witness:
  "DecodeNextAudioFrame [AvPacket 0 True NeedMore, AvPacket 1 False NeedMore, AvPacket 0 True NeedMore]
     (snd (Ff_Open good_file (FFmpegDecoder some_memory DecoderConfig))) (FrameRingBuffer 4)
   = (False, count_error (snd (Ff_Open good_file (FFmpegDecoder some_memory DecoderConfig))),
      [AvPacket 0 True NeedMore], FrameRingBuffer 4)"
proof -
  let ?d = "snd (Ff_Open good_file (FFmpegDecoder some_memory DecoderConfig))"
  have wf: "rb_wf (FrameRingBuffer 4)" using FrameRingBuffer_wf [of 4] by simp
  have "0 \<le> fd_audio_stream_index ?d" by (simp add: good_file_opens)
  from decode_steps [OF wf good_file_opens(2,5,6) this,
      where packets = "[AvPacket 0 True NeedMore, AvPacket 1 False NeedMore, AvPacket 0 True NeedMore]", THEN conjunct2]
  show ?thesis by (simp add: good_file_opens)
qed

text \<open>What an audio step throws away: any number of video packets in front of the next audio packet.\<close>

lemma audio_step_discards_video:
  assumes "\<forall>p \<in> set vs. passed_over (fd_audio_stream_index d) p"
  shows "DecodeNextAudioFrame (vs @ packets) d q
     = (if Ff_IsOpen d \<and> 0 \<le> fd_audio_stream_index d \<and> \<not> fd_audio_eof_reached d
        then DecodeNextAudioFrame packets d q else (False, d, vs @ packets, q))"
  using assms by (auto simp: DecodeNextAudioFrame_def ReadAndDecodeAudioFrame_next dropWhile_append2)

end
