(* ===== verification/FrameProducer.thy ===== *)
theory FrameProducer
  imports FFmpegDecoder
begin

text \<open>
  The frame producer of the playout engine (\<open>include/retrovue/decode/FrameProducer.h\<close>,
  \<open>src/decode/FrameProducer.cpp\<close>): its configuration and state, start, stop and teardown, the decode
  loop one pass at a time, the stub frames and the frames of the decoder. The file behind the decoder is
  the list of packets still to be read, carried in the state. A pass gets what it reads from its
  surroundings, the clock readings in order among them; a wait that never ends is \<open>None\<close>.
\<close>

section \<open>State\<close>

record frame_producer_config =
  fc_asset_uri :: string
  fc_target_width :: int
  fc_target_height :: int
  fc_target_fps :: real
  fc_stub_mode :: bool
  fc_hw_accel_enabled :: bool
  fc_max_decode_threads :: int

definition FrameProducerConfig :: frame_producer_config where
  "FrameProducerConfig = \<lparr>fc_asset_uri = '''', fc_target_width = 1920, fc_target_height = 1080,
     fc_target_fps = 30, fc_stub_mode = False, fc_hw_accel_enabled = False, fc_max_decode_threads = 0\<rparr>"

record frame_producer =
  fp_config :: frame_producer_config
  fp_running :: bool
  fp_stop_requested :: bool
  fp_frames_produced :: nat
  fp_buffer_full_count :: nat
  fp_thread :: thread_status
  fp_decoder :: "ff_decoder option"
  fp_file :: "av_read list"
  fp_has_clock :: bool
  fp_teardown_requested :: bool
  fp_teardown_deadline_ms :: int
  fp_drain_timeout_ms :: int
  fp_stub_pts_counter :: int
  fp_frame_interval_us :: int
  fp_next_stub_deadline_utc :: int

text \<open>What one pass reads: clock readings, the steady clock, and how long the decoding took.\<close>

record pass_input =
  pi_clk :: "nat \<Rightarrow> time_us"
  pi_steady_now_ms :: int
  pi_decode_time_ms :: real

definition kFpBackoffUs :: time_us where
  "kFpBackoffUs = 10000"

definition kDecoderUnavailableBackoffUs :: time_us where
  "kDecoderUnavailableBackoffUs = 100000"

text \<open>The waits, from clock reading \<open>i\<close>; the result is the next reading.\<close>

definition Fp_WaitUntilUtc :: "frame_producer \<Rightarrow> pass_input \<Rightarrow> time_us \<Rightarrow> nat \<Rightarrow> nat option" where
  "Fp_WaitUntilUtc p inp target_utc_us i =
     (if \<not> fp_has_clock p \<or> target_utc_us \<le> 0 then Some i
      else map_option Suc (wait_until_utc_us (pi_clk inp) target_utc_us i))"

definition Fp_WaitForMicros :: "frame_producer \<Rightarrow> pass_input \<Rightarrow> time_us \<Rightarrow> nat \<Rightarrow> nat option" where
  "Fp_WaitForMicros p inp duration_us i =
     (if duration_us \<le> 0 then Some i
      else if fp_has_clock p then Fp_WaitUntilUtc p inp (pi_clk inp i + duration_us) (Suc i)
      else Some i)"

section \<open>Life cycle\<close>

definition FrameProducer :: "frame_producer_config \<Rightarrow> av_read list \<Rightarrow> bool \<Rightarrow> frame_producer" where
  "FrameProducer config file clock =
     \<lparr>fp_config = config, fp_running = False, fp_stop_requested = False, fp_frames_produced = 0,
      fp_buffer_full_count = 0, fp_thread = NoThread, fp_decoder = None, fp_file = file,
      fp_has_clock = clock, fp_teardown_requested = False, fp_teardown_deadline_ms = 0,
      fp_drain_timeout_ms = 0, fp_stub_pts_counter = 0,
      fp_frame_interval_us = trunc_real (max 1 (real_of_int (llround (1000000 / fc_target_fps config)))),
      fp_next_stub_deadline_utc = 0\<rparr>"

definition Fp_Start :: "frame_producer \<Rightarrow> bool \<times> frame_producer" where
  "Fp_Start p =
     (if fp_running p then (False, p)
      else (True, p\<lparr>fp_running := True, fp_stop_requested := False, fp_thread := Spawned\<rparr>))"

definition Fp_RequestTeardown :: "int \<Rightarrow> int \<Rightarrow> frame_producer \<Rightarrow> frame_producer" where
  "Fp_RequestTeardown drain_timeout_ms steady_now_ms p =
     (if \<not> fp_running p then p
      else p\<lparr>fp_drain_timeout_ms := drain_timeout_ms,
             fp_teardown_deadline_ms := steady_now_ms + drain_timeout_ms, fp_teardown_requested := True\<rparr>)"

definition Fp_ForceStop :: "frame_producer \<Rightarrow> frame_producer" where
  "Fp_ForceStop p = p\<lparr>fp_stop_requested := True\<rparr>"

definition Fp_IsRunning :: "frame_producer \<Rightarrow> bool" where
  "Fp_IsRunning p \<longleftrightarrow> fp_running p"

section \<open>The decode loop\<close>

text \<open>The thread before its loop: \<open>junk\<close> is the memory the decoder is created in, \<open>e\<close> the file.\<close>

definition Fp_ProduceLoop_begin :: "ff_decoder \<Rightarrow> ff_open_env \<Rightarrow> frame_producer \<Rightarrow> frame_producer" where
  "Fp_ProduceLoop_begin junk e p =
     (let p = (if fc_stub_mode (fp_config p) then p
               else let (ok, d) = Ff_Open e (FFmpegDecoder junk
                          \<lparr>dc_input_uri = fc_asset_uri (fp_config p), dc_target_width = fc_target_width (fp_config p),
                           dc_target_height = fc_target_height (fp_config p),
                           dc_hw_accel_enabled = fc_hw_accel_enabled (fp_config p),
                           dc_max_decode_threads = fc_max_decode_threads (fp_config p)\<rparr>)
                    in if \<not> ok then p\<lparr>fp_config := (fp_config p)\<lparr>fc_stub_mode := True\<rparr>, fp_decoder := None\<rparr>
                       else p\<lparr>fp_decoder := Some d\<rparr>)
      in p\<lparr>fp_thread := InLoop\<rparr>)"

definition Fp_stub_frame :: "frame_producer \<Rightarrow> frame" where
  "Fp_stub_frame p =
     (let width = fc_target_width (fp_config p); height = fc_target_height (fp_config p);
          y_size = nat (width * height); uv_size = nat ((width sdiv 2) * (height sdiv 2));
          y_value = word_of_int ((fp_stub_pts_counter p * 10) smod 256)
      in \<lparr>fr_metadata = \<lparr>md_pts = fp_stub_pts_counter p, md_dts = fp_stub_pts_counter p,
                         md_duration = real_of_int (fp_frame_interval_us p) / 1000000,
                         md_asset_uri = fc_asset_uri (fp_config p)\<rparr>,
          fr_data = replicate y_size y_value @ replicate (2 * uv_size) 128,
          fr_width = width, fr_height = height\<rparr>)"

definition Fp_ProduceStubFrame :: "pass_input \<Rightarrow> nat \<Rightarrow> frame_producer \<Rightarrow> ring_buffer
    \<Rightarrow> (frame_producer \<times> ring_buffer) option" where
  "Fp_ProduceStubFrame inp i p q =
     (let (pushed, q) = Push q (Fp_stub_frame p)
      in if pushed
         then let p = p\<lparr>fp_frames_produced := fp_frames_produced p + 1,
                        fp_stub_pts_counter := fp_stub_pts_counter p + fp_frame_interval_us p\<rparr>
           in if fp_has_clock p
              then let (p, i) = (if fp_next_stub_deadline_utc p = 0
                         then (p\<lparr>fp_next_stub_deadline_utc := pi_clk inp i\<rparr>, Suc i) else (p, i));
                       p = p\<lparr>fp_next_stub_deadline_utc := fp_next_stub_deadline_utc p + fp_frame_interval_us p\<rparr>
                   in case Fp_WaitUntilUtc p inp (fp_next_stub_deadline_utc p) i of
                        None \<Rightarrow> None | Some _ \<Rightarrow> Some (p, q)
              else Some (p, q)
         else let p = p\<lparr>fp_buffer_full_count := fp_buffer_full_count p + 1\<rparr>
              in case Fp_WaitForMicros p inp kFpBackoffUs i of None \<Rightarrow> None | Some _ \<Rightarrow> Some (p, q))"

definition Fp_ProduceRealFrame :: "pass_input \<Rightarrow> frame_producer \<Rightarrow> ring_buffer
    \<Rightarrow> (frame_producer \<times> ring_buffer) option" where
  "Fp_ProduceRealFrame inp p q =
     (case fp_decoder p of
        None \<Rightarrow> (case Fp_WaitForMicros p inp kDecoderUnavailableBackoffUs 0 of None \<Rightarrow> None | Some _ \<Rightarrow> Some (p, q))
      | Some d \<Rightarrow>
        if \<not> Ff_IsOpen d
        then (case Fp_WaitForMicros p inp kDecoderUnavailableBackoffUs 0 of None \<Rightarrow> None | Some _ \<Rightarrow> Some (p, q))
        else let (ok, d, file, q) = DecodeNextFrame (pi_decode_time_ms inp) (fp_file p) d q;
                 p = p\<lparr>fp_decoder := Some d, fp_file := file\<rparr>
        in if \<not> ok
           then if Ff_IsEOF d then Some (p\<lparr>fp_stop_requested := True\<rparr>, q)
                else (case Fp_WaitForMicros p inp kFpBackoffUs 0 of
                        None \<Rightarrow> None
                      | Some _ \<Rightarrow> Some (p\<lparr>fp_buffer_full_count := fp_buffer_full_count p + 1\<rparr>, q))
           else let p = p\<lparr>fp_frames_produced := fp_frames_produced p + 1\<rparr>;
                    (_, d, file, q) = DecodeNextAudioFrame file d q
                in Some (p\<lparr>fp_decoder := Some d, fp_file := file\<rparr>, q))"

text \<open>One pass of the loop, when no stop is requested.\<close>

definition Fp_ProduceLoop_pass :: "pass_input \<Rightarrow> frame_producer \<Rightarrow> ring_buffer
    \<Rightarrow> (frame_producer \<times> ring_buffer) option" where
  "Fp_ProduceLoop_pass inp p q =
     (if fp_teardown_requested p
      then if fp_teardown_deadline_ms p \<le> pi_steady_now_ms inp then Some (p\<lparr>fp_stop_requested := True\<rparr>, q)
           else if IsEmpty q then Some (p\<lparr>fp_stop_requested := True\<rparr>, q)
           else (case Fp_WaitForMicros p inp 1000 0 of None \<Rightarrow> None | Some _ \<Rightarrow> Some (p, q))
      else if fc_stub_mode (fp_config p)
      then let (p, i) = (if fp_has_clock p \<and> fp_next_stub_deadline_utc p = 0
                         then (p\<lparr>fp_next_stub_deadline_utc := pi_clk inp 0\<rparr>, 1) else (p, 0))
           in Fp_ProduceStubFrame inp i p q
      else Fp_ProduceRealFrame inp p q)"

definition Fp_ProduceLoop_end :: "frame_producer \<Rightarrow> frame_producer" where
  "Fp_ProduceLoop_end p =
     (p\<lparr>fp_decoder := None, fp_thread := Exited\<rparr>)"

text \<open>One turn of the producer thread in whatever phase it is; nothing once it has returned.\<close>

definition Fp_thread_turn :: "ff_decoder \<Rightarrow> ff_open_env \<Rightarrow> pass_input \<Rightarrow> frame_producer \<Rightarrow> ring_buffer
    \<Rightarrow> (frame_producer \<times> ring_buffer) option" where
  "Fp_thread_turn junk e inp p q =
     (case fp_thread p of
        Spawned \<Rightarrow> Some (Fp_ProduceLoop_begin junk e p, q)
      | InLoop \<Rightarrow> if fp_stop_requested p then Some (Fp_ProduceLoop_end p, q) else Fp_ProduceLoop_pass inp p q
      | _ \<Rightarrow> Some (p, q))"

text \<open>\<open>Stop\<close>: the request, and what follows once the thread has been joined.\<close>

definition Fp_Stop_request :: "frame_producer \<Rightarrow> frame_producer" where
  "Fp_Stop_request p = (if \<not> fp_running p then p else p\<lparr>fp_stop_requested := True\<rparr>)"

definition Fp_Stop_finish :: "frame_producer \<Rightarrow> frame_producer" where
  "Fp_Stop_finish p = p\<lparr>fp_running := False\<rparr>"

section \<open>The producer and its surroundings\<close>

text \<open>
  The state is the producer, its ring and the frames the consumer has taken out so far. The producer
  thread takes a turn, the consumer pops, and the owner starts, tears down, forces a stop, requests a
  stop and, when the thread has returned, joins it.
\<close>

inductive fp_step :: "frame_producer \<times> ring_buffer \<times> frame list \<Rightarrow> frame_producer \<times> ring_buffer \<times> frame list \<Rightarrow> bool" where
  fp_start: "fp_thread p \<noteq> Spawned \<Longrightarrow> fp_thread p \<noteq> InLoop \<Longrightarrow> fp_step (p, q, out) (snd (Fp_Start p), q, out)"
| fp_turn: "Fp_thread_turn junk e inp p q = Some (p', q') \<Longrightarrow> fp_step (p, q, out) (p', q', out)"
| fp_pop: "Pop q = (Some f, q') \<Longrightarrow> fp_step (p, q, out) (p, q', out @ [f])"
| fp_teardown: "fp_step (p, q, out) (Fp_RequestTeardown ms now p, q, out)"
| fp_force: "fp_step (p, q, out) (Fp_ForceStop p, q, out)"
| fp_stop: "fp_step (p, q, out) (Fp_Stop_request p, q, out)"
| fp_join: "fp_thread p = Exited \<Longrightarrow> fp_running p \<Longrightarrow> fp_stop_requested p \<Longrightarrow> fp_step (p, q, out) (Fp_Stop_finish p, q, out)"

inductive_cases fp_stepE: "fp_step (p, q, out) s"

text \<open>What a turn leaves as it is, and what it adds to the ring.\<close>

definition fp_turn_ok :: "frame_producer \<Rightarrow> ring_buffer \<Rightarrow> frame_producer \<Rightarrow> ring_buffer \<Rightarrow> bool" where
  "fp_turn_ok p q p' q' \<longleftrightarrow> rb_wf q' \<and> fp_running p' = fp_running p
     \<and> fp_frame_interval_us p' = fp_frame_interval_us p
     \<and> (fc_stub_mode (fp_config p) \<longrightarrow> fp_config p' = fp_config p)
     \<and> ((rb_frames q' = rb_frames q \<and> fp_frames_produced p' = fp_frames_produced p
          \<and> fp_stub_pts_counter p' = fp_stub_pts_counter p)
        \<or> (\<exists>f. rb_frames q' = rb_frames q @ [f] \<and> fp_frames_produced p' = fp_frames_produced p + 1
          \<and> (fc_stub_mode (fp_config p) \<longrightarrow> md_pts (fr_metadata f) = fp_stub_pts_counter p
               \<and> fp_stub_pts_counter p' = fp_stub_pts_counter p + fp_frame_interval_us p)))"

lemma Fp_ProduceStubFrame_ok:
  assumes "rb_wf q" "Fp_ProduceStubFrame inp i p q = Some (p', q')"
  shows "fp_turn_ok p q p' q'"
proof (rule Push_cases [OF assms(1), of "Fp_stub_frame p"])
  fix q1
  assume "Push q (Fp_stub_frame p) = (True, q1)" "rb_frames q1 = rb_frames q @ [Fp_stub_frame p]" "rb_wf q1"
  then show ?thesis
    using assms(2)
    by (auto simp: Fp_ProduceStubFrame_def Let_def fp_turn_ok_def Fp_stub_frame_def split: if_splits option.splits)
next
  assume "Push q (Fp_stub_frame p) = (False, q)"
  then show ?thesis
    using assms by (auto simp: Fp_ProduceStubFrame_def Let_def fp_turn_ok_def split: option.splits)
qed

lemma DecodeNextFrame_ok:
  assumes "rb_wf q" "DecodeNextFrame ms file d q = (ok, d', file', q')"
  shows "rb_wf q' \<and> (if ok then \<exists>f. rb_frames q' = rb_frames q @ [f] else q' = q)"
proof (cases "Ff_IsOpen d \<and> \<not> fd_eof_reached d")
  case False
  with assms show ?thesis by (auto simp: DecodeNextFrame_def split: if_splits)
next
  case True
  show ?thesis
  proof (cases "ReadAndDecodeFrame file d")
    case (fields r d1 file1)
    show ?thesis
    proof (cases r)
      case None
      with fields True assms show ?thesis by (simp add: DecodeNextFrame_def)
    next
      case (Some f)
      show ?thesis
        by (rule Push_cases [OF assms(1), of f])
          (use True fields Some assms in \<open>auto simp: DecodeNextFrame_def\<close>)
    qed
  qed
qed

lemma PushAudioFrame_keeps_video:
  assumes "rb_wf q"
  shows "rb_frames (snd (PushAudioFrame q f)) = rb_frames q"
  by (simp add: PushAudioFrame_def Let_def rb_frames_def)

lemma PushAudioFrame_keeps_wf: "rb_wf q \<Longrightarrow> rb_wf (snd (PushAudioFrame q f))"
  using PushAudioFrame_full [of q f] PushAudioFrame_room [of q f] rb_audio_frames_bounded [of q]
  by (metis le_neq_implies_less snd_conv)

lemma DecodeNextAudioFrame_ok:
  assumes "rb_wf q" "DecodeNextAudioFrame file d q = (ok, d', file', q')"
  shows "rb_wf q' \<and> rb_frames q' = rb_frames q"
  using assms PushAudioFrame_keeps_video [OF assms(1)] PushAudioFrame_keeps_wf [OF assms(1)]
  by (auto simp: DecodeNextAudioFrame_def split: if_splits prod.splits option.splits) (metis snd_conv)+

lemma Fp_ProduceRealFrame_ok:
  assumes "rb_wf q" "Fp_ProduceRealFrame inp p q = Some (p', q')" "\<not> fc_stub_mode (fp_config p)"
  shows "fp_turn_ok p q p' q'"
proof (cases "fp_decoder p")
  case None
  with assms show ?thesis by (auto simp: Fp_ProduceRealFrame_def fp_turn_ok_def split: option.splits)
next
  case (Some d)
  show ?thesis
  proof (cases "Ff_IsOpen d")
    case False
    with Some assms show ?thesis by (auto simp: Fp_ProduceRealFrame_def fp_turn_ok_def split: option.splits)
  next
    case True
    obtain ok d1 file1 q1 where v: "DecodeNextFrame (pi_decode_time_ms inp) (fp_file p) d q = (ok, d1, file1, q1)"
      by (cases "DecodeNextFrame (pi_decode_time_ms inp) (fp_file p) d q")
    note ok = DecodeNextFrame_ok [OF assms(1) v]
    show ?thesis
    proof (cases ok)
      case False
      with ok v Some True assms show ?thesis
        by (auto simp: Fp_ProduceRealFrame_def fp_turn_ok_def Let_def split: if_splits option.splits)
    next
      case ok1: True
      obtain ok2 d2 file2 q2 where a: "DecodeNextAudioFrame file1 d1 q1 = (ok2, d2, file2, q2)"
        by (cases "DecodeNextAudioFrame file1 d1 q1")
      with ok ok1 DecodeNextAudioFrame_ok [OF _ a] v Some True assms show ?thesis
        by (auto simp: Fp_ProduceRealFrame_def fp_turn_ok_def Let_def)
    qed
  qed
qed

lemma Fp_thread_turn_ok:
  assumes "rb_wf q" "Fp_thread_turn junk e inp p q = Some (p', q')"
  shows "fp_turn_ok p q p' q'"
proof (cases "fp_thread p = InLoop \<and> \<not> fp_stop_requested p \<and> \<not> fp_teardown_requested p")
  case True
  then have l: "Fp_ProduceLoop_pass inp p q = Some (p', q')" using assms by (simp add: Fp_thread_turn_def)
  show ?thesis
  proof (cases "fc_stub_mode (fp_config p)")
    case stub: True
    show ?thesis
    proof (cases "fp_has_clock p \<and> fp_next_stub_deadline_utc p = 0")
      case c: True
      with l True stub have "Fp_ProduceStubFrame inp 1 (p\<lparr>fp_next_stub_deadline_utc := pi_clk inp 0\<rparr>) q = Some (p', q')"
        by (simp add: Fp_ProduceLoop_pass_def)
      from Fp_ProduceStubFrame_ok [OF assms(1) this] show ?thesis by (simp add: fp_turn_ok_def)
    next
      case False
      with l True stub have "Fp_ProduceStubFrame inp 0 p q = Some (p', q')" by (auto simp: Fp_ProduceLoop_pass_def)
      from Fp_ProduceStubFrame_ok [OF assms(1) this] show ?thesis .
    qed
  next
    case False
    with l True have "Fp_ProduceRealFrame inp p q = Some (p', q')" by (simp add: Fp_ProduceLoop_pass_def)
    from Fp_ProduceRealFrame_ok [OF assms(1) this False] show ?thesis .
  qed
next
  case False
  with assms show ?thesis
    by (auto simp: Fp_thread_turn_def Fp_ProduceLoop_pass_def Fp_ProduceLoop_begin_def Fp_ProduceLoop_end_def
        fp_turn_ok_def Let_def split: thread_status.splits if_splits option.splits prod.splits)
qed

definition fp_inv :: "frame_producer_config \<Rightarrow> int \<Rightarrow> frame_producer \<times> ring_buffer \<times> frame list \<Rightarrow> bool" where
  "fp_inv config interval = (\<lambda>(p, q, out). rb_wf q
     \<and> length (out @ rb_frames q) = fp_frames_produced p
     \<and> fp_frame_interval_us p = interval
     \<and> (fc_stub_mode config \<longrightarrow> fp_config p = config
          \<and> fp_stub_pts_counter p = int (fp_frames_produced p) * interval
          \<and> map (\<lambda>f. md_pts (fr_metadata f)) (out @ rb_frames q)
              = map (\<lambda>k. int k * interval) [0..<fp_frames_produced p]))"

lemma fp_inv_step:
  assumes "fp_step s s'" "fp_inv config interval s"
  shows "fp_inv config interval s'"
  using assms
proof (induction rule: fp_step.induct)
  case (fp_turn junk e inp p q p' q' out)
  then have wf: "rb_wf q" by (simp add: fp_inv_def)
  from Fp_thread_turn_ok [OF wf fp_turn(1)] fp_turn(2) show ?case
    by (auto simp: fp_turn_ok_def fp_inv_def algebra_simps)
next
  case (fp_pop q f q' p out)
  then have wf: "rb_wf q" by (simp add: fp_inv_def)
  with fp_pop(1) have "rb_frames q \<noteq> []" using Pop_empty [OF wf] by auto
  then obtain g gs where g: "rb_frames q = g # gs" by (cases "rb_frames q") auto
  with Pop_Cons [OF wf g] fp_pop show ?case by (auto simp: fp_inv_def)
qed (simp_all add: fp_inv_def Fp_Start_def Fp_RequestTeardown_def Fp_ForceStop_def Fp_Stop_request_def Fp_Stop_finish_def)

lemma fp_inv_reach:
  "fp_step\<^sup>*\<^sup>* s s' \<Longrightarrow> fp_inv config interval s \<Longrightarrow> fp_inv config interval s'"
  by (induction rule: rtranclp_induct) (auto intro: fp_inv_step)

lemma fp_inv_initial:
  "rb_wf q \<Longrightarrow> rb_frames q = [] \<Longrightarrow>
   fp_inv config (fp_frame_interval_us (FrameProducer config file clock)) (FrameProducer config file clock, q, [])"
  by (simp add: fp_inv_def FrameProducer_def)

section \<open>Nobody but Stop ends the running state\<close>

text \<open>Waiting until the producer is not running, while only its thread takes turns.\<close>

partial_function (option) await_not_running ::
  "(nat \<Rightarrow> ff_decoder \<times> ff_open_env \<times> pass_input) \<Rightarrow> nat \<Rightarrow> frame_producer \<Rightarrow> ring_buffer
     \<Rightarrow> (frame_producer \<times> ring_buffer) option" where
  "await_not_running turns n p q =
     (if \<not> Fp_IsRunning p then Some (p, q)
      else case turns n of (junk, e, inp) \<Rightarrow>
        (case Fp_thread_turn junk e inp p q of
           None \<Rightarrow> None | Some (p, q) \<Rightarrow> await_not_running turns (Suc n) p q))"

lemma Fp_thread_turn_running:
  "Fp_thread_turn junk e inp p q = Some (p', q') \<Longrightarrow> fp_running p' = fp_running p"
  by (auto simp: Fp_thread_turn_def Fp_ProduceLoop_pass_def Fp_ProduceLoop_begin_def Fp_ProduceLoop_end_def
      Fp_ProduceStubFrame_def Fp_ProduceRealFrame_def Let_def
      split: thread_status.splits if_splits option.splits prod.splits)

lemma await_not_running_never:
  "await_not_running turns n p q = Some r \<Longrightarrow> fp_running p \<Longrightarrow> False"
proof (induction turns n p q r rule: await_not_running.raw_induct [rotated 1, consumes 1])
  case (1 await turns n p q r)
  obtain junk e inp where t: "turns n = (junk, e, inp)" by (cases "turns n")
  show ?case
  proof (cases "Fp_thread_turn junk e inp p q")
    case None
    with 1 t show ?thesis by (simp add: Fp_IsRunning_def)
  next
    case (Some r1)
    obtain p1 q1 where r1: "r1 = (p1, q1)" by (cases r1)
    with Some t 1(2,3) have "await turns (Suc n) p1 q1 = Some r" by (simp add: Fp_IsRunning_def)
    moreover have "fp_running p1" using Fp_thread_turn_running Some r1 1(3) by metis
    ultimately show ?thesis using 1(1) by blast
  qed
qed

section \<open>Properties\<close>

text \<open>
  C26. Nothing is lost or made up between the producer and its consumer: whatever the order of starts,
  turns of the thread, pops, teardowns and stops, the frames taken out and still in the ring are as many
  as the producer counts, and in stub mode their time stamps are 0, I, 2I, and so on for the frame
  interval I, without gap or repetition even when the ring was full in between.
\<close>

theorem frame_producer_sequence:
  assumes "fp_step\<^sup>*\<^sup>* (FrameProducer config file clock, q0, []) (p, q, out)"
    and "rb_wf q0" "rb_frames q0 = []"
  shows "length (out @ rb_frames q) = fp_frames_produced p
    \<and> (fc_stub_mode config \<longrightarrow> map (\<lambda>f. md_pts (fr_metadata f)) (out @ rb_frames q)
        = map (\<lambda>k. int k * fp_frame_interval_us (FrameProducer config file clock)) [0..<fp_frames_produced p])"
  using fp_inv_reach [OF assms(1) fp_inv_initial [OF assms(2,3)]] by (simp add: fp_inv_def)

definition stub_config :: frame_producer_config where
  "stub_config = FrameProducerConfig\<lparr>fc_target_width := 2, fc_target_height := 2, fc_stub_mode := True\<rparr>"

definition quiet_input :: pass_input where
  "quiet_input = \<lparr>pi_clk = (\<lambda>_. 0), pi_steady_now_ms = 0, pi_decode_time_ms = 0\<rparr>"

theorem frame_producer_sequence_witness:
  "\<exists>p q. fp_step\<^sup>*\<^sup>* (FrameProducer stub_config [] False, FrameRingBuffer 4, []) (p, q, [])
     \<and> map (\<lambda>f. md_pts (fr_metadata f)) (rb_frames q) = [0]"
proof -
  let ?p0 = "FrameProducer stub_config [] False" and ?q0 = "FrameRingBuffer 4"
  have wf: "rb_wf ?q0" "rb_frames ?q0 = []" "rb_room ?q0 = 4" using FrameRingBuffer_wf [of 4] by simp_all
  let ?p1 = "snd (Fp_Start ?p0)"
  have t0: "fp_thread ?p0 \<noteq> Spawned" "fp_thread ?p0 \<noteq> InLoop" by (simp_all add: FrameProducer_def)
  have s1: "fp_step (?p0, ?q0, []) (?p1, ?q0, [])" using t0 by (rule fp_start)
  let ?p2 = "?p1\<lparr>fp_thread := InLoop\<rparr>"
  have s2: "fp_step (?p1, ?q0, []) (?p2, ?q0, [])"
    by (rule fp_turn [of undefined undefined quiet_input])
      (simp add: Fp_thread_turn_def Fp_Start_def FrameProducer_def Fp_ProduceLoop_begin_def stub_config_def)
  obtain q3 where q3: "Push ?q0 (Fp_stub_frame ?p2) = (True, q3)"
    using Push_room [OF wf(1), of "Fp_stub_frame ?p2"] wf by auto
  let ?p3 = "?p2\<lparr>fp_frames_produced := 1, fp_stub_pts_counter := fp_frame_interval_us ?p2\<rparr>"
  have s3: "fp_step (?p2, ?q0, []) (?p3, q3, [])"
    by (rule fp_turn [of undefined undefined quiet_input])
      (use q3 in \<open>simp add: Fp_thread_turn_def Fp_Start_def FrameProducer_def Fp_ProduceLoop_pass_def stub_config_def
        Fp_ProduceStubFrame_def\<close>)
  have r: "fp_step\<^sup>*\<^sup>* (?p0, ?q0, []) (?p3, q3, [])"
    using s1 s2 s3 by (meson rtranclp.rtrancl_refl rtranclp.rtrancl_into_rtrancl)
  have "fc_stub_mode stub_config" by (simp add: stub_config_def)
  with frame_producer_sequence [OF r wf(1,2)]
  have "map (\<lambda>f. md_pts (fr_metadata f)) (rb_frames q3) = [0]" by simp
  with r show ?thesis by (intro exI conjI)
qed

end
