(* ===== verification/FrameRenderer.thy ===== *)
theory FrameRenderer
  imports VideoFileProducer MetricsExporter
begin

text \<open>
  The frame renderer (\<open>include/retrovue/renderer/FrameRenderer.h\<close>, \<open>src/renderer/FrameRenderer.cpp\<close>):
  the render loop one pass at a time, with its waits for the deadline of a frame, the rule for
  dropping late frames, the statistics, and the metrics it publishes; start, stop and pipeline reset; the
  set-up of the preview window. A pass gets its clock readings in order, the stop flag as it is at each
  of them, and the deadline the clock schedules for a time stamp. SDL is an environment whose calls
  succeed or fail.
\<close>

section \<open>State\<close>

datatype render_mode = HEADLESS | PREVIEW

record render_config =
  rc_mode :: render_mode
  rc_window_width :: int
  rc_window_height :: int
  rc_window_title :: string
  rc_vsync_enabled :: bool

definition RenderConfig :: render_config where
  "RenderConfig = \<lparr>rc_mode = HEADLESS, rc_window_width = 1920, rc_window_height = 1080,
     rc_window_title = ''RetroVue Playout Preview'', rc_vsync_enabled = True\<rparr>"

record render_stats =
  rs_frames_rendered :: nat
  rs_frames_skipped :: nat
  rs_frames_dropped :: nat
  rs_corrections_total :: nat
  rs_average_render_time_ms :: real
  rs_current_render_fps :: real
  rs_frame_gap_ms :: real

definition RenderStats :: render_stats where
  "RenderStats = \<lparr>rs_frames_rendered = 0, rs_frames_skipped = 0, rs_frames_dropped = 0,
     rs_corrections_total = 0, rs_average_render_time_ms = 0, rs_current_render_fps = 0, rs_frame_gap_ms = 0\<rparr>"

record renderer =
  re_config :: render_config
  re_preview :: bool
  re_stats :: render_stats
  re_has_clock :: bool
  re_has_metrics :: bool
  re_channel_id :: int
  re_running :: bool
  re_stop_requested :: bool
  re_thread :: thread_status
  re_last_pts :: int
  re_last_frame_time_utc :: int
  re_fallback_last_frame_time_ms :: real
  re_window :: bool
  re_renderer :: bool
  re_texture :: bool

text \<open>\<open>Create\<close>: the preview renderer exists only when SDL2 is compiled in.\<close>

definition Renderer_Create :: "bool \<Rightarrow> render_config \<Rightarrow> bool \<Rightarrow> bool \<Rightarrow> int \<Rightarrow> real \<Rightarrow> renderer" where
  "Renderer_Create sdl_available config clock metrics channel_id steady_now_ms =
     \<lparr>re_config = config, re_preview = (rc_mode config = PREVIEW \<and> sdl_available), re_stats = RenderStats,
      re_has_clock = clock, re_has_metrics = metrics, re_channel_id = channel_id, re_running = False,
      re_stop_requested = False, re_thread = NoThread, re_last_pts = 0, re_last_frame_time_utc = 0,
      re_fallback_last_frame_time_ms = steady_now_ms, re_window = False, re_renderer = False, re_texture = False\<rparr>"

section \<open>Waiting\<close>

definition kDropThresholdSeconds :: real where
  "kDropThresholdSeconds = - (8 / 1000)"

definition kMinDepthForDrop :: usize where
  "kMinDepthForDrop = 5"

definition kSpinThresholdUs :: time_us where
  "kSpinThresholdUs = 200"

definition kSpinSleepUs :: time_us where
  "kSpinSleepUs = 100"

definition kEmptyBufferBackoffUs :: time_us where
  "kEmptyBufferBackoffUs = 5000"

definition WaitFudgeUs :: time_us where
  "WaitFudgeUs = trunc_real (1 / 1000 * 1000000)"

text \<open>What a pass reads; reading \<open>i\<close> of the clock comes with the stop flag before it.\<close>

record render_input =
  in_clk :: "nat \<Rightarrow> time_us"
  in_stop :: "nat \<Rightarrow> bool"
  in_scheduled_to_utc_us :: "int \<Rightarrow> time_us"
  in_steady_ms :: "nat \<Rightarrow> real"
  in_quit :: bool

partial_function (option) Re_wait_loop :: "render_input \<Rightarrow> time_us \<Rightarrow> nat \<Rightarrow> nat option" where
  "Re_wait_loop inp target_utc_us i =
     (if in_stop inp i then Some i
      else if target_utc_us - in_clk inp i \<le> 0 then Some (Suc i)
      else Re_wait_loop inp target_utc_us (Suc i))"

definition Re_WaitUntilUtc :: "render_input \<Rightarrow> time_us \<Rightarrow> nat \<Rightarrow> nat option" where
  "Re_WaitUntilUtc inp target_utc_us i = (if target_utc_us \<le> 0 then Some i else Re_wait_loop inp target_utc_us i)"

definition Re_WaitForMicros :: "renderer \<Rightarrow> render_input \<Rightarrow> time_us \<Rightarrow> nat \<Rightarrow> nat option" where
  "Re_WaitForMicros r inp duration_us i =
     (if duration_us \<le> 0 then Some i
      else if re_has_clock r then Re_WaitUntilUtc inp (in_clk inp i + duration_us) (Suc i)
      else Some i)"

text \<open>The last part of the wait: short sleeps while more than \<open>kSpinThresholdUs\<close> remain. Reading \<open>i - 1\<close>
  gave \<open>remaining_us\<close>.\<close>

partial_function (option) spin_loop :: "renderer \<Rightarrow> render_input \<Rightarrow> time_us \<Rightarrow> time_us \<Rightarrow> nat \<Rightarrow> nat option" where
  "spin_loop r inp deadline_utc remaining_us i =
     (if kSpinThresholdUs < remaining_us \<and> \<not> in_stop inp i
      then (case Re_WaitForMicros r inp (min (remaining_us sdiv 2) kSpinSleepUs) i of
              None \<Rightarrow> None
            | Some i \<Rightarrow> spin_loop r inp deadline_utc (deadline_utc - in_clk inp i) (Suc i))
      else Some i)"

definition pace_frame :: "renderer \<Rightarrow> render_input \<Rightarrow> time_us \<Rightarrow> nat \<Rightarrow> nat option" where
  "pace_frame r inp deadline_utc i =
     (case Re_WaitUntilUtc inp (deadline_utc - WaitFudgeUs) i of
        None \<Rightarrow> None
      | Some i \<Rightarrow> spin_loop r inp deadline_utc (deadline_utc - in_clk inp i) (Suc i))"

section \<open>One pass of the loop\<close>

definition Re_UpdateStats :: "real \<Rightarrow> real \<Rightarrow> renderer \<Rightarrow> renderer" where
  "Re_UpdateStats render_time_ms frame_gap_ms r =
     (let s = re_stats r; alpha = 1 / 10;
          s = s\<lparr>rs_frames_rendered := rs_frames_rendered s + 1\<rparr>;
          s = s\<lparr>rs_frame_gap_ms := frame_gap_ms\<rparr>;
          s = s\<lparr>rs_average_render_time_ms := alpha * render_time_ms + (1 - alpha) * rs_average_render_time_ms s\<rparr>;
          s = (if 0 < frame_gap_ms then s\<lparr>rs_current_render_fps := 1000 / frame_gap_ms\<rparr> else s)
      in r\<lparr>re_stats := s\<rparr>)"

definition PublishMetrics :: "real \<Rightarrow> renderer \<Rightarrow> ring_buffer \<Rightarrow> exporter \<Rightarrow> exporter" where
  "PublishMetrics frame_gap_ms r q x =
     (if \<not> re_has_metrics r then x
      else let snapshot = (case GetChannelMetrics (re_channel_id r) x of None \<Rightarrow> ChannelMetrics | Some m \<Rightarrow> m);
               snapshot = snapshot\<lparr>cm_buffer_depth_frames := unat (Size q), cm_frame_gap_seconds := frame_gap_ms / 1000,
                                   cm_corrections_total := rs_corrections_total (re_stats r)\<rparr>
           in snd (SubmitChannelMetrics (re_channel_id r) snapshot x))"

text \<open>Headless rendering does nothing; the preview window may be closed by the user.\<close>

definition RenderFrame :: "render_input \<Rightarrow> frame \<Rightarrow> renderer \<Rightarrow> renderer" where
  "RenderFrame inp f r = (if re_preview r \<and> in_quit inp then r\<lparr>re_stop_requested := True\<rparr> else r)"

datatype render_outcome = Skipped | Dropped frame | Rendered frame nat

definition finish_frame :: "render_input \<Rightarrow> frame \<Rightarrow> real \<Rightarrow> nat \<Rightarrow> renderer \<Rightarrow> ring_buffer \<Rightarrow> exporter
    \<Rightarrow> render_outcome \<times> renderer \<times> ring_buffer \<times> exporter" where
  "finish_frame inp f frame_gap_ms i r q x =
     (let r = RenderFrame inp f r;
          (render_time_ms, r) =
            (if re_has_clock r
             then (real_of_int (in_clk inp i - in_clk inp 0) / 1000, r\<lparr>re_last_frame_time_utc := in_clk inp i\<rparr>)
             else (in_steady_ms inp 2 - in_steady_ms inp 0, r\<lparr>re_fallback_last_frame_time_ms := in_steady_ms inp 2\<rparr>));
          r = Re_UpdateStats render_time_ms frame_gap_ms r;
          x = PublishMetrics frame_gap_ms r q x;
          r = r\<lparr>re_last_pts := md_pts (fr_metadata f)\<rparr>
      in (Rendered f i, r, q, x))"

definition count_drop :: "renderer \<Rightarrow> renderer" where
  "count_drop r = r\<lparr>re_stats := (re_stats r)\<lparr>rs_frames_dropped := rs_frames_dropped (re_stats r) + 1,
     rs_corrections_total := rs_corrections_total (re_stats r) + 1\<rparr>\<rparr>"

text \<open>\<open>Rendered f i\<close>: frame \<open>f\<close> was rendered before clock reading \<open>i\<close>. \<open>None\<close> is a wait that never ends.\<close>

definition RenderLoop_pass :: "render_input \<Rightarrow> renderer \<Rightarrow> ring_buffer \<Rightarrow> exporter
    \<Rightarrow> (render_outcome \<times> renderer \<times> ring_buffer \<times> exporter) option" where
  "RenderLoop_pass inp r q x =
     (case Pop q of
        (None, q) \<Rightarrow>
          (case Re_WaitForMicros r inp kEmptyBufferBackoffUs 1 of
             None \<Rightarrow> None
           | Some _ \<Rightarrow> Some (Skipped, r\<lparr>re_stats := (re_stats r)\<lparr>rs_frames_skipped := rs_frames_skipped (re_stats r) + 1\<rparr>\<rparr>, q, x))
      | (Some f, q) \<Rightarrow>
          if re_has_clock r
          then let deadline_utc = in_scheduled_to_utc_us inp (md_pts (fr_metadata f));
                   gap_us = deadline_utc - in_clk inp 1;
                   gap_s = real_of_int gap_us / 1000000;
                   frame_gap_ms = gap_s * 1000
               in if 0 < gap_s
                  then (case pace_frame r inp deadline_utc 2 of
                          None \<Rightarrow> None | Some i \<Rightarrow> Some (finish_frame inp f frame_gap_ms i r q x))
                  else if gap_s < kDropThresholdSeconds \<and> kMinDepthForDrop < Size q
                  then let r = count_drop r
                       in Some (Dropped f, r, q, PublishMetrics frame_gap_ms r q x)
                  else Some (finish_frame inp f frame_gap_ms 2 r q x)
          else let now = in_steady_ms inp 1;
                   frame_gap_ms = now - re_fallback_last_frame_time_ms r;
                   r = r\<lparr>re_fallback_last_frame_time_ms := now\<rparr>
               in Some (finish_frame inp f frame_gap_ms 2 r q x))"

section \<open>Set-up, start and stop\<close>

record sdl_calls =
  sdl_init :: bool
  sdl_create_window :: bool
  sdl_create_renderer :: bool
  sdl_create_texture :: bool

definition Initialize :: "sdl_calls \<Rightarrow> renderer \<Rightarrow> bool \<times> renderer" where
  "Initialize sdl r =
     (if \<not> re_preview r then (True, r)
      else if \<not> sdl_init sdl then (False, r)
      else if \<not> sdl_create_window sdl then (False, r)
      else let r = r\<lparr>re_window := True\<rparr>
      in if \<not> sdl_create_renderer sdl then (False, r)
      else let r = r\<lparr>re_renderer := True\<rparr>
      in if \<not> sdl_create_texture sdl then (False, r)
      else (True, r\<lparr>re_texture := True\<rparr>))"

definition Cleanup :: "renderer \<Rightarrow> renderer" where
  "Cleanup r = (if \<not> re_preview r then r else r\<lparr>re_texture := False, re_renderer := False, re_window := False\<rparr>)"

definition RenderLoop_begin :: "sdl_calls \<Rightarrow> time_us \<Rightarrow> real \<Rightarrow> renderer \<Rightarrow> bool \<times> renderer" where
  "RenderLoop_begin sdl now_utc steady_now_ms r =
     (let (ok, r) = Initialize sdl r
      in if \<not> ok then (False, r\<lparr>re_thread := Exited\<rparr>)
         else let r = r\<lparr>re_running := True, re_thread := InLoop\<rparr>
         in (True, if re_has_clock r then r\<lparr>re_last_frame_time_utc := now_utc\<rparr>
                   else r\<lparr>re_fallback_last_frame_time_ms := steady_now_ms\<rparr>))"

definition RenderLoop_end :: "renderer \<Rightarrow> renderer" where
  "RenderLoop_end r = (Cleanup r)\<lparr>re_running := False, re_thread := Exited\<rparr>"

definition Re_Start :: "renderer \<Rightarrow> ring_buffer \<Rightarrow> exporter \<Rightarrow> bool \<times> renderer \<times> exporter" where
  "Re_Start r q x =
     (if re_running r then (False, r, x)
      else let r = r\<lparr>re_stop_requested := False\<rparr>;
               x = (if re_has_metrics r
                    then snd (SubmitChannelMetrics (re_channel_id r)
                      (ChannelMetrics\<lparr>cm_state := READY, cm_buffer_depth_frames := unat (Size q), cm_frame_gap_seconds := 0,
                         cm_corrections_total := rs_corrections_total (re_stats r)\<rparr>) x) else x)
           in (True, r\<lparr>re_thread := Spawned\<rparr>, x))"

text \<open>One turn of the render thread in whatever phase it is.\<close>

definition Re_thread_turn :: "sdl_calls \<Rightarrow> render_input \<Rightarrow> renderer \<Rightarrow> ring_buffer \<Rightarrow> exporter
    \<Rightarrow> (renderer \<times> ring_buffer \<times> exporter) option" where
  "Re_thread_turn sdl inp r q x =
     (case re_thread r of
        Spawned \<Rightarrow> Some (snd (RenderLoop_begin sdl (in_clk inp 0) (in_steady_ms inp 0) r), q, x)
      | InLoop \<Rightarrow> if re_stop_requested r then Some (RenderLoop_end r, q, x)
                  else map_option snd (RenderLoop_pass inp r q x)
      | _ \<Rightarrow> Some (r, q, x))"

text \<open>\<open>Stop\<close>: the request, and what it does once the thread has been joined.\<close>

definition Re_Stop_request :: "renderer \<Rightarrow> renderer" where
  "Re_Stop_request r = (if \<not> re_running r \<and> re_thread r = NoThread then r else r\<lparr>re_stop_requested := True\<rparr>)"

definition Re_Stop_finish :: "renderer \<Rightarrow> ring_buffer \<Rightarrow> exporter \<Rightarrow> renderer \<times> exporter" where
  "Re_Stop_finish r q x =
     (let r = r\<lparr>re_thread := NoThread, re_running := False\<rparr>
      in (r, if re_has_metrics r
             then let final = (case GetChannelMetrics (re_channel_id r) x of None \<Rightarrow> ChannelMetrics | Some m \<Rightarrow> m);
                      final = final\<lparr>cm_buffer_depth_frames := unat (Size q),
                                cm_frame_gap_seconds := rs_frame_gap_ms (re_stats r) / 1000,
                                cm_corrections_total := rs_corrections_total (re_stats r)\<rparr>
                  in snd (SubmitChannelMetrics (re_channel_id r) final x)
             else x))"

definition resetPipeline :: "time_us \<Rightarrow> real \<Rightarrow> renderer \<Rightarrow> ring_buffer \<Rightarrow> renderer \<times> ring_buffer" where
  "resetPipeline now_utc steady_now_ms r q =
     (let r = r\<lparr>re_last_pts := 0\<rparr>
      in (if re_has_clock r then r\<lparr>re_last_frame_time_utc := now_utc\<rparr>
          else r\<lparr>re_fallback_last_frame_time_ms := steady_now_ms\<rparr>, Clear q))"

section \<open>The waits\<close>

lemma Re_wait_loop_returns:
  assumes "i \<le> k" "target \<le> in_clk inp k"
  shows "\<exists>j. i \<le> j \<and> Re_wait_loop inp target i = Some j"
  using assms
proof (induction "k - i" arbitrary: i)
  case 0
  then have "target - in_clk inp i \<le> 0" by simp
  then show ?case by (subst Re_wait_loop.simps) (auto intro: le_SucI)
next
  case (Suc n)
  then have "n = k - Suc i" "Suc i \<le> k" by simp_all
  from Suc.hyps(1) [OF this Suc.prems(2)] obtain j where
    "Suc i \<le> j" "Re_wait_loop inp target (Suc i) = Some j" by blast
  then show ?case by (subst Re_wait_loop.simps) auto
qed

text \<open>A clock that reaches every time.\<close>

definition advancing :: "render_input \<Rightarrow> bool" where
  "advancing inp \<longleftrightarrow> mono (in_clk inp) \<and> (\<forall>t. \<exists>k. t \<le> in_clk inp k)"

lemma advancing_after: "advancing inp \<Longrightarrow> \<exists>k \<ge> i. t \<le> in_clk inp k"
  unfolding advancing_def by (metis monoD nat_le_linear order_refl order_trans)

lemma Re_WaitUntilUtc_returns:
  assumes "advancing inp"
  shows "\<exists>j. i \<le> j \<and> Re_WaitUntilUtc inp target i = Some j"
  using advancing_after [OF assms, of i target] Re_wait_loop_returns by (auto simp: Re_WaitUntilUtc_def)

lemma Re_WaitForMicros_returns:
  assumes "advancing inp"
  shows "\<exists>j. i \<le> j \<and> (re_has_clock r \<and> 0 < d \<longrightarrow> Suc i \<le> j) \<and> Re_WaitForMicros r inp d i = Some j"
proof (cases "0 < d \<and> re_has_clock r")
  case True
  obtain j where "Suc i \<le> j" "Re_WaitUntilUtc inp (in_clk inp i + d) (Suc i) = Some j"
    using Re_WaitUntilUtc_returns [OF assms] by blast
  with True show ?thesis by (auto simp: Re_WaitForMicros_def)
next
  case False
  then show ?thesis by (auto simp: Re_WaitForMicros_def)
qed

lemma spin_loop_returns:
  assumes "advancing inp" "re_has_clock r" "deadline \<le> in_clk inp k"
  shows "\<exists>j. i \<le> j \<and> spin_loop r inp deadline (deadline - in_clk inp (i - 1)) i = Some j"
proof (induction "Suc k - i" arbitrary: i rule: less_induct)
  case less
  show ?case
  proof (cases "kSpinThresholdUs < deadline - in_clk inp (i - 1) \<and> \<not> in_stop inp i")
    case False
    then show ?thesis by (subst spin_loop.simps) auto
  next
    case True
    let ?d = "min ((deadline - in_clk inp (i - 1)) sdiv 2) kSpinSleepUs"
    have "200 < deadline - in_clk inp (i - 1)" using True by (simp add: kSpinThresholdUs_def)
    then have "0 < (deadline - in_clk inp (i - 1)) sdiv 2"
      by (simp add: sdiv_pos pos_imp_zdiv_pos_iff)
    then have d: "0 < ?d" by (simp add: kSpinSleepUs_def)
    have "in_clk inp (i - 1) < in_clk inp k" using True assms(3) by (simp add: kSpinThresholdUs_def)
    then have "i - 1 < k" using assms(1) unfolding advancing_def by (meson leD leI monoD)
    obtain j where j: "Suc i \<le> j" "Re_WaitForMicros r inp ?d i = Some j"
      using Re_WaitForMicros_returns [OF assms(1), of i r ?d] assms(2) d by blast
    have "Suc k - Suc j < Suc k - i" using \<open>i - 1 < k\<close> j(1) by linarith
    from less [OF this] obtain j' where
      "Suc j \<le> j'" "spin_loop r inp deadline (deadline - in_clk inp (Suc j - 1)) (Suc j) = Some j'" by blast
    with True j show ?thesis by (subst spin_loop.simps) (auto intro!: exI [of _ j'])
  qed
qed

lemma spin_loop_end:
  "spin_loop r inp deadline remaining i = Some j \<Longrightarrow> remaining = deadline - in_clk inp (i - 1) \<Longrightarrow>
   deadline - in_clk inp (j - 1) \<le> kSpinThresholdUs \<or> in_stop inp j"
proof (induction r inp deadline remaining i j rule: spin_loop.raw_induct [rotated 1, consumes 1])
  case (1 spin r inp deadline remaining i j)
  show ?case
  proof (cases "kSpinThresholdUs < remaining \<and> \<not> in_stop inp i")
    case False
    with 1 show ?thesis by auto
  next
    case True
    then obtain i' where w: "Re_WaitForMicros r inp (min (remaining sdiv 2) kSpinSleepUs) i = Some i'"
      using 1(2) by (auto split: option.splits)
    with True 1(2) have "spin r inp deadline (deadline - in_clk inp i') (Suc i') = Some j" by simp
    from 1(1) [OF this] show ?thesis by simp
  qed
qed

lemma pace_frame_returns:
  assumes "advancing inp" "re_has_clock r"
  shows "\<exists>j. pace_frame r inp deadline i = Some j
    \<and> (deadline - in_clk inp (j - 1) \<le> kSpinThresholdUs \<or> in_stop inp j)"
proof -
  obtain i1 where w: "Re_WaitUntilUtc inp (deadline - WaitFudgeUs) i = Some i1"
    using Re_WaitUntilUtc_returns [OF assms(1)] by blast
  obtain k where "deadline \<le> in_clk inp k" using advancing_after [OF assms(1), of 0] by blast
  from spin_loop_returns [OF assms this, of "Suc i1"] obtain j where
    s: "spin_loop r inp deadline (deadline - in_clk inp i1) (Suc i1) = Some j" by auto
  from spin_loop_end [OF s] w s show ?thesis by (simp add: pace_frame_def)
qed

section \<open>What a pass does\<close>

text \<open>The frame to be dropped: more than eight milliseconds late with more than five others waiting.\<close>

definition too_late :: "render_input \<Rightarrow> frame \<Rightarrow> nat \<Rightarrow> bool" where
  "too_late inp f others \<longleftrightarrow> in_scheduled_to_utc_us inp (md_pts (fr_metadata f)) - in_clk inp 1 < - 8000 \<and> 5 < others"

lemma drop_rule:
  assumes "rb_wf q"
  shows "real_of_int gap / 1000000 < kDropThresholdSeconds \<and> kMinDepthForDrop < Size q
    \<longleftrightarrow> gap < - 8000 \<and> 5 < length (rb_frames q)"
proof -
  have "real_of_int gap / 1000000 < kDropThresholdSeconds \<longleftrightarrow> real_of_int gap < real_of_int (- 8000)"
    by (simp add: kDropThresholdSeconds_def field_simps)
  also have "\<dots> \<longleftrightarrow> gap < - 8000" by (simp only: of_int_less_iff)
  finally show ?thesis using unat_Size [OF assms] by (simp add: kMinDepthForDrop_def word_less_nat_alt)
qed

text \<open>What a pass may do with frame \<open>f\<close>, \<open>q\<close> being the ring without it.\<close>

definition pass_on_frame :: "render_input \<Rightarrow> frame \<Rightarrow> renderer \<Rightarrow> ring_buffer \<Rightarrow> exporter
    \<Rightarrow> render_outcome \<times> renderer \<times> ring_buffer \<times> exporter \<Rightarrow> bool" where
  "pass_on_frame inp f r q x result \<longleftrightarrow>
     (let deadline = in_scheduled_to_utc_us inp (md_pts (fr_metadata f)); gap = deadline - in_clk inp 1
      in if too_late inp f (length (rb_frames q))
         then result = (Dropped f, count_drop r, q, PublishMetrics (real_of_int gap / 1000000 * 1000) (count_drop r) q x)
         else \<exists>i ms. result = finish_frame inp f ms i r q x
           \<and> (if 0 < gap then deadline - in_clk inp (i - 1) \<le> kSpinThresholdUs \<or> in_stop inp i else i = 2))"

lemma RenderLoop_pass_frame:
  assumes "rb_wf q" "rb_frames q = f # fs" "re_has_clock r" "advancing inp"
  obtains q' result where "RenderLoop_pass inp r q x = Some result" "rb_frames q' = fs" "rb_wf q'"
    "rb_room q' = rb_room q" "pass_on_frame inp f r q' x result"
proof -
  obtain q' where q': "Pop q = (Some f, q')" "rb_frames q' = fs" "rb_wf q'" "rb_room q' = rb_room q"
    using Pop_Cons [OF assms(1,2)] by auto
  let ?deadline = "in_scheduled_to_utc_us inp (md_pts (fr_metadata f))"
  let ?gap = "?deadline - in_clk inp 1"
  obtain j where j: "pace_frame r inp ?deadline 2 = Some j"
    "?deadline - in_clk inp (j - 1) \<le> kSpinThresholdUs \<or> in_stop inp j"
    using pace_frame_returns [OF assms(4,3)] by blast
  have pos: "0 < real_of_int ?gap / 1000000 \<longleftrightarrow> 0 < ?gap" by (simp add: zero_less_divide_iff)
  show thesis
  proof (cases "0 < ?gap")
    case True
    then have "\<not> too_late inp f (length fs)" by (simp add: too_late_def)
    then have "pass_on_frame inp f r q' x (finish_frame inp f (real_of_int ?gap / 1000000 * 1000) j r q' x)"
      using True j(2) q'(2) unfolding pass_on_frame_def Let_def by auto
    moreover have "RenderLoop_pass inp r q x
        = Some (finish_frame inp f (real_of_int ?gap / 1000000 * 1000) j r q' x)"
      using True j(1) assms(3) pos by (simp add: RenderLoop_pass_def q'(1) Let_def)
    ultimately show thesis using that q' by blast
  next
    case False
    have d: "(real_of_int ?gap / 1000000 < kDropThresholdSeconds \<and> kMinDepthForDrop < Size q') = too_late inp f (length fs)"
      using drop_rule [OF q'(3), of ?gap] q'(2) by (simp add: too_late_def)
    obtain result where r: "RenderLoop_pass inp r q x = Some result"
      "result = (if too_late inp f (length fs)
         then (Dropped f, count_drop r, q', PublishMetrics (real_of_int ?gap / 1000000 * 1000) (count_drop r) q' x)
         else finish_frame inp f (real_of_int ?gap / 1000000 * 1000) 2 r q' x)"
      using False pos assms(3) unfolding RenderLoop_pass_def q'(1) Let_def prod.case option.case d by auto
    then have "pass_on_frame inp f r q' x result"
      using False q'(2) unfolding pass_on_frame_def Let_def by auto
    then show thesis using that q' r(1) by blast
  qed
qed

lemma RenderLoop_pass_empty:
  assumes "rb_wf q" "rb_frames q = []" "advancing inp"
  shows "RenderLoop_pass inp r q x = Some (Skipped,
    r\<lparr>re_stats := (re_stats r)\<lparr>rs_frames_skipped := rs_frames_skipped (re_stats r) + 1\<rparr>\<rparr>, q, x)"
  using Re_WaitForMicros_returns [OF assms(3), of 1 r kEmptyBufferBackoffUs] Pop_empty [OF assms(1,2)]
  by (auto simp: RenderLoop_pass_def)

lemma Re_UpdateStats_effect:
  "rs_frames_rendered (re_stats (Re_UpdateStats ms gap r)) = rs_frames_rendered (re_stats r) + 1"
  "rs_frames_dropped (re_stats (Re_UpdateStats ms gap r)) = rs_frames_dropped (re_stats r)"
  "rs_frames_skipped (re_stats (Re_UpdateStats ms gap r)) = rs_frames_skipped (re_stats r)"
  "rs_corrections_total (re_stats (Re_UpdateStats ms gap r)) = rs_corrections_total (re_stats r)"
  "re_has_clock (Re_UpdateStats ms gap r) = re_has_clock r"
  by (simp_all add: Re_UpdateStats_def Let_def)

lemma RenderFrame_effect: "re_stats (RenderFrame inp f r) = re_stats r" "re_has_clock (RenderFrame inp f r) = re_has_clock r"
  by (simp_all add: RenderFrame_def)

lemma finish_frame_effect:
  assumes "finish_frame inp f ms i r q x = (outcome, r', q', x')"
  shows "outcome = Rendered f i" "q' = q" "re_has_clock r' = re_has_clock r"
    "rs_frames_rendered (re_stats r') = rs_frames_rendered (re_stats r) + 1"
    "rs_frames_dropped (re_stats r') = rs_frames_dropped (re_stats r)"
    "rs_frames_skipped (re_stats r') = rs_frames_skipped (re_stats r)"
    "rs_corrections_total (re_stats r') = rs_corrections_total (re_stats r)"
    "re_last_pts r' = md_pts (fr_metadata f)"
  using assms by (auto simp: finish_frame_def RenderFrame_effect Re_UpdateStats_effect Let_def split: if_splits)

section \<open>Runs\<close>

text \<open>The producer offers frames between the passes; the ring takes those it has room for.\<close>

fun offer :: "frame list \<Rightarrow> ring_buffer \<Rightarrow> frame list \<times> ring_buffer" where
  "offer [] q = ([], q)"
| "offer (f # fs) q =
     (let (ok, q) = Push q f; (taken, q) = offer fs q in (if ok then f # taken else taken, q))"

fun render_run :: "(frame list \<times> render_input) list \<Rightarrow> renderer \<Rightarrow> ring_buffer \<Rightarrow> exporter
    \<Rightarrow> (render_outcome list \<times> frame list \<times> renderer \<times> ring_buffer \<times> exporter) option" where
  "render_run [] r q x = Some ([], [], r, q, x)"
| "render_run ((fs, inp) # rest) r q x =
     (let (taken, q) = offer fs q in
      case RenderLoop_pass inp r q x of
        None \<Rightarrow> None
      | Some (outcome, r, q, x) \<Rightarrow>
          (case render_run rest r q x of
             None \<Rightarrow> None
           | Some (outcomes, taken', r, q, x) \<Rightarrow> Some (outcome # outcomes, taken @ taken', r, q, x)))"

fun handled :: "render_outcome \<Rightarrow> frame list" where
  "handled Skipped = []"
| "handled (Dropped f) = [f]"
| "handled (Rendered f i) = [f]"

fun rendered :: "render_outcome list \<Rightarrow> nat" where
  "rendered [] = 0"
| "rendered (outcome # outcomes) = (case outcome of Rendered f i \<Rightarrow> 1 | _ \<Rightarrow> 0) + rendered outcomes"

fun dropped :: "render_outcome list \<Rightarrow> nat" where
  "dropped [] = 0"
| "dropped (outcome # outcomes) = (case outcome of Dropped f \<Rightarrow> 1 | _ \<Rightarrow> 0) + dropped outcomes"

lemma offer_effect:
  "rb_wf q \<Longrightarrow> offer fs q = (taken, q') \<Longrightarrow> rb_wf q' \<and> rb_frames q' = rb_frames q @ taken"
proof (induction fs arbitrary: q taken)
  case Nil
  then show ?case by simp
next
  case (Cons f fs)
  obtain ok q1 where p: "Push q f = (ok, q1)" by (cases "Push q f")
  obtain taken1 where o: "offer fs q1 = (taken1, q')" "taken = (if ok then f # taken1 else taken1)"
    using Cons.prems(2) p by (auto split: prod.splits)
  have "rb_wf q1 \<and> rb_frames q1 = rb_frames q @ (if ok then [f] else [])"
    using Push_full [OF Cons.prems(1), of f] Push_room [OF Cons.prems(1), of f]
      rb_frames_bounded [OF Cons.prems(1)] p Cons.prems(1) by (cases "length (rb_frames q) = rb_room q") auto
  with Cons.IH [of q1 taken1] o show ?case by simp
qed

lemma RenderLoop_pass_accounts:
  assumes "rb_wf q" "re_has_clock r" "advancing inp"
  obtains outcome r' q' x' where "RenderLoop_pass inp r q x = Some (outcome, r', q', x')" "rb_wf q'" "re_has_clock r'"
    "rb_frames q = handled outcome @ rb_frames q'"
    "rs_frames_rendered (re_stats r') = rs_frames_rendered (re_stats r) + rendered [outcome]"
    "rs_frames_dropped (re_stats r') = rs_frames_dropped (re_stats r) + dropped [outcome]"
    "rs_corrections_total (re_stats r') = rs_corrections_total (re_stats r) + dropped [outcome]"
    "rs_frames_skipped (re_stats r') + rendered [outcome] + dropped [outcome] = rs_frames_skipped (re_stats r) + 1"
proof (cases "rb_frames q")
  case Nil
  show thesis
    by (rule that [OF RenderLoop_pass_empty [OF assms(1) Nil assms(3)]]) (use Nil assms in simp_all)
next
  case (Cons f fs)
  from RenderLoop_pass_frame [OF assms(1) Cons assms(2,3), of x] obtain q1 result where
    p: "RenderLoop_pass inp r q x = Some result" "rb_frames q1 = fs" "rb_wf q1" "pass_on_frame inp f r q1 x result"
    by metis
  obtain outcome r' q' x' where res: "result = (outcome, r', q', x')" by (cases result) auto
  show thesis
  proof (cases "too_late inp f (length (rb_frames q1))")
    case True
    with p res have "outcome = Dropped f" "r' = count_drop r" "q' = q1"
      by (simp_all add: pass_on_frame_def Let_def)
    with p res Cons assms show thesis by (intro that [of outcome r' q' x']) (auto simp: count_drop_def)
  next
    case False
    with p res obtain ms i where "finish_frame inp f ms i r q1 x = (outcome, r', q', x')"
      by (auto simp: pass_on_frame_def Let_def)
    from finish_frame_effect [OF this] p res Cons assms show thesis
      by (intro that [of outcome r' q' x']) auto
  qed
qed

lemma render_run_accounts:
  assumes "rb_wf q" "re_has_clock r" "\<forall>pass \<in> set passes. advancing (snd pass)"
  shows "\<exists>outcomes taken r' q' x'. render_run passes r q x = Some (outcomes, taken, r', q', x')
    \<and> rb_frames q @ taken = concat (map handled outcomes) @ rb_frames q'
    \<and> length outcomes = length passes
    \<and> rs_frames_rendered (re_stats r') = rs_frames_rendered (re_stats r) + rendered outcomes
    \<and> rs_frames_dropped (re_stats r') = rs_frames_dropped (re_stats r) + dropped outcomes
    \<and> rs_corrections_total (re_stats r') = rs_corrections_total (re_stats r) + dropped outcomes
    \<and> rs_frames_skipped (re_stats r') + rendered outcomes + dropped outcomes
        = rs_frames_skipped (re_stats r) + length passes"
  using assms
proof (induction passes arbitrary: q r x)
  case Nil
  then show ?case by simp
next
  case (Cons pass passes)
  obtain fs inp where pass: "pass = (fs, inp)" by (cases pass)
  obtain taken1 q1 where o: "offer fs q = (taken1, q1)" by (cases "offer fs q")
  note q1 = offer_effect [OF Cons.prems(1) o]
  have adv: "advancing inp" using Cons.prems(3) by (simp add: pass)
  obtain outcome r1 q2 x1 where p: "RenderLoop_pass inp r q1 x = Some (outcome, r1, q2, x1)" "rb_wf q2" "re_has_clock r1"
    "rb_frames q1 = handled outcome @ rb_frames q2"
    "rs_frames_rendered (re_stats r1) = rs_frames_rendered (re_stats r) + rendered [outcome]"
    "rs_frames_dropped (re_stats r1) = rs_frames_dropped (re_stats r) + dropped [outcome]"
    "rs_corrections_total (re_stats r1) = rs_corrections_total (re_stats r) + dropped [outcome]"
    "rs_frames_skipped (re_stats r1) + rendered [outcome] + dropped [outcome] = rs_frames_skipped (re_stats r) + 1"
    by (rule RenderLoop_pass_accounts [OF conjunct1 [OF q1] Cons.prems(2) adv])
  obtain outcomes taken r' q' x' where run: "render_run passes r1 q2 x1 = Some (outcomes, taken, r', q', x')"
    "rb_frames q2 @ taken = concat (map handled outcomes) @ rb_frames q'"
    "length outcomes = length passes"
    "rs_frames_rendered (re_stats r') = rs_frames_rendered (re_stats r1) + rendered outcomes"
    "rs_frames_dropped (re_stats r') = rs_frames_dropped (re_stats r1) + dropped outcomes"
    "rs_corrections_total (re_stats r') = rs_corrections_total (re_stats r1) + dropped outcomes"
    "rs_frames_skipped (re_stats r') + rendered outcomes + dropped outcomes = rs_frames_skipped (re_stats r1) + length passes"
    using Cons.IH [OF p(2,3)] Cons.prems(3) by (metis list.set_intros(2))
  have "render_run (pass # passes) r q x = Some (outcome # outcomes, taken1 @ taken, r', q', x')"
    using pass o p(1) run(1) by simp
  moreover have "rb_frames q @ taken1 @ taken = concat (map handled (outcome # outcomes)) @ rb_frames q'"
    using q1 p(4) run(2) by (metis append.assoc concat.simps(2) list.simps(9))
  ultimately show ?case using p run by (intro exI conjI) auto
qed

section \<open>Properties\<close>

text \<open>
  C14. A pass of the render loop returns, whatever the clock readings, as long as they advance without
  bound. It takes the oldest frame of the ring: a frame more than 8 ms late with more than five others
  waiting is dropped and counted as a correction; any other late frame is rendered at once; an early
  one is rendered only after the clock has come within 200 microseconds of its deadline, unless the
  renderer is being stopped. With an empty ring the pass only counts a skip.
\<close>

theorem renderer_pacing:
  assumes "rb_wf q" "re_has_clock r" "mono (in_clk inp)" "\<And>t. \<exists>k. t \<le> in_clk inp k"
  shows "\<exists>outcome r' q' x'. RenderLoop_pass inp r q x = Some (outcome, r', q', x')
    \<and> (case rb_frames q of
         [] \<Rightarrow> outcome = Skipped \<and> q' = q \<and> x' = x
       | f # fs \<Rightarrow> rb_frames q' = fs \<and>
           (let deadline = in_scheduled_to_utc_us inp (md_pts (fr_metadata f)); gap = deadline - in_clk inp 1
            in if gap < - 8000 \<and> 5 < length fs then outcome = Dropped f
               else \<exists>i. outcome = Rendered f i
                 \<and> (if 0 < gap then deadline - 200 \<le> in_clk inp (i - 1) \<or> in_stop inp i else i = 2)))"
proof -
  have adv: "advancing inp" using assms(3,4) by (simp add: advancing_def)
  show ?thesis
  proof (cases "rb_frames q")
    case Nil
    with RenderLoop_pass_empty [OF assms(1) Nil adv, of r x] show ?thesis by auto
  next
    case (Cons f fs)
    from RenderLoop_pass_frame [OF assms(1) Cons assms(2) adv, of x] obtain q1 result where
      p: "RenderLoop_pass inp r q x = Some result" "rb_frames q1 = fs" "pass_on_frame inp f r q1 x result"
      by metis
    obtain outcome r' q' x' where res: "result = (outcome, r', q', x')" by (cases result) auto
    show ?thesis
    proof (cases "too_late inp f (length fs)")
      case True
      with p res Cons show ?thesis by (auto simp: pass_on_frame_def Let_def too_late_def)
    next
      case False
      with p res obtain ms i where ff: "finish_frame inp f ms i r q1 x = (outcome, r', q', x')"
        "if 0 < in_scheduled_to_utc_us inp (md_pts (fr_metadata f)) - in_clk inp 1
         then in_scheduled_to_utc_us inp (md_pts (fr_metadata f)) - in_clk inp (i - 1) \<le> kSpinThresholdUs \<or> in_stop inp i
         else i = 2" by (auto simp: pass_on_frame_def Let_def)
      from finish_frame_effect(1,2) [OF ff(1)] have "outcome = Rendered f i" "q' = q1" .
      with p res Cons False ff(2) show ?thesis
        by (auto simp: too_late_def kSpinThresholdUs_def Let_def algebra_simps)
    qed
  qed
qed

definition ticking_input :: render_input where
  "ticking_input = \<lparr>in_clk = int, in_stop = \<lambda>_. False, in_scheduled_to_utc_us = (\<lambda>t. t), in_steady_ms = (\<lambda>_. 0), in_quit = False\<rparr>"

lemma ticking_input_advances: "mono (in_clk ticking_input)" "\<exists>k. t \<le> in_clk ticking_input k"
  by (simp_all add: ticking_input_def mono_def) (meson int_nat_eq zle_iff_zadd nat_le_iff order_refl zle_int)

theorem renderer_pacing_witness:
  "\<exists>r' q' x'. RenderLoop_pass ticking_input (Renderer_Create False RenderConfig True True 1 0)
      (FrameRingBuffer 4) (MetricsExporter 9308 True) = Some (Skipped, r', q', x')"
proof -
  have wf: "rb_wf (FrameRingBuffer 4)" "rb_frames (FrameRingBuffer 4) = []" using FrameRingBuffer_wf [of 4] by simp_all
  have c: "re_has_clock (Renderer_Create False RenderConfig True True 1 0)" by (simp add: Renderer_Create_def)
  from renderer_pacing [OF wf(1) c ticking_input_advances, of "MetricsExporter 9308 True"] wf(2)
  show ?thesis by auto
qed

text \<open>
  C15. The renderer's books balance: over any number of passes, with frames offered in between, every
  pass returns, the frames rendered and dropped are, in order, exactly the frames of the ring with those
  it accepted, less those still in it; the counters of rendered, dropped and skipped frames grow by what
  happened, every pass is one of the three, and the corrections are the drops.
\<close>

theorem renderer_accounting:
  assumes "rb_wf q" "re_has_clock r"
    and "\<forall>pass \<in> set passes. mono (in_clk (snd pass)) \<and> (\<forall>t. \<exists>k. t \<le> in_clk (snd pass) k)"
  shows "\<exists>outcomes taken r' q' x'. render_run passes r q x = Some (outcomes, taken, r', q', x')
    \<and> rb_frames q @ taken = concat (map handled outcomes) @ rb_frames q'
    \<and> rs_frames_rendered (re_stats r') = rs_frames_rendered (re_stats r) + rendered outcomes
    \<and> rs_frames_dropped (re_stats r') = rs_frames_dropped (re_stats r) + dropped outcomes
    \<and> rs_corrections_total (re_stats r') = rs_corrections_total (re_stats r) + dropped outcomes
    \<and> rs_frames_skipped (re_stats r') + rendered outcomes + dropped outcomes
        = rs_frames_skipped (re_stats r) + length passes"
proof -
  have "\<forall>pass \<in> set passes. advancing (snd pass)" using assms(3) by (simp add: advancing_def)
  from render_run_accounts [where passes = passes and x = x, OF assms(1,2) this] show ?thesis by blast
qed

theorem renderer_accounting_witness:
  "\<exists>outcomes taken r' q' x'. render_run [([pts_frame 5], ticking_input), ([], ticking_input)]
      (Renderer_Create False RenderConfig True True 1 0) (FrameRingBuffer 4) (MetricsExporter 9308 True)
        = Some (outcomes, taken, r', q', x')
     \<and> rs_frames_skipped (re_stats r') + rendered outcomes + dropped outcomes = 2"
proof -
  let ?r = "Renderer_Create False RenderConfig True True 1 0"
  have wf: "rb_wf (FrameRingBuffer 4)" using FrameRingBuffer_wf [of 4] by simp
  have c: "re_has_clock ?r" and z: "rs_frames_skipped (re_stats ?r) = 0"
    by (simp_all add: Renderer_Create_def RenderStats_def)
  have a: "\<forall>pass \<in> set [([pts_frame 5], ticking_input), ([], ticking_input)].
      mono (in_clk (snd pass)) \<and> (\<forall>t. \<exists>k. t \<le> in_clk (snd pass) k)"
    using ticking_input_advances by simp
  from renderer_accounting [where x = "MetricsExporter 9308 True", OF wf c a] z show ?thesis by auto
qed

end
