(* ===== verification/PlayoutEngine.thy ===== *)
theory PlayoutEngine
  imports FrameProducer FrameRenderer ControlStateMachine
begin

text \<open>
  The playout engine (\<open>include/retrovue/runtime/PlayoutEngine.h\<close>, \<open>src/runtime/PlayoutEngine.cpp\<close>) and
  the controller that hands its calls on (\<open>PlayoutController\<close>): starting and stopping a channel,
  loading a preview, switching, updating the plan. A channel owns a ring, a live and a preview producer, a
  renderer and a control state machine; the engine holds one mutex for the length of every call, so a
  call is one function on its state. While a call waits, only the threads of the channel run: what they do
  is the list of turns given for each poll. A call that never returns is \<open>None\<close>.
\<close>

section \<open>State\<close>

record channel =
  ch_plan_handle :: string
  ch_port :: int
  ch_uds_path :: "string option"
  ch_ring_buffer :: ring_buffer
  ch_live_producer :: frame_producer
  ch_preview_producer :: "frame_producer option"
  ch_renderer :: renderer
  ch_control :: control

record engine =
  en_metrics_exporter :: exporter
  en_has_clock :: bool
  en_channels :: "int \<rightharpoonup> channel"

record engine_result =
  er_success :: bool
  er_message :: string
  er_shadow_decode_started :: bool
  er_pts_contiguous :: bool
  er_live_start_pts :: nat

definition EngineResult :: "bool \<Rightarrow> string \<Rightarrow> engine_result" where
  "EngineResult success message = \<lparr>er_success = success, er_message = message,
     er_shadow_decode_started = False, er_pts_contiguous = False, er_live_start_pts = 0\<rparr>"

definition kDefaultBufferSize :: usize where "kDefaultBufferSize = 60"
definition kReadyDepth :: usize where "kReadyDepth = 3"
definition kReadyTimeoutUs :: int where "kReadyTimeoutUs = 2000000"

text \<open>What the threads of a channel do: a turn of the live or the preview producer's thread, or of the
  render thread. A turn that does not end changes nothing.\<close>

datatype thread_turn =
    LiveTurn ff_decoder ff_open_env pass_input
  | PreviewTurn ff_decoder ff_open_env pass_input
  | RenderTurn sdl_calls render_input

fun run_turn :: "thread_turn \<Rightarrow> channel \<times> exporter \<Rightarrow> channel \<times> exporter" where
  "run_turn (LiveTurn junk e inp) (c, x) =
     (case Fp_thread_turn junk e inp (ch_live_producer c) (ch_ring_buffer c) of
        None \<Rightarrow> (c, x) | Some (p, q) \<Rightarrow> (c\<lparr>ch_live_producer := p, ch_ring_buffer := q\<rparr>, x))"
| "run_turn (PreviewTurn junk e inp) (c, x) =
     (case ch_preview_producer c of
        None \<Rightarrow> (c, x)
      | Some p \<Rightarrow>
        (case Fp_thread_turn junk e inp p (ch_ring_buffer c) of
           None \<Rightarrow> (c, x) | Some (p, q) \<Rightarrow> (c\<lparr>ch_preview_producer := Some p, ch_ring_buffer := q\<rparr>, x)))"
| "run_turn (RenderTurn sdl inp) (c, x) =
     (case Re_thread_turn sdl inp (ch_renderer c) (ch_ring_buffer c) x of
        None \<Rightarrow> (c, x) | Some (r, q, x) \<Rightarrow> (c\<lparr>ch_renderer := r, ch_ring_buffer := q\<rparr>, x))"

definition run_turns :: "thread_turn list \<Rightarrow> channel \<times> exporter \<Rightarrow> channel \<times> exporter" where
  "run_turns turns cx = foldl (\<lambda>cx t. run_turn t cx) cx turns"

text \<open>What a call reads: the clock, the steady clock at poll \<open>n\<close>, and the turns between the polls.\<close>

record call_input =
  ci_now_utc :: "nat \<Rightarrow> time_us"
  ci_steady_us :: "nat \<Rightarrow> int"
  ci_turns :: "nat \<Rightarrow> thread_turn list"

definition MakeCommandId :: "string \<Rightarrow> int \<Rightarrow> string" where
  "MakeCommandId prefix channel_id = prefix @ ''-'' @ decimal_of_int channel_id"

fun ToChannelState :: "control_state \<Rightarrow> channel_state" where
  "ToChannelState kIdle = STOPPED_CHANNEL"
| "ToChannelState kBuffering = BUFFERING"
| "ToChannelState kReady = READY"
| "ToChannelState kPlaying = READY"
| "ToChannelState kPaused = READY"
| "ToChannelState kStopping = BUFFERING"
| "ToChannelState kError = ERROR_STATE"

definition PlayoutEngine :: "exporter \<Rightarrow> bool \<Rightarrow> engine" where
  "PlayoutEngine metrics_exporter has_clock =
     \<lparr>en_metrics_exporter = metrics_exporter, en_has_clock = has_clock, en_channels = Map.empty\<rparr>"

definition channel_message :: "string \<Rightarrow> int \<Rightarrow> string \<Rightarrow> string" where
  "channel_message before channel_id after = before @ decimal_of_int channel_id @ after"

section \<open>Starting a channel\<close>

text \<open>The loop that waits for \<open>kReadyDepth\<close> frames: true when they are there, false on the timeout.\<close>

partial_function (option) await_depth :: "call_input \<Rightarrow> nat \<Rightarrow> channel \<times> exporter \<Rightarrow> (bool \<times> channel \<times> exporter) option" where
  "await_depth inp n cx =
     (if kReadyDepth \<le> Size (ch_ring_buffer (fst cx)) then Some (True, cx)
      else if kReadyTimeoutUs < ci_steady_us inp (Suc n) - ci_steady_us inp 0 then Some (False, cx)
      else await_depth inp (Suc n) (run_turns (ci_turns inp n) cx))"

definition depth_metrics :: "channel_state \<Rightarrow> channel \<Rightarrow> channel_metrics" where
  "depth_metrics state c = ChannelMetrics\<lparr>cm_state := state, cm_buffer_depth_frames := unat (Size (ch_ring_buffer c))\<rparr>"

text \<open>The channel that a failed start leaves is destroyed: its renderer is stopped, which publishes once
  more, and its producer is stopped.\<close>

definition destroy_channel :: "channel \<Rightarrow> exporter \<Rightarrow> exporter" where
  "destroy_channel c x =
     (if \<not> re_running (ch_renderer c) \<and> re_thread (ch_renderer c) = NoThread then x
      else snd (Re_Stop_finish (ch_renderer c) (ch_ring_buffer c) x))"

definition new_channel :: "engine \<Rightarrow> string \<Rightarrow> int \<Rightarrow> string option \<Rightarrow> int \<Rightarrow> av_read list \<Rightarrow> call_input \<Rightarrow> channel" where
  "new_channel e plan_handle port uds_path channel_id file inp =
     \<lparr>ch_plan_handle = plan_handle, ch_port = port, ch_uds_path = uds_path,
      ch_ring_buffer = FrameRingBuffer kDefaultBufferSize,
      ch_live_producer = FrameProducer (FrameProducerConfig\<lparr>fc_asset_uri := plan_handle, fc_target_fps := 30,
          fc_stub_mode := False\<rparr>) file (en_has_clock e),
      ch_preview_producer = None,
      ch_renderer = Renderer_Create False (RenderConfig\<lparr>rc_mode := HEADLESS\<rparr>) (en_has_clock e) True channel_id
          (real_of_int (ci_steady_us inp 0) / 1000),
      ch_control = PlayoutControlStateMachine\<rparr>"

text \<open>The rest of \<open>StartChannel\<close> after the wait.\<close>

definition finish_start :: "call_input \<Rightarrow> int \<Rightarrow> engine \<Rightarrow> bool \<times> channel \<times> exporter \<Rightarrow> engine_result \<times> engine" where
  "finish_start inp channel_id e waited =
     (let (ready, c, x) = waited
      in if \<not> ready
         then let x = snd (SubmitChannelMetrics channel_id (depth_metrics BUFFERING c) x)
              in (EngineResult False (channel_message ''Timeout waiting for buffer depth on channel '' channel_id ''''),
                  e\<lparr>en_metrics_exporter := destroy_channel c x\<rparr>)
         else let c = c\<lparr>ch_control := OnBufferDepth (unat (Size (ch_ring_buffer c))) (unat kDefaultBufferSize)
                        (ci_now_utc inp 1) (ch_control c)\<rparr>;
                  x = snd (SubmitChannelMetrics channel_id (depth_metrics READY c) x)
              in (EngineResult True (channel_message ''Channel '' channel_id '' started successfully''),
                  e\<lparr>en_metrics_exporter := x, en_channels := (en_channels e)(channel_id \<mapsto> c)\<rparr>))"

definition Engine_StartChannel :: "call_input \<Rightarrow> av_read list \<Rightarrow> int \<Rightarrow> string \<Rightarrow> int \<Rightarrow> string option \<Rightarrow> engine
    \<Rightarrow> (engine_result \<times> engine) option" where
  "Engine_StartChannel inp file channel_id plan_handle port uds_path e =
     (if channel_id \<in> dom (en_channels e)
      then Some (EngineResult True (channel_message ''Channel '' channel_id '' already started''), e)
      else let c = new_channel e plan_handle port uds_path channel_id file inp;
               x = en_metrics_exporter e;
               (begun, control) = BeginSession (MakeCommandId ''start'' channel_id) (ci_now_utc inp 0) (ch_control c);
               c = c\<lparr>ch_control := control\<rparr>
      in if \<not> begun
      then Some (EngineResult False (channel_message ''Failed to begin session for channel '' channel_id ''''), e)
      else let (started, p) = Fp_Start (ch_live_producer c); c = c\<lparr>ch_live_producer := p\<rparr>
      in if \<not> started
      then Some (EngineResult False (channel_message ''Failed to start producer for channel '' channel_id ''''), e)
      else let (started, r, x) = Re_Start (ch_renderer c) (ch_ring_buffer c) x; c = c\<lparr>ch_renderer := r\<rparr>
      in if \<not> started
      then Some (EngineResult False (channel_message ''Failed to start renderer for channel '' channel_id ''''),
                 e\<lparr>en_metrics_exporter := x\<rparr>)
      else map_option (finish_start inp channel_id e) (await_depth inp 0 (c, x)))"

section \<open>Stopping and switching\<close>

text \<open>\<open>RequestTeardown(500)\<close>, the wait for \<open>IsRunning\<close> to become false, and \<open>Stop\<close>, on the producer that
  \<open>get\<close> reads and \<open>put\<close> writes; the threads take turns meanwhile.\<close>

partial_function (option) await_idle :: "(channel \<Rightarrow> frame_producer) \<Rightarrow> call_input \<Rightarrow> nat \<Rightarrow> channel \<times> exporter
    \<Rightarrow> (channel \<times> exporter) option" where
  "await_idle get inp n cx =
     (if \<not> Fp_IsRunning (get (fst cx)) then Some cx
      else await_idle get inp (Suc n) (run_turns (ci_turns inp n) cx))"

definition stop_producer :: "frame_producer \<Rightarrow> frame_producer" where
  "stop_producer p = (if \<not> fp_running p then p else Fp_Stop_finish (Fp_Stop_request p))"

definition retire_live :: "call_input \<Rightarrow> channel \<times> exporter \<Rightarrow> (channel \<times> exporter) option" where
  "retire_live inp cx =
     (let c = fst cx;
          c = c\<lparr>ch_live_producer := Fp_RequestTeardown 500 (ci_steady_us inp 0 div 1000) (ch_live_producer c)\<rparr>
      in case await_idle ch_live_producer inp 0 (c, snd cx) of
           None \<Rightarrow> None
         | Some (c, x) \<Rightarrow> Some (c\<lparr>ch_live_producer := stop_producer (ch_live_producer c)\<rparr>, x))"

definition retire_preview :: "call_input \<Rightarrow> channel \<times> exporter \<Rightarrow> (channel \<times> exporter) option" where
  "retire_preview inp cx =
     (let c = fst cx in
      case ch_preview_producer c of
        None \<Rightarrow> Some cx
      | Some p \<Rightarrow>
        let c = c\<lparr>ch_preview_producer := Some (Fp_RequestTeardown 500 (ci_steady_us inp 0 div 1000) p)\<rparr>
        in case await_idle (\<lambda>c. case ch_preview_producer c of Some p \<Rightarrow> p | None \<Rightarrow> ch_live_producer c) inp 0 (c, snd cx) of
             None \<Rightarrow> None
           | Some (c, x) \<Rightarrow> Some (c\<lparr>ch_preview_producer := map_option stop_producer (ch_preview_producer c)\<rparr>, x))"

definition stop_renderer :: "channel \<times> exporter \<Rightarrow> channel \<times> exporter" where
  "stop_renderer cx =
     (let c = fst cx; r = ch_renderer c
      in if \<not> re_running r \<and> re_thread r = NoThread then cx
         else let (r, x) = Re_Stop_finish (RenderLoop_end (Re_Stop_request r)) (ch_ring_buffer c) (snd cx)
              in (c\<lparr>ch_renderer := r\<rparr>, x))"

text \<open>\<open>while (ring_buffer->Pop(frame)) {}\<close>: at most as many rounds as there are slots.\<close>

fun drain :: "nat \<Rightarrow> ring_buffer \<Rightarrow> ring_buffer" where
  "drain 0 q = q"
| "drain (Suc n) q = (case Pop q of (None, q) \<Rightarrow> q | (Some _, q) \<Rightarrow> drain n q)"

definition Engine_StopChannel :: "call_input \<Rightarrow> int \<Rightarrow> engine \<Rightarrow> (engine_result \<times> engine) option" where
  "Engine_StopChannel inp channel_id e =
     (case en_channels e channel_id of
        None \<Rightarrow> Some (EngineResult False (channel_message ''Channel '' channel_id '' not found''), e)
      | Some c \<Rightarrow>
        let now = ci_now_utc inp 0;
            c = c\<lparr>ch_control := snd (Stop (MakeCommandId ''stop'' channel_id) now now (ch_control c))\<rparr>
        in case retire_live inp (stop_renderer (c, en_metrics_exporter e)) of
             None \<Rightarrow> None
           | Some cx \<Rightarrow>
             (case retire_preview inp cx of
                None \<Rightarrow> None
              | Some (c, x) \<Rightarrow>
                let c = c\<lparr>ch_ring_buffer := Clear (drain (unat (Capacity (ch_ring_buffer c))) (ch_ring_buffer c))\<rparr>;
                    x = snd (SubmitChannelMetrics channel_id (ChannelMetrics\<lparr>cm_state := STOPPED_CHANNEL,
                          cm_buffer_depth_frames := 0\<rparr>) x)
                in Some (EngineResult True (channel_message ''Channel '' channel_id '' stopped successfully''),
                         e\<lparr>en_metrics_exporter := x, en_channels := (en_channels e)(channel_id := None)\<rparr>)))"

definition Engine_LoadPreview :: "av_read list \<Rightarrow> int \<Rightarrow> string \<Rightarrow> engine \<Rightarrow> engine_result \<times> engine" where
  "Engine_LoadPreview file channel_id asset_path e =
     (case en_channels e channel_id of
        None \<Rightarrow> (EngineResult False (channel_message ''Channel '' channel_id '' not found''), e)
      | Some c \<Rightarrow>
        let p = FrameProducer (FrameProducerConfig\<lparr>fc_asset_uri := asset_path, fc_target_fps := 30,
                  fc_stub_mode := False\<rparr>) file (en_has_clock e);
            (started, p) = Fp_Start p;
            c = c\<lparr>ch_preview_producer := Some p\<rparr>;
            e = e\<lparr>en_channels := (en_channels e)(channel_id \<mapsto> c)\<rparr>
        in if \<not> started
           then (EngineResult False (channel_message ''Failed to start preview producer for channel '' channel_id ''''), e)
           else ((EngineResult True (channel_message ''Preview loaded for channel '' channel_id ''''))
                   \<lparr>er_shadow_decode_started := True\<rparr>, e))"

definition Engine_SwitchToLive :: "call_input \<Rightarrow> int \<Rightarrow> engine \<Rightarrow> (engine_result \<times> engine) option" where
  "Engine_SwitchToLive inp channel_id e =
     (case en_channels e channel_id of
        None \<Rightarrow> Some (EngineResult False (channel_message ''Channel '' channel_id '' not found''), e)
      | Some c \<Rightarrow>
        (case ch_preview_producer c of
           None \<Rightarrow> Some (EngineResult False (channel_message ''No preview producer loaded for channel '' channel_id ''''), e)
         | Some _ \<Rightarrow>
           (case retire_live inp (c, en_metrics_exporter e) of
              None \<Rightarrow> None
            | Some (c, x) \<Rightarrow>
              let c = (case ch_preview_producer c of None \<Rightarrow> c | Some p \<Rightarrow> c\<lparr>ch_live_producer := p\<rparr>);
                  c = c\<lparr>ch_preview_producer := None\<rparr>
              in Some ((EngineResult True (channel_message ''Switched to live for channel '' channel_id ''''))
                         \<lparr>er_pts_contiguous := True, er_live_start_pts := 0\<rparr>,
                       e\<lparr>en_metrics_exporter := x, en_channels := (en_channels e)(channel_id \<mapsto> c)\<rparr>))))"

definition Engine_UpdatePlan :: "int \<Rightarrow> string \<Rightarrow> engine \<Rightarrow> engine_result \<times> engine" where
  "Engine_UpdatePlan channel_id plan_handle e =
     (case en_channels e channel_id of
        None \<Rightarrow> (EngineResult False (channel_message ''Channel '' channel_id '' not found''), e)
      | Some c \<Rightarrow> (EngineResult True (channel_message ''Plan updated for channel '' channel_id ''''),
                  e\<lparr>en_channels := (en_channels e)(channel_id \<mapsto> c\<lparr>ch_plan_handle := plan_handle\<rparr>)\<rparr>))"

section \<open>Destroying the engine\<close>

text \<open>
  \<open>~PlayoutEngine\<close> holds the mutex of the channels and calls \<open>StopChannel\<close> for the first of them, which
  asks for the same mutex: with any channel left the destructor does not return.
\<close>

definition Engine_destroy :: "engine \<Rightarrow> exporter option" where
  "Engine_destroy e = (if dom (en_channels e) = {} then Some (en_metrics_exporter e) else None)"

lemma destroy_never: "en_channels e ch = Some c \<Longrightarrow> Engine_destroy e = None"
  by (auto simp: Engine_destroy_def)

section \<open>The controller\<close>

record controller_result =
  cr_success :: bool
  cr_message :: string
  cr_shadow_decode_started :: bool
  cr_pts_contiguous :: bool
  cr_live_start_pts :: nat

definition ControllerResult :: "bool \<Rightarrow> string \<Rightarrow> controller_result" where
  "ControllerResult success message = \<lparr>cr_success = success, cr_message = message,
     cr_shadow_decode_started = False, cr_pts_contiguous = False, cr_live_start_pts = 0\<rparr>"

definition plain_result :: "engine_result \<times> engine \<Rightarrow> controller_result \<times> engine" where
  "plain_result res = (ControllerResult (er_success (fst res)) (er_message (fst res)), snd res)"

definition Controller_StartChannel :: "call_input \<Rightarrow> av_read list \<Rightarrow> int \<Rightarrow> string \<Rightarrow> int \<Rightarrow> string option \<Rightarrow> engine
    \<Rightarrow> (controller_result \<times> engine) option" where
  "Controller_StartChannel inp file channel_id plan_handle port uds_path e =
     map_option plain_result (Engine_StartChannel inp file channel_id plan_handle port uds_path e)"

definition Controller_StopChannel :: "call_input \<Rightarrow> int \<Rightarrow> engine \<Rightarrow> (controller_result \<times> engine) option" where
  "Controller_StopChannel inp channel_id e = map_option plain_result (Engine_StopChannel inp channel_id e)"

definition Controller_LoadPreview :: "av_read list \<Rightarrow> int \<Rightarrow> string \<Rightarrow> engine \<Rightarrow> controller_result \<times> engine" where
  "Controller_LoadPreview file channel_id asset_path e =
     (let (result, e) = Engine_LoadPreview file channel_id asset_path e
      in ((ControllerResult (er_success result) (er_message result))
            \<lparr>cr_shadow_decode_started := er_shadow_decode_started result\<rparr>, e))"

definition Controller_SwitchToLive :: "call_input \<Rightarrow> int \<Rightarrow> engine \<Rightarrow> (controller_result \<times> engine) option" where
  "Controller_SwitchToLive inp channel_id e =
     (case Engine_SwitchToLive inp channel_id e of
        None \<Rightarrow> None
      | Some (result, e) \<Rightarrow>
          Some ((ControllerResult (er_success result) (er_message result))
                  \<lparr>cr_pts_contiguous := er_pts_contiguous result, cr_live_start_pts := er_live_start_pts result\<rparr>, e))"

definition Controller_UpdatePlan :: "int \<Rightarrow> string \<Rightarrow> engine \<Rightarrow> controller_result \<times> engine" where
  "Controller_UpdatePlan channel_id plan_handle e = plain_result (Engine_UpdatePlan channel_id plan_handle e)"

section \<open>What the threads leave alone\<close>

lemma run_turn_keeps:
  "fp_running (ch_live_producer (fst (run_turn t (c, x)))) = fp_running (ch_live_producer c)"
  "map_option fp_running (ch_preview_producer (fst (run_turn t (c, x)))) = map_option fp_running (ch_preview_producer c)"
  "ch_control (fst (run_turn t (c, x))) = ch_control c"
  by (cases t; auto simp: Fp_thread_turn_running split: option.split)+

lemma run_turns_keeps:
  "fp_running (ch_live_producer (fst (run_turns ts (c, x)))) = fp_running (ch_live_producer c)"
  "map_option fp_running (ch_preview_producer (fst (run_turns ts (c, x)))) = map_option fp_running (ch_preview_producer c)"
  "ch_control (fst (run_turns ts (c, x))) = ch_control c"
proof -
  have "fp_running (ch_live_producer (fst (foldl (\<lambda>cx t. run_turn t cx) (c, x) ts))) = fp_running (ch_live_producer c)
    \<and> map_option fp_running (ch_preview_producer (fst (foldl (\<lambda>cx t. run_turn t cx) (c, x) ts)))
        = map_option fp_running (ch_preview_producer c)
    \<and> ch_control (fst (foldl (\<lambda>cx t. run_turn t cx) (c, x) ts)) = ch_control c"
  proof (induction ts arbitrary: c x)
    case (Cons t ts)
    obtain c1 x1 where r: "run_turn t (c, x) = (c1, x1)" by (cases "run_turn t (c, x)")
    from Cons [of c1 x1] run_turn_keeps [of t c x] r show ?case by simp
  qed simp
  then show "fp_running (ch_live_producer (fst (run_turns ts (c, x)))) = fp_running (ch_live_producer c)"
    "map_option fp_running (ch_preview_producer (fst (run_turns ts (c, x)))) = map_option fp_running (ch_preview_producer c)"
    "ch_control (fst (run_turns ts (c, x))) = ch_control c" by (simp_all add: run_turns_def)
qed

lemma await_idle_live_never:
  "await_idle get inp n cx = Some r \<Longrightarrow> get = ch_live_producer \<Longrightarrow> fp_running (ch_live_producer (fst cx)) \<Longrightarrow> False"
proof (induction get inp n cx r rule: await_idle.raw_induct [rotated 1, consumes 1])
  case (1 await get inp n cx r)
  obtain c x where cx: "cx = (c, x)" by (cases cx)
  from 1(2-4) have "await get inp (Suc n) (run_turns (ci_turns inp n) cx) = Some r"
    by (simp add: Fp_IsRunning_def)
  moreover have "fp_running (ch_live_producer (fst (run_turns (ci_turns inp n) cx)))"
    using run_turns_keeps(1) [of "ci_turns inp n" c x] 1(4) cx by simp
  ultimately show ?case using 1(1,3) by blast
qed


lemma await_depth_Some:
  "await_depth inp n cx = Some (ok, c', x') \<Longrightarrow>
     fp_running (ch_live_producer c') = fp_running (ch_live_producer (fst cx)) \<and> ch_control c' = ch_control (fst cx)
     \<and> map_option fp_running (ch_preview_producer c') = map_option fp_running (ch_preview_producer (fst cx))
     \<and> (ok \<longrightarrow> 3 \<le> unat (Size (ch_ring_buffer c')))"
proof (induction inp n cx "(ok, c', x')" rule: await_depth.raw_induct [rotated 1, consumes 1])
  case (1 await inp n cx)
  obtain c x where cx: "cx = (c, x)" by (cases cx)
  show ?case
  proof (cases "kReadyDepth \<le> Size (ch_ring_buffer (fst cx)) \<or> kReadyTimeoutUs < ci_steady_us inp (Suc n) - ci_steady_us inp 0")
    case True
    with 1(2) show ?thesis by (auto simp: kReadyDepth_def word_le_nat_alt split: if_splits)
  next
    case False
    with 1(2) have "await inp (Suc n) (run_turns (ci_turns inp n) cx) = Some (ok, c', x')" by simp
    from 1(1) [OF this] run_turns_keeps [of "ci_turns inp n" c x] cx show ?thesis by simp
  qed
qed

section \<open>Reachable engines\<close>

text \<open>The calls, one at a time, and the threads of the channels and of the exporter in between.\<close>

inductive engine_reach :: "engine \<Rightarrow> bool" where
  reach_new: "engine_reach (PlayoutEngine x has_clock)"
| reach_start: "engine_reach e \<Longrightarrow> Engine_StartChannel inp file ch plan port uds e = Some (res, e') \<Longrightarrow> engine_reach e'"
| reach_stop: "engine_reach e \<Longrightarrow> Engine_StopChannel inp ch e = Some (res, e') \<Longrightarrow> engine_reach e'"
| reach_load: "engine_reach e \<Longrightarrow> Engine_LoadPreview file ch asset e = (res, e') \<Longrightarrow> engine_reach e'"
| reach_switch: "engine_reach e \<Longrightarrow> Engine_SwitchToLive inp ch e = Some (res, e') \<Longrightarrow> engine_reach e'"
| reach_update: "engine_reach e \<Longrightarrow> Engine_UpdatePlan ch plan e = (res, e') \<Longrightarrow> engine_reach e'"
| reach_threads: "engine_reach e \<Longrightarrow> en_channels e ch = Some c \<Longrightarrow> run_turns ts (c, en_metrics_exporter e) = (c', x')
    \<Longrightarrow> engine_reach (e\<lparr>en_channels := (en_channels e)(ch \<mapsto> c'), en_metrics_exporter := x'\<rparr>)"
| reach_exporter: "engine_reach e \<Longrightarrow> WorkerLoop_pass (en_metrics_exporter e) = Some x
    \<Longrightarrow> engine_reach (e\<lparr>en_metrics_exporter := x\<rparr>)"

definition all_live_running :: "engine \<Rightarrow> bool" where
  "all_live_running e \<longleftrightarrow> (\<forall>ch c. en_channels e ch = Some c \<longrightarrow> fp_running (ch_live_producer c))"

lemma Fp_RequestTeardown_running: "fp_running (Fp_RequestTeardown ms now p) = fp_running p"
  by (simp add: Fp_RequestTeardown_def)

lemma retire_live_never:
  assumes "fp_running (ch_live_producer c)"
  shows "retire_live inp (c, x) = None"
proof -
  let ?c = "c\<lparr>ch_live_producer := Fp_RequestTeardown 500 (ci_steady_us inp 0 div 1000) (ch_live_producer c)\<rparr>"
  have "fp_running (ch_live_producer (fst (?c, x)))" using assms by (simp add: Fp_RequestTeardown_running)
  with await_idle_live_never [OF _ refl, of inp 0 "(?c, x)"] have "await_idle ch_live_producer inp 0 (?c, x) = None"
    by (cases "await_idle ch_live_producer inp 0 (?c, x)") blast+
  then show ?thesis by (simp add: retire_live_def)
qed

lemma stop_renderer_keeps: "ch_live_producer (fst (stop_renderer (c, x))) = ch_live_producer c"
  by (simp add: stop_renderer_def Let_def split: prod.split)

lemma StopChannel_never:
  assumes "all_live_running e" "en_channels e ch = Some c"
  shows "Engine_StopChannel inp ch e = None"
proof -
  let ?c = "c\<lparr>ch_control := snd (Stop (MakeCommandId ''stop'' ch) (ci_now_utc inp 0) (ci_now_utc inp 0) (ch_control c))\<rparr>"
  obtain c1 x1 where s: "stop_renderer (?c, en_metrics_exporter e) = (c1, x1)"
    by (cases "stop_renderer (?c, en_metrics_exporter e)")
  have "fp_running (ch_live_producer c)" using assms by (simp add: all_live_running_def)
  moreover have "ch_live_producer c1 = ch_live_producer c"
    using stop_renderer_keeps [of ?c "en_metrics_exporter e"] s by simp
  ultimately have "retire_live inp (c1, x1) = None" by (intro retire_live_never) simp
  with s assms(2) show ?thesis by (simp add: Engine_StopChannel_def Let_def)
qed

lemma SwitchToLive_never:
  "all_live_running e \<Longrightarrow> en_channels e ch = Some c \<Longrightarrow> ch_preview_producer c \<noteq> None \<Longrightarrow> Engine_SwitchToLive inp ch e = None"
  by (auto simp: Engine_SwitchToLive_def all_live_running_def retire_live_never)

text \<open>A start that finds the channel free waits for a channel with a running producer.\<close>

lemma StartChannel_new:
  assumes "ch \<notin> dom (en_channels e)"
  obtains c x where "Engine_StartChannel inp file ch plan port uds e
      = map_option (finish_start inp ch e) (await_depth inp 0 (c, x))"
    "fp_running (ch_live_producer c)" "cs_state (ch_control c) = kBuffering" "ch_preview_producer c = None"
proof -
  let ?c0 = "new_channel e plan port uds ch file inp"
  obtain control where b: "BeginSession (MakeCommandId ''start'' ch) (ci_now_utc inp 0) (ch_control ?c0) = (True, control)"
    "cs_state control = kBuffering"
    by (simp add: new_channel_def BeginSession_def RegisterCommandLocked_def PlayoutControlStateMachine_def
        MakeCommandId_def TransitionLocked_def RecordTransitionLocked_def)
  obtain p where p: "Fp_Start (ch_live_producer ?c0) = (True, p)" "fp_running p"
    by (simp add: new_channel_def FrameProducer_def Fp_Start_def)
  obtain r x1 where r: "Re_Start (ch_renderer ?c0) (ch_ring_buffer ?c0) (en_metrics_exporter e) = (True, r, x1)"
    by (simp add: new_channel_def Renderer_Create_def Re_Start_def Let_def)
  have "Engine_StartChannel inp file ch plan port uds e = map_option (finish_start inp ch e)
      (await_depth inp 0 (?c0\<lparr>ch_control := control, ch_live_producer := p, ch_renderer := r\<rparr>, x1))"
    using assms b p r by (simp add: Engine_StartChannel_def Let_def domIff)
  with that [OF this] b p show thesis by (simp add: new_channel_def)
qed

lemma finish_start_True:
  "finish_start inp ch e (True, c, x) \<equiv>
     (EngineResult True (channel_message ''Channel '' ch '' started successfully''),
      e\<lparr>en_metrics_exporter := snd (SubmitChannelMetrics ch (depth_metrics READY
            (c\<lparr>ch_control := OnBufferDepth (unat (Size (ch_ring_buffer c))) (unat kDefaultBufferSize)
               (ci_now_utc inp 1) (ch_control c)\<rparr>)) x),
        en_channels := (en_channels e)(ch \<mapsto> c\<lparr>ch_control := OnBufferDepth (unat (Size (ch_ring_buffer c)))
               (unat kDefaultBufferSize) (ci_now_utc inp 1) (ch_control c)\<rparr>)\<rparr>)"
  by (rule eq_reflection) (simp add: finish_start_def Let_def)

lemma finish_start_ready:
  assumes "3 \<le> unat (Size (ch_ring_buffer c))" "cs_state (ch_control c) = kBuffering"
  obtains c' x' where "finish_start inp ch e (True, c, x)
      = (EngineResult True (channel_message ''Channel '' ch '' started successfully''),
         e\<lparr>en_metrics_exporter := x', en_channels := (en_channels e)(ch \<mapsto> c')\<rparr>)"
    "ch_live_producer c' = ch_live_producer c" "cs_state (ch_control c') = kPlaying" "ch_ring_buffer c' = ch_ring_buffer c"
    "ch_preview_producer c' = ch_preview_producer c"
proof -
  have "cs_state (OnBufferDepth (unat (Size (ch_ring_buffer c))) (unat kDefaultBufferSize)
        (ci_now_utc inp 1) (ch_control c)) = kPlaying"
    using assms
    by (simp add: OnBufferDepth_def kDefaultBufferSize_def kReadinessThresholdFrames_def TransitionLocked_def
        RecordTransitionLocked_def)
  with that [OF meta_eq_to_obj_eq [OF finish_start_True]] show thesis by simp
qed

lemma StartChannel_cases:
  assumes "ch \<notin> dom (en_channels e)" "Engine_StartChannel inp file ch plan port uds e = Some (res, e')"
  obtains (ready) c x where
      "res = EngineResult True (channel_message ''Channel '' ch '' started successfully'')"
      "e' = e\<lparr>en_metrics_exporter := x, en_channels := (en_channels e)(ch \<mapsto> c)\<rparr>"
      "fp_running (ch_live_producer c)" "cs_state (ch_control c) = kPlaying" "3 \<le> unat (Size (ch_ring_buffer c))"
      "ch_preview_producer c = None"
    | (timeout) x where
      "res = EngineResult False (channel_message ''Timeout waiting for buffer depth on channel '' ch '''')"
      "e' = e\<lparr>en_metrics_exporter := x\<rparr>"
proof -
  obtain c1 x1 where s: "Engine_StartChannel inp file ch plan port uds e
      = map_option (finish_start inp ch e) (await_depth inp 0 (c1, x1))"
    "fp_running (ch_live_producer c1)" "cs_state (ch_control c1) = kBuffering" "ch_preview_producer c1 = None"
    using StartChannel_new [OF assms(1)] by metis
  then have "map_option (finish_start inp ch e) (await_depth inp 0 (c1, x1)) = Some (res, e')"
    using assms(2) by simp
  then obtain ok c2 x2 where w: "await_depth inp 0 (c1, x1) = Some (ok, c2, x2)"
      "finish_start inp ch e (ok, c2, x2) = (res, e')" by (auto simp del: split_paired_All)
  note k = await_depth_Some [OF w(1)]
  show thesis
  proof (cases ok)
    case False
    with w(2) show thesis by (intro timeout) (auto simp: finish_start_def Let_def)
  next
    case True
    with k s have "3 \<le> unat (Size (ch_ring_buffer c2))" "cs_state (ch_control c2) = kBuffering" by simp_all
    from finish_start_ready [OF this] obtain c' x' where "finish_start inp ch e (True, c2, x2)
      = (EngineResult True (channel_message ''Channel '' ch '' started successfully''),
         e\<lparr>en_metrics_exporter := x', en_channels := (en_channels e)(ch \<mapsto> c')\<rparr>)"
      "ch_live_producer c' = ch_live_producer c2" "cs_state (ch_control c') = kPlaying" "ch_ring_buffer c' = ch_ring_buffer c2"
      "ch_preview_producer c' = ch_preview_producer c2"
      by metis
    with True w(2) k s show thesis by (intro ready [of c' x']) auto
  qed
qed

lemma reach_all_live_running: "engine_reach e \<Longrightarrow> all_live_running e"
proof (induction rule: engine_reach.induct)
  case (reach_new x has_clock)
  then show ?case by (simp add: all_live_running_def PlayoutEngine_def)
next
  case (reach_start e inp packets ch plan port uds res e')
  show ?case
  proof (cases "ch \<in> dom (en_channels e)")
    case True
    with reach_start show ?thesis by (simp add: Engine_StartChannel_def)
  next
    case False
    from False reach_start(2) show ?thesis
      by (cases rule: StartChannel_cases) (use reach_start(3) in \<open>auto simp: all_live_running_def\<close>)
  qed
next
  case (reach_stop e inp ch res e')
  then show ?case
    using StopChannel_never [OF reach_stop(3)]
    by (cases "en_channels e ch") (auto simp: Engine_StopChannel_def)
next
  case (reach_load e packets ch asset res e')
  then show ?case
    by (auto simp: Engine_LoadPreview_def all_live_running_def Let_def split: option.splits if_splits prod.splits)
next
  case (reach_switch e inp ch res e')
  show ?case
  proof (cases "\<exists>c. en_channels e ch = Some c \<and> ch_preview_producer c \<noteq> None")
    case True
    with SwitchToLive_never [OF reach_switch(3)] reach_switch(2) show ?thesis by fastforce
  next
    case False
    with reach_switch show ?thesis by (auto simp: Engine_SwitchToLive_def split: option.splits)
  qed
next
  case (reach_update e ch plan res e')
  then show ?case by (auto simp: Engine_UpdatePlan_def all_live_running_def split: option.splits if_splits)
next
  case (reach_threads e ch c ts c' x')
  then show ?case
    using run_turns_keeps(1) [of ts c "en_metrics_exporter e"] by (auto simp: all_live_running_def)
next
  case (reach_exporter e x)
  then show ?case by (simp add: all_live_running_def)
qed

section \<open>Properties\<close>


definition late_input :: call_input where
  "late_input = \<lparr>ci_now_utc = (\<lambda>_. 0), ci_steady_us = (\<lambda>n. if n = 0 then 0 else 3000000), ci_turns = (\<lambda>_. [])\<rparr>"


text \<open>
  C12. The producers never report that they are idle, so in every engine that the calls can reach
  \<open>StopChannel\<close> returns only for a channel that does not exist, and \<open>SwitchToLive\<close> only when the channel
  does not exist or has no preview: otherwise the call waits for ever, whatever the threads do.
\<close>

theorem stop_and_switch_never_return:
  assumes "engine_reach e"
  shows "(Engine_StopChannel inp ch e \<noteq> None \<longleftrightarrow> en_channels e ch = None)
    \<and> (Engine_SwitchToLive inp ch e \<noteq> None \<longleftrightarrow>
         (\<forall>c. en_channels e ch = Some c \<longrightarrow> ch_preview_producer c = None))"
proof (cases "en_channels e ch")
  case None
  then show ?thesis by (simp add: Engine_StopChannel_def Engine_SwitchToLive_def)
next
  case (Some c)
  note run = reach_all_live_running [OF assms]
  have "Engine_SwitchToLive inp ch e \<noteq> None" if "ch_preview_producer c = None"
    using that Some by (simp add: Engine_SwitchToLive_def)
  moreover have "Engine_SwitchToLive inp ch e = None" if "ch_preview_producer c \<noteq> None"
    using SwitchToLive_never [OF run Some that] .
  ultimately have "Engine_SwitchToLive inp ch e \<noteq> None \<longleftrightarrow> ch_preview_producer c = None" by metis
  with Some StopChannel_never [OF run Some, of inp] show ?thesis by simp
qed

text \<open>A start that succeeds: the decoder cannot be opened, and three stub frames arrive.\<close>

lemma Fp_stub_frame_deadline: "Fp_stub_frame (p\<lparr>fp_next_stub_deadline_utc := d\<rparr>) = Fp_stub_frame p"
  by (simp add: Fp_stub_frame_def)

lemma stub_turns:
  assumes "fp_thread (ch_live_producer c) = InLoop" "\<not> fp_stop_requested (ch_live_producer c)"
    "\<not> fp_teardown_requested (ch_live_producer c)" "fc_stub_mode (fp_config (ch_live_producer c))"
    "0 \<le> fp_frame_interval_us (ch_live_producer c)"
    "\<forall>i. pi_clk inp i + int k * fp_frame_interval_us (ch_live_producer c) \<le> 0"
    "fp_next_stub_deadline_utc (ch_live_producer c) = 0
     \<or> fp_next_stub_deadline_utc (ch_live_producer c) + int k * fp_frame_interval_us (ch_live_producer c) \<le> 0"
    "rb_wf (ch_ring_buffer c)" "length (rb_frames (ch_ring_buffer c)) + k \<le> rb_room (ch_ring_buffer c)"
    and neg: "pi_clk inp 0 < 0"
  shows "\<exists>c'. run_turns (replicate k (LiveTurn junk e inp)) (c, x) = (c', x) \<and> rb_wf (ch_ring_buffer c')
    \<and> length (rb_frames (ch_ring_buffer c')) = length (rb_frames (ch_ring_buffer c)) + k
    \<and> rb_room (ch_ring_buffer c') = rb_room (ch_ring_buffer c)"
  using assms(1-9)
proof (induction k arbitrary: c)
  case 0
  then show ?case by (simp add: run_turns_def)
next
  case (Suc k)
  let ?p = "ch_live_producer c" and ?q = "ch_ring_buffer c"
  obtain q' where q': "Push ?q (Fp_stub_frame ?p) = (True, q')" "rb_frames q' = rb_frames ?q @ [Fp_stub_frame ?p]"
    "rb_wf q'" "rb_room q' = rb_room ?q"
    using Push_room [OF Suc.prems(8), of "Fp_stub_frame ?p"] Suc.prems(9) by auto
  let ?due = "(if fp_next_stub_deadline_utc ?p = 0 then pi_clk inp 0 else fp_next_stub_deadline_utc ?p) + fp_frame_interval_us ?p"
  have due: "?due + int k * fp_frame_interval_us ?p \<le> 0"
    using Suc.prems(6,7) by (auto simp: algebra_simps)
  moreover have "0 \<le> int k * fp_frame_interval_us ?p" using Suc.prems(5) by simp
  ultimately have "?due \<le> 0" by linarith
  then have waited: "Fp_WaitUntilUtc r inp ?due i = Some i" for r i by (simp add: Fp_WaitUntilUtc_def)
  let ?p1 = "?p\<lparr>fp_frames_produced := fp_frames_produced ?p + 1,
      fp_stub_pts_counter := fp_stub_pts_counter ?p + fp_frame_interval_us ?p\<rparr>"
  let ?p2 = "if fp_has_clock ?p then ?p1\<lparr>fp_next_stub_deadline_utc := ?due\<rparr> else ?p1"
  let ?c = "c\<lparr>ch_live_producer := ?p2, ch_ring_buffer := q'\<rparr>"
  have "Fp_ProduceLoop_pass inp ?p ?q = Some (?p2, q')"
    using q'(1) waited Suc.prems(3,4) neg
    by (cases "fp_has_clock ?p"; cases "fp_next_stub_deadline_utc ?p = 0")
      (simp_all add: Fp_ProduceLoop_pass_def Fp_ProduceStubFrame_def Fp_stub_frame_deadline)
  then have "run_turn (LiveTurn junk e inp) (c, x) = (?c, x)"
    using Suc.prems(1,2) by (simp add: Fp_thread_turn_def)
  moreover have "\<exists>c'. run_turns (replicate k (LiveTurn junk e inp)) (?c, x) = (c', x) \<and> rb_wf (ch_ring_buffer c')
    \<and> length (rb_frames (ch_ring_buffer c')) = length (rb_frames (ch_ring_buffer ?c)) + k
    \<and> rb_room (ch_ring_buffer c') = rb_room (ch_ring_buffer ?c)"
  proof (rule Suc.IH)
    have "pi_clk inp i + int k * fp_frame_interval_us ?p \<le> 0" for i
      using Suc.prems(5) spec [OF Suc.prems(6), of i] by (simp add: distrib_right)
    then show "\<forall>i. pi_clk inp i + int k * fp_frame_interval_us (ch_live_producer ?c) \<le> 0" by simp
    show "fp_next_stub_deadline_utc (ch_live_producer ?c) = 0
     \<or> fp_next_stub_deadline_utc (ch_live_producer ?c) + int k * fp_frame_interval_us (ch_live_producer ?c) \<le> 0"
      using due Suc.prems(5,7) by (auto simp: algebra_simps)
  qed (use Suc.prems q' in \<open>simp_all\<close>)
  ultimately show ?case using q'(2,4) by (simp add: run_turns_def)
qed

text \<open>A clock that reads before its epoch, so that no stub frame is waited for.\<close>

definition early_input :: pass_input where
  "early_input = quiet_input\<lparr>pi_clk := \<lambda>_. - 1000000\<rparr>"

definition missing_file :: ff_open_env where
  "missing_file = good_file\<lparr>fo_alloc_context := False\<rparr>"

definition stub_start :: call_input where
  "stub_start = \<lparr>ci_now_utc = (\<lambda>_. 0), ci_steady_us = (\<lambda>n. if n \<le> 1 then 0 else 3000000),
     ci_turns = (\<lambda>_. LiveTurn some_memory missing_file early_input
       # replicate 3 (LiveTurn some_memory missing_file early_input))\<rparr>"

lemma stub_start_succeeds:
  "\<exists>res e' c. Engine_StartChannel stub_start [] 1 ''plan'' port None (PlayoutEngine x clock) = Some (res, e')
     \<and> en_channels e' 1 = Some c \<and> \<not> IsFull (ch_ring_buffer c)"
proof -
  let ?e = "PlayoutEngine x clock" and ?t = "LiveTurn some_memory missing_file early_input"
  let ?c0 = "new_channel ?e ''plan'' port None 1 [] stub_start"
  have wf: "rb_wf (FrameRingBuffer kDefaultBufferSize)" "rb_frames (FrameRingBuffer kDefaultBufferSize) = []"
    "rb_room (FrameRingBuffer kDefaultBufferSize) = 60"
    using FrameRingBuffer_wf [of kDefaultBufferSize] by (simp_all add: kDefaultBufferSize_def)
  obtain control where b: "BeginSession (MakeCommandId ''start'' 1) (ci_now_utc stub_start 0) (ch_control ?c0) = (True, control)"
    by (simp add: new_channel_def BeginSession_def RegisterCommandLocked_def PlayoutControlStateMachine_def MakeCommandId_def)
  obtain r x1 where r: "Re_Start (ch_renderer ?c0) (ch_ring_buffer ?c0) (en_metrics_exporter ?e) = (True, r, x1)"
    by (simp add: new_channel_def Renderer_Create_def Re_Start_def Let_def)
  let ?p = "(ch_live_producer ?c0)\<lparr>fp_running := True, fp_stop_requested := False, fp_thread := Spawned\<rparr>"
  have p: "Fp_Start (ch_live_producer ?c0) = (True, ?p)" by (simp add: new_channel_def FrameProducer_def Fp_Start_def)
  let ?c1 = "?c0\<lparr>ch_control := control, ch_live_producer := ?p, ch_renderer := r\<rparr>"
  have s: "Engine_StartChannel stub_start [] 1 ''plan'' port None ?e
      = map_option (finish_start stub_start 1 ?e) (await_depth stub_start 0 (?c1, x1))"
    using b p r by (simp add: Engine_StartChannel_def Let_def PlayoutEngine_def)
  let ?c2 = "?c1\<lparr>ch_live_producer := ?p\<lparr>fp_config := (fp_config ?p)\<lparr>fc_stub_mode := True\<rparr>, fp_decoder := None, fp_thread := InLoop\<rparr>\<rparr>"
  have t: "run_turn ?t (?c1, x1) = (?c2, x1)"
    by (simp add: Fp_thread_turn_def Fp_ProduceLoop_begin_def new_channel_def FrameProducer_def missing_file_def
        good_file_def Ff_Open_def)
  have "\<exists>c'. run_turns (replicate 3 ?t) (?c2, x1) = (c', x1) \<and> rb_wf (ch_ring_buffer c')
    \<and> length (rb_frames (ch_ring_buffer c')) = length (rb_frames (ch_ring_buffer ?c2)) + 3
    \<and> rb_room (ch_ring_buffer c') = rb_room (ch_ring_buffer ?c2)"
    by (rule stub_turns) (simp_all add: new_channel_def FrameProducer_def wf PlayoutEngine_def early_input_def
        trunc_real_def llround_def)
  then obtain c3 where c3: "run_turns (replicate 3 ?t) (?c2, x1) = (c3, x1)" "rb_wf (ch_ring_buffer c3)"
    "length (rb_frames (ch_ring_buffer c3)) = 3" "rb_room (ch_ring_buffer c3) = 60" by (auto simp: new_channel_def wf)
  have turns: "run_turns (ci_turns stub_start 0) (?c1, x1) = (c3, x1)"
    using t c3(1) by (simp add: run_turns_def stub_start_def)
  have "unat (Size (ch_ring_buffer ?c1)) = 0" "unat (Size (ch_ring_buffer c3)) = 3"
    using unat_Size [OF wf(1)] wf(2) unat_Size [OF c3(2)] c3(3) by (simp_all add: new_channel_def)
  then have "\<not> kReadyDepth \<le> Size (ch_ring_buffer ?c1)" "kReadyDepth \<le> Size (ch_ring_buffer c3)"
    by (simp_all add: kReadyDepth_def word_le_nat_alt)
  then have "await_depth stub_start 0 (?c1, x1) = Some (True, c3, x1)"
    using turns by (subst await_depth.simps, subst await_depth.simps)
      (simp add: stub_start_def kReadyTimeoutUs_def)
  moreover have "\<not> IsFull (ch_ring_buffer c3)" using IsFull_iff [OF c3(2)] c3(3,4) by simp
  ultimately show ?thesis using s by (simp add: finish_start_True)
qed

theorem stop_and_switch_never_return_witness:
  "\<exists>e c. engine_reach e \<and> en_channels e 1 = Some c \<and> Engine_StopChannel late_input 1 e = None"
proof -
  obtain res e c where s: "Engine_StartChannel stub_start [] 1 ''plan'' 5000 None
      (PlayoutEngine (MetricsExporter 9308 True) False) = Some (res, e)" "en_channels e 1 = Some c"
    using stub_start_succeeds by blast
  have r: "engine_reach e" by (rule reach_start [OF reach_new s(1)])
  from stop_and_switch_never_return [OF r, of late_input 1] s(2)
  have "Engine_StopChannel late_input 1 e = None" by (simp del: not_None_eq)
  with r s(2) show ?thesis by blast
qed

end
