(* ===== verification/Channel_Flow.thy ===== *)
theory Channel_Flow
  imports PlayoutEngine
begin

text \<open>
  What flows through a channel of the engine, across its producers, its ring and its renderer: an invariant
  of every engine that calls and threads can reach. Each frame made is shown, dropped or still in the ring;
  a channel that plays the stub pattern holds the frames of consecutive numbers; and a preview that is
  loaded goes on air at once.
\<close>

section \<open>A turn of each thread\<close>




section \<open>The invariant of a channel\<close>

definition numbered :: "nat \<Rightarrow> nat \<Rightarrow> int list" where
  "numbered m n = map (\<lambda>k. int k * 33333) [m..<n]"






lemma numbered_simps [simp]:
  "numbered n n = []"
  "m \<le> n \<Longrightarrow> numbered m (Suc n) = numbered m n @ [int n * 33333]"
  by (simp_all add: numbered_def)










section \<open>Invariants of channels\<close>






section \<open>A preview producer at work\<close>


section \<open>Properties\<close>





end
