(* ===== verification/PlayoutService.thy ===== *)
theory PlayoutService
  imports PlayoutEngine "HOL-Library.Sublist"
begin

text \<open>
  The gRPC service (\<open>src/playout_service.h\<close>, \<open>src/playout_service.cpp\<close>) and the arguments of the main
  program (\<open>src/main.cpp\<close>). A call of the service hands the request to the controller, copies the result
  into the response and chooses a status code by searching the message. A call that never returns is \<open>None\<close>.
\<close>

section \<open>Status and responses\<close>

datatype status_code = OK_STATUS | INTERNAL | ALREADY_EXISTS | NOT_FOUND | FAILED_PRECONDITION

record grpc_status =
  gs_code :: status_code
  gs_message :: string

definition StatusOK :: grpc_status where
  "StatusOK = \<lparr>gs_code = OK_STATUS, gs_message = ''''\<rparr>"

record rpc_response =
  rp_success :: bool
  rp_message :: string

record load_response = rpc_response +
  rp_shadow_decode_started :: bool

record switch_response = rpc_response +
  rp_pts_contiguous :: bool
  rp_live_start_pts :: nat

definition basic_response :: "controller_result \<Rightarrow> rpc_response" where
  "basic_response result = \<lparr>rp_success = cr_success result, rp_message = cr_message result\<rparr>"

definition says :: "string \<Rightarrow> controller_result \<Rightarrow> bool" where
  "says needle result \<longleftrightarrow> sublist needle (cr_message result)"

definition failed_status :: "status_code \<Rightarrow> controller_result \<Rightarrow> grpc_status" where
  "failed_status code result =
     (if cr_success result then StatusOK else \<lparr>gs_code = code, gs_message = cr_message result\<rparr>)"

section \<open>The calls\<close>

definition kApiVersion :: string where "kApiVersion = ''1.0.0''"

definition Service_StartChannel :: "call_input \<Rightarrow> av_read list \<Rightarrow> int \<Rightarrow> string \<Rightarrow> int \<Rightarrow> engine
    \<Rightarrow> (grpc_status \<times> rpc_response \<times> engine) option" where
  "Service_StartChannel inp file channel_id plan_handle port e =
     (case Controller_StartChannel inp file channel_id plan_handle port None e of
        None \<Rightarrow> None
      | Some (result, e) \<Rightarrow>
          let code = (if says ''already'' result then ALREADY_EXISTS
                      else if says ''not found'' result then NOT_FOUND else INTERNAL)
          in Some (failed_status code result, basic_response result, e))"

definition Service_UpdatePlan :: "int \<Rightarrow> string \<Rightarrow> engine \<Rightarrow> grpc_status \<times> rpc_response \<times> engine" where
  "Service_UpdatePlan channel_id plan_handle e =
     (let (result, e) = Controller_UpdatePlan channel_id plan_handle e;
          code = (if says ''not found'' result then NOT_FOUND else INTERNAL)
      in (failed_status code result, basic_response result, e))"

definition Service_StopChannel :: "call_input \<Rightarrow> int \<Rightarrow> engine \<Rightarrow> (grpc_status \<times> rpc_response \<times> engine) option" where
  "Service_StopChannel inp channel_id e =
     (case Controller_StopChannel inp channel_id e of
        None \<Rightarrow> None
      | Some (result, e) \<Rightarrow>
          let code = (if says ''not found'' result then NOT_FOUND else INTERNAL)
          in Some (failed_status code result, basic_response result, e))"

definition GetVersion :: "grpc_status \<times> string" where
  "GetVersion = (StatusOK, kApiVersion)"

definition Service_LoadPreview :: "av_read list \<Rightarrow> int \<Rightarrow> string \<Rightarrow> engine \<Rightarrow> grpc_status \<times> load_response \<times> engine" where
  "Service_LoadPreview file channel_id asset_path e =
     (let (result, e) = Controller_LoadPreview file channel_id asset_path e;
          code = (if says ''not found'' result then NOT_FOUND
                  else if says ''not initialized'' result \<or> says ''not available'' result then FAILED_PRECONDITION
                  else INTERNAL)
      in (failed_status code result,
          rpc_response.extend (basic_response result)
            \<lparr>rp_shadow_decode_started = cr_shadow_decode_started result\<rparr>, e))"

definition Service_SwitchToLive :: "call_input \<Rightarrow> int \<Rightarrow> engine \<Rightarrow> (grpc_status \<times> switch_response \<times> engine) option" where
  "Service_SwitchToLive inp channel_id e =
     (case Controller_SwitchToLive inp channel_id e of
        None \<Rightarrow> None
      | Some (result, e) \<Rightarrow>
          let code = (if says ''not found'' result then NOT_FOUND
                      else if says ''not initialized'' result \<or> says ''not running'' result then FAILED_PRECONDITION
                      else INTERNAL)
          in Some (failed_status code result,
                   rpc_response.extend (basic_response result)
                     \<lparr>rp_pts_contiguous = cr_pts_contiguous result, rp_live_start_pts = cr_live_start_pts result\<rparr>, e))"

section \<open>The arguments of the program\<close>

record server_config =
  sv_server_address :: string
  sv_enable_reflection :: bool

definition ServerConfig :: server_config where
  "ServerConfig = \<lparr>sv_server_address = ''0.0.0.0:50051'', sv_enable_reflection = True\<rparr>"

text \<open>\<open>None\<close>: the help text was asked for and the program exits.\<close>

fun parse_args :: "string list \<Rightarrow> server_config \<Rightarrow> server_config option" where
  "parse_args [] config = Some config"
| "parse_args [arg] config = (if arg = ''--help'' \<or> arg = ''-h'' then None else Some config)"
| "parse_args (arg # v # rest) config =
     (if arg = ''--port'' \<or> arg = ''-p'' then parse_args rest (config\<lparr>sv_server_address := ''0.0.0.0:'' @ v\<rparr>)
      else if arg = ''--address'' \<or> arg = ''-a'' then parse_args rest (config\<lparr>sv_server_address := v\<rparr>)
      else if arg = ''--help'' \<or> arg = ''-h'' then None
      else parse_args (v # rest) config)"

definition ParseArgs :: "string list \<Rightarrow> server_config option" where
  "ParseArgs argv = parse_args argv ServerConfig"

section \<open>Searching the messages\<close>

text \<open>A word without digits and signs is not found in the number of a message, nor across its borders.\<close>

lemma decimal_chars: "c \<in> set (decimal_of_int k) \<Longrightarrow> 45 \<le> (of_char c :: nat) \<and> (of_char c :: nat) < 58"
  using decimal_of_nat_digits [of c "nat \<bar>k\<bar>"] by (auto simp: decimal_of_int_def split: if_splits)

lemma sublist_across:
  assumes "set needle \<inter> set d = {}" "d \<noteq> []" "needle \<noteq> []"
  shows "sublist needle (before @ d @ after) \<longleftrightarrow> sublist needle before \<or> sublist needle after"
proof -
  have apart: "xs2 = []" if "needle = xs1 @ xs2" "prefix xs2 (d @ r)" for xs1 xs2 r
    using that assms(1,2) by (cases xs2; cases d) (auto simp: prefix_def)
  have start: "xs1 = []" if "needle = xs1 @ xs2" "suffix xs1 d" for xs1 xs2
    using that assms(1) by (cases xs1) (auto dest: set_mono_suffix)
  have "\<not> sublist needle d" using assms(1,3) set_mono_sublist by (cases needle) fastforce+
  then have d: "sublist needle (d @ after) \<longleftrightarrow> sublist needle after"
    unfolding sublist_append using start prefix_imp_sublist by (metis append_Nil)
  show ?thesis
    unfolding sublist_append [of needle before] d using apart suffix_imp_sublist by (metis append_Nil2)
qed

lemma says_channel:
  assumes "cr_message result = channel_message before ch after" "needle \<noteq> []"
    "\<forall>c \<in> set needle. (of_char c :: nat) < 45 \<or> 58 \<le> (of_char c :: nat)"
  shows "says needle result \<longleftrightarrow> sublist needle before \<or> sublist needle after"
proof -
  have "decimal_of_int ch \<noteq> []" by (simp add: decimal_of_int_def)
  moreover have "set needle \<inter> set (decimal_of_int ch) = {}" using decimal_chars assms(3) by fastforce
  ultimately show ?thesis using sublist_across assms(1,2) by (simp add: says_def channel_message_def)
qed

lemma says_words:
  assumes "cr_message result = channel_message before ch after"
  shows "says ''already'' result \<longleftrightarrow> sublist ''already'' before \<or> sublist ''already'' after"
    "says ''not found'' result \<longleftrightarrow> sublist ''not found'' before \<or> sublist ''not found'' after"
    "says ''not initialized'' result \<longleftrightarrow> sublist ''not initialized'' before \<or> sublist ''not initialized'' after"
    "says ''not running'' result \<longleftrightarrow> sublist ''not running'' before \<or> sublist ''not running'' after"
    "says ''not available'' result \<longleftrightarrow> sublist ''not available'' before \<or> sublist ''not available'' after"
  using says_channel [OF assms] by simp_all

lemma failed_status_eq [simp]:
  "failed_status code (ControllerResult True m) = StatusOK"
  "failed_status code (ControllerResult False m) = \<lparr>gs_code = code, gs_message = m\<rparr>"
  "failed_status code (ControllerResult b m\<lparr>cr_shadow_decode_started := d\<rparr>) = failed_status code (ControllerResult b m)"
  "failed_status code (ControllerResult b m\<lparr>cr_pts_contiguous := c, cr_live_start_pts := p\<rparr>)
     = failed_status code (ControllerResult b m)"
  "says w (ControllerResult b m\<lparr>cr_shadow_decode_started := d\<rparr>) = says w (ControllerResult b m)"
  "says w (ControllerResult b m\<lparr>cr_pts_contiguous := c, cr_live_start_pts := p\<rparr>) = says w (ControllerResult b m)"
  "rp_success (basic_response (ControllerResult b m)) = b" "rp_message (basic_response (ControllerResult b m)) = m"
  by (simp_all add: failed_status_def ControllerResult_def says_def basic_response_def)

lemma says_message: "cr_message (ControllerResult b m) = m"
  by (simp add: ControllerResult_def)

lemmas says_in = says_words [OF says_message]

lemma start_status:
  "case Service_StartChannel inp file ch plan port e of
     None \<Rightarrow> Engine_StartChannel inp file ch plan port None e = None
   | Some (st, rsp, e') \<Rightarrow> map_option snd (Engine_StartChannel inp file ch plan port None e) = Some e'
       \<and> gs_code st = (if rp_success rsp then OK_STATUS else INTERNAL)
       \<and> gs_message st = (if rp_success rsp then '''' else rp_message rsp)
       \<and> (if ch \<in> dom (en_channels e) then rp_success rsp \<and> e' = e else rp_success rsp = (ch \<in> dom (en_channels e')))"
proof (cases "Engine_StartChannel inp file ch plan port None e")
  case None
  then show ?thesis by (simp add: Service_StartChannel_def Controller_StartChannel_def)
next
  case (Some r)
  obtain res e' where r: "r = (res, e')" by (cases r)
  show ?thesis
  proof (cases "ch \<in> dom (en_channels e)")
    case True
    with Some r show ?thesis
      by (auto simp: Service_StartChannel_def Controller_StartChannel_def Engine_StartChannel_def plain_result_def
          EngineResult_def StatusOK_def basic_response_def ControllerResult_def failed_status_def)
  next
    case False
    from False Some [unfolded r] show ?thesis
    proof (cases rule: StartChannel_cases)
      case (ready c x)
      with False Some r show ?thesis
        by (simp add: Service_StartChannel_def Controller_StartChannel_def plain_result_def EngineResult_def
            StatusOK_def basic_response_def ControllerResult_def failed_status_def)
    next
      case (timeout x)
      with False Some r show ?thesis
        by (auto simp: Service_StartChannel_def Controller_StartChannel_def plain_result_def EngineResult_def
            says_in sublist_Cons_right)
    qed
  qed
qed

lemma update_status:
  "gs_code (fst (Service_UpdatePlan ch plan e)) = (if ch \<in> dom (en_channels e) then OK_STATUS else NOT_FOUND)"
  by (auto simp: Service_UpdatePlan_def Controller_UpdatePlan_def Engine_UpdatePlan_def plain_result_def
      EngineResult_def StatusOK_def says_in sublist_Cons_right split: option.split)

lemma load_status:
  "gs_code (fst (Service_LoadPreview file ch asset e)) = (if ch \<in> dom (en_channels e) then OK_STATUS else NOT_FOUND)"
  by (auto simp: Service_LoadPreview_def Controller_LoadPreview_def Engine_LoadPreview_def FrameProducer_def Fp_Start_def
      EngineResult_def StatusOK_def says_in sublist_Cons_right split: option.split)

lemma stop_status:
  "case Service_StopChannel inp ch e of
     None \<Rightarrow> ch \<in> dom (en_channels e)
   | Some (st, rsp, e') \<Rightarrow> gs_code st = (if ch \<in> dom (en_channels e) then OK_STATUS else NOT_FOUND)
       \<and> rp_success rsp = (ch \<in> dom (en_channels e)) \<and> ch \<notin> dom (en_channels e')"
  by (auto simp: Service_StopChannel_def Controller_StopChannel_def Engine_StopChannel_def plain_result_def
      EngineResult_def StatusOK_def says_in sublist_Cons_right Let_def split: option.split)

lemma switch_status:
  "case Service_SwitchToLive inp ch e of
     None \<Rightarrow> ch \<in> dom (en_channels e)
   | Some (st, rsp, e') \<Rightarrow>
       gs_code st = (case en_channels e ch of
                       None \<Rightarrow> NOT_FOUND
                     | Some c \<Rightarrow> if ch_preview_producer c = None then INTERNAL else OK_STATUS)"
  by (auto simp: Service_SwitchToLive_def Controller_SwitchToLive_def Engine_SwitchToLive_def
      EngineResult_def StatusOK_def says_in sublist_Cons_right Let_def split: option.split)

section \<open>Properties\<close>

text \<open>The service answers every call that returns with the result of the engine, and its status follows from
  the state of the engine alone. Starting a channel ends with \<open>OK\<close> or \<open>INTERNAL\<close>, never
  \<open>ALREADY_EXISTS\<close>: a channel that exists is answered with \<open>OK\<close>. The other calls end with \<open>NOT_FOUND\<close>
  exactly for a channel that does not exist, and otherwise with \<open>OK\<close>, except that a switch without a
  preview ends with \<open>INTERNAL\<close>. \<open>FAILED_PRECONDITION\<close> never occurs.\<close>

theorem service_status:
  "(case Service_StartChannel inp file ch plan port e of
     None \<Rightarrow> Engine_StartChannel inp file ch plan port None e = None
   | Some (st, rsp, e') \<Rightarrow> map_option snd (Engine_StartChannel inp file ch plan port None e) = Some e'
       \<and> gs_code st = (if rp_success rsp then OK_STATUS else INTERNAL)
       \<and> gs_message st = (if rp_success rsp then '''' else rp_message rsp)
       \<and> (if ch \<in> dom (en_channels e) then rp_success rsp \<and> e' = e else rp_success rsp = (ch \<in> dom (en_channels e'))))
   \<and> (gs_code (fst (Service_UpdatePlan ch plan e)) = (if ch \<in> dom (en_channels e) then OK_STATUS else NOT_FOUND))
   \<and> (gs_code (fst (Service_LoadPreview file ch asset e)) = (if ch \<in> dom (en_channels e) then OK_STATUS else NOT_FOUND))
   \<and> (case Service_StopChannel inp ch e of
     None \<Rightarrow> ch \<in> dom (en_channels e)
   | Some (st, rsp, e') \<Rightarrow> gs_code st = (if ch \<in> dom (en_channels e) then OK_STATUS else NOT_FOUND)
       \<and> rp_success rsp = (ch \<in> dom (en_channels e)) \<and> ch \<notin> dom (en_channels e'))
   \<and> (case Service_SwitchToLive inp ch e of
     None \<Rightarrow> ch \<in> dom (en_channels e)
   | Some (st, rsp, e') \<Rightarrow>
       gs_code st = (case en_channels e ch of
                       None \<Rightarrow> NOT_FOUND
                     | Some c \<Rightarrow> if ch_preview_producer c = None then INTERNAL else OK_STATUS))"
  using start_status update_status load_status stop_status switch_status by blast

end
