(* ===== verification/Server_Session.thy ===== *)
theory Server_Session
  imports PlayoutService
begin

text \<open>
  The main program (\<open>RunServer\<close> and \<open>main\<close> of \<open>src/main.cpp\<close>): the objects it creates, the calls its
  clients make, one after another as the mutex of the engine orders them, with the threads of the channels
  and of the exporter in between. An abstract server, which knows only which channels were started and
  which have a preview, says which answers may come; the program is shown to give no others.
\<close>

section \<open>Serving calls\<close>








section \<open>The program\<close>





section \<open>The abstract server\<close>



section \<open>The program is such a server\<close>















section \<open>Property\<close>



end
