(* ===== verification/Timing_Soak.thy ===== *)
theory Timing_Soak
  imports Server_Session Percentile
begin

text \<open>
  The soak tool (\<open>tools/soak/TimingSoak.cpp\<close>): it starts one channel through the service, samples the
  metrics of the channel once a second and gives up when the frame gaps or the corrections of its windows
  grow too large. The tool constructs the service from the exporter and the clock, which the service no
  longer accepts; the model builds the engine from them, as the constructor of the service once did.
  \<open>std::stod\<close> is the parameter \<open>stod\<close>; an exception nobody catches is \<open>None\<close> in the parsing.
\<close>

section \<open>Arguments\<close>

text \<open>\<open>std::stoi\<close>: white space, a sign, digits; the rest of the string is ignored.\<close>

definition is_space :: "char \<Rightarrow> bool" where
  "is_space c \<longleftrightarrow> c = CHR '' '' \<or> (9 \<le> (of_char c :: nat) \<and> (of_char c :: nat) \<le> 13)"

definition is_digit :: "char \<Rightarrow> bool" where
  "is_digit c \<longleftrightarrow> 48 \<le> (of_char c :: nat) \<and> (of_char c :: nat) < 58"

definition stoi :: "string \<Rightarrow> int option" where
  "stoi s =
     (let s = dropWhile is_space s;
          negative = (s \<noteq> [] \<and> hd s = CHR ''-'');
          s = (if s \<noteq> [] \<and> (hd s = CHR ''-'' \<or> hd s = CHR ''+'') then tl s else s);
          digits = takeWhile is_digit s;
          v = (if negative then - int (nat_of_string digits) else int (nat_of_string digits))
      in if digits = [] \<or> v < - 2147483648 \<or> 2147483647 < v then None else Some v)"


definition kWindowSeconds :: nat where "kWindowSeconds = 60"




section \<open>Statistics\<close>

definition Mean :: "real list \<Rightarrow> real" where
  "Mean values = (if values = [] then 0 else foldl (+) 0 values / real (length values))"

definition P95 :: "real list \<Rightarrow> real" where
  "P95 values =
     (if values = [] then 0
      else let sorted = sort values;
               rank = 95 / 100 * real (length sorted - 1);
               lo = nat \<lfloor>rank\<rfloor>; hi = nat \<lceil>rank\<rceil>;
               fraction = rank - real lo
           in sorted ! lo + (sorted ! hi - sorted ! lo) * fraction)"

text \<open>How many of the 100 milliseconds of a cycle the stressing thread works and sleeps.\<close>

definition SpinCpu :: "real \<Rightarrow> int \<times> int" where
  "SpinCpu load_percent =
     (if load_percent \<le> 0 then (0, 100)
      else let busy = trunc_real (100 * (load_percent / 100)) in (busy, max 0 (100 - busy)))"

section \<open>The windows\<close>

record soak_windows =
  sw_gaps :: "real list"
  sw_corrections :: "64 word list"

definition SoakWindows :: soak_windows where
  "SoakWindows = \<lparr>sw_gaps = [], sw_corrections = []\<rparr>"

definition observe :: "channel_metrics \<Rightarrow> soak_windows \<Rightarrow> soak_windows" where
  "observe m w =
     (let gaps = sw_gaps w @ [\<bar>cm_frame_gap_seconds m * 1000\<bar>];
          corrections = sw_corrections w @ [of_nat (cm_corrections_total m)];
          gaps = (if kWindowSeconds * 60 < length gaps then tl gaps else gaps);
          corrections = (if kWindowSeconds < length corrections then tl corrections else corrections)
      in \<lparr>sw_gaps = gaps, sw_corrections = corrections\<rparr>)"



section \<open>The run\<close>






section \<open>Reading numbers\<close>

lemma decimal_all_digits: "c \<in> set (decimal_of_nat n) \<Longrightarrow> is_digit c \<and> \<not> is_space c \<and> c \<noteq> CHR ''-'' \<and> c \<noteq> CHR ''+''"
  using decimal_of_nat_digits [of c n] by (auto simp: is_digit_def is_space_def)

lemma digits_of_decimal [simp]: "takeWhile is_digit (decimal_of_nat n) = decimal_of_nat n"
  using decimal_all_digits by (simp add: takeWhile_eq_all_conv)

lemma hd_decimal [simp]:
  "\<not> is_space (hd (decimal_of_nat n))" "hd (decimal_of_nat n) \<noteq> CHR ''-''" "hd (decimal_of_nat n) \<noteq> CHR ''+''"
  using decimal_all_digits [OF hd_in_set [OF decimal_of_nat_nonempty]] by simp_all

lemma drop_no_space [simp]: "dropWhile is_space (decimal_of_nat n) = decimal_of_nat n"
  using hd_decimal(1) [of n] by (cases "decimal_of_nat n") simp_all

lemma stoi_decimal:
  assumes "- 2147483648 \<le> k" "k \<le> 2147483647"
  shows "stoi (decimal_of_int k) = Some k"
proof (cases "k < 0")
  case True
  moreover have "\<not> is_space (CHR ''-'')" by (simp add: is_space_def)
  ultimately show ?thesis using assms by (simp add: stoi_def decimal_of_int_def Let_def)
next
  case False
  with assms show ?thesis by (simp add: stoi_def decimal_of_int_def Let_def)
qed

section \<open>The windows hold the last samples\<close>

definition last_n :: "nat \<Rightarrow> 'a list \<Rightarrow> 'a list" where
  "last_n n xs = drop (length xs - n) xs"

lemma last_n_snoc: "0 < n \<Longrightarrow> last_n n (xs @ [x])
    = (if n < length (last_n n xs @ [x]) then tl (last_n n xs @ [x]) else last_n n xs @ [x])"
  by (auto simp: last_n_def Suc_diff_le tl_drop drop_Suc not_less)

lemma windows_last:
  "foldl (\<lambda>w m. observe m w) SoakWindows ms =
     \<lparr>sw_gaps = last_n 3600 (map (\<lambda>m. \<bar>cm_frame_gap_seconds m * 1000\<bar>) ms),
      sw_corrections = last_n 60 (map (\<lambda>m. of_nat (cm_corrections_total m)) ms)\<rparr>"
proof (induction ms rule: rev_induct)
  case Nil
  then show ?case by (simp add: SoakWindows_def last_n_def)
next
  case (snoc m ms)
  then show ?case by (simp add: observe_def last_n_snoc kWindowSeconds_def Let_def)
qed

lemma P95_percentile: "P95 xs = Exporter_ComputePercentile xs (95 / 100)"
  by (auto simp: P95_def Exporter_ComputePercentile_def Let_def)

section \<open>The loop ends, the tool does not\<close>



section \<open>Properties\<close>





end
