(* ===== verification/TransportStream.thy ===== *)
theory TransportStream
  imports Prelude
begin

unbundle bit_operations_syntax

text \<open>
  The transport stream side of the encoder pipeline
  (\<open>src/playout_sinks/mpegts/EncoderPipeline.cpp\<close>, from \<open>ExtractPID\<close> on): what the muxer writes is
  gathered into packets of 188 bytes, the continuity counters of each packet are checked and corrected
  in place, and whole packets are handed to the write callback. The record \<open>ts_tracker\<close> holds the
  members of \<open>EncoderPipeline\<close> these functions use; the encoder extends it.
\<close>

section \<open>Packets\<close>

type_synonym bytes = "u8 list"
type_synonym pid = "16 word"

definition ts_packet_size :: nat where "ts_packet_size = 188"

definition ExtractPID :: "bytes \<Rightarrow> pid" where
  "ExtractPID p =
     (if p ! 0 \<noteq> 0x47 then 0xFFFF
      else push_bit 8 (ucast (p ! 1 AND 0x1F)) OR ucast (p ! 2))"

definition ExtractContinuityCounter :: "bytes \<Rightarrow> u8" where
  "ExtractContinuityCounter p = (if p ! 0 \<noteq> 0x47 then 0xFF else p ! 3 AND 0x0F)"

text \<open>The 33-bit program clock reference; the nine-bit extension is read and not used.\<close>

definition ExtractPCR :: "bytes \<Rightarrow> int option" where
  "ExtractPCR p =
     (if p ! 0 \<noteq> 0x47 then None
      else if p ! 3 AND 0x20 = 0 then None
      else if p ! 4 = 0 then None
      else if p ! 5 AND 0x10 = 0 then None
      else Some (push_bit 25 (uint (p ! 6)) OR push_bit 17 (uint (p ! 7)) OR push_bit 9 (uint (p ! 8))
                 OR push_bit 1 (uint (p ! 9)) OR (drop_bit 7 (uint (p ! 10)) AND 0x01)))"

definition has_adaptation :: "bytes \<Rightarrow> bool" where
  "has_adaptation p \<longleftrightarrow> (drop_bit 4 (p ! 3) AND 0x03) AND 0x02 \<noteq> 0"

definition has_payload :: "bytes \<Rightarrow> bool" where
  "has_payload p \<longleftrightarrow> (drop_bit 4 (p ! 3) AND 0x03) AND 0x01 \<noteq> 0"

definition is_null_packet :: "bytes \<Rightarrow> bool" where
  "is_null_packet p \<longleftrightarrow> ExtractPID p = 0x1FFF"

definition discontinuity_flag :: "bytes \<Rightarrow> bool" where
  "discontinuity_flag p \<longleftrightarrow> has_adaptation p \<and> \<not> is_null_packet p \<and> 0 < p ! 4 \<and> p ! 5 AND 0x80 \<noteq> 0"

section \<open>State\<close>

record continuity_state =
  cy_last_cc :: u8
  cy_initialized :: bool

definition ContinuityState :: continuity_state where
  "ContinuityState = \<lparr>cy_last_cc = 0, cy_initialized = False\<rparr>"

text \<open>The maps are read with \<open>operator[]\<close>, which inserts the default for a missing key.\<close>

record ts_tracker =
  tt_continuity_counters :: "pid \<rightharpoonup> continuity_state"
  tt_continuity_corrections :: nat
  tt_test_counters :: "pid \<rightharpoonup> continuity_state"
  tt_test_packets :: nat
  tt_test_mismatches :: nat
  tt_test_pid_packets :: "pid \<rightharpoonup> nat"
  tt_test_pid_mismatches :: "pid \<rightharpoonup> nat"
  tt_last_pcr_90k :: int
  tt_last_pcr_packet_time_us :: time_us
  tt_last_pcr_valid :: bool
  tt_alignment_buffer :: bytes
  tt_last_write_time_us :: time_us
  tt_avio_write_callback :: bool
  tt_avio_opaque :: bool

abbreviation tt_avio_callback :: "'z ts_tracker_scheme \<Rightarrow> bool" where
  "tt_avio_callback t \<equiv> tt_avio_write_callback t \<and> tt_avio_opaque t"

definition state_at :: "(pid \<rightharpoonup> continuity_state) \<Rightarrow> pid \<Rightarrow> continuity_state" where
  "state_at counters pid = (case counters pid of None \<Rightarrow> ContinuityState | Some s \<Rightarrow> s)"

definition count_at :: "(pid \<rightharpoonup> nat) \<Rightarrow> pid \<Rightarrow> nat" where
  "count_at counts pid = (case counts pid of None \<Rightarrow> 0 | Some n \<Rightarrow> n)"

section \<open>One packet\<close>

text \<open>The raw statistics, which are never used to change a packet.\<close>

definition observe_packet :: "pid \<Rightarrow> u8 \<Rightarrow> 'z ts_tracker_scheme \<Rightarrow> 'z ts_tracker_scheme" where
  "observe_packet pid cc t =
     (let seen = state_at (tt_test_counters t) pid;
          t = t\<lparr>tt_test_pid_packets := (tt_test_pid_packets t)(pid \<mapsto> count_at (tt_test_pid_packets t) pid + 1)\<rparr>;
          t = (if cy_initialized seen \<and> cc \<noteq> (cy_last_cc seen + 1) AND 0x0F
               then t\<lparr>tt_test_mismatches := tt_test_mismatches t + 1,
                      tt_test_pid_mismatches :=
                        (tt_test_pid_mismatches t)(pid \<mapsto> count_at (tt_test_pid_mismatches t) pid + 1)\<rparr>
               else t)
      in t\<lparr>tt_test_counters := (tt_test_counters t)(pid \<mapsto> \<lparr>cy_last_cc = cc, cy_initialized = True\<rparr>),
           tt_test_packets := tt_test_packets t + 1\<rparr>)"

definition set_counter :: "bytes \<Rightarrow> u8 \<Rightarrow> bytes" where
  "set_counter p cc = p[3 := (p ! 3 AND 0xF0) OR cc]"

definition correct_packet :: "pid \<Rightarrow> u8 \<Rightarrow> bytes \<Rightarrow> 'z ts_tracker_scheme \<Rightarrow> bytes \<times> 'z ts_tracker_scheme" where
  "correct_packet pid cc p t =
     (let state = state_at (tt_continuity_counters t) pid;
          state = (if discontinuity_flag p then state\<lparr>cy_initialized := False\<rparr> else state);
          store = (\<lambda>s t. t\<lparr>tt_continuity_counters := (tt_continuity_counters t)(pid \<mapsto> s)\<rparr>);
          corrected = (\<lambda>t. t\<lparr>tt_continuity_corrections := tt_continuity_corrections t + 1\<rparr>)
      in if \<not> cy_initialized state then (p, store \<lparr>cy_last_cc = cc, cy_initialized = True\<rparr> t)
         else if has_payload p
         then let expected_cc = (cy_last_cc state + 1) AND 0x0F
              in if cc \<noteq> expected_cc
                 then (set_counter p expected_cc, corrected (store (state\<lparr>cy_last_cc := expected_cc\<rparr>) t))
                 else (p, store (state\<lparr>cy_last_cc := cc\<rparr>) t)
         else if cc \<noteq> cy_last_cc state
         then (set_counter p (cy_last_cc state), corrected (store state t))
         else (p, store state t))"

definition track_pcr :: "time_us \<Rightarrow> bytes \<Rightarrow> 'z ts_tracker_scheme \<Rightarrow> 'z ts_tracker_scheme" where
  "track_pcr now_us p t =
     (case ExtractPCR p of
        None \<Rightarrow> t
      | Some pcr_90k \<Rightarrow> t\<lparr>tt_last_pcr_90k := pcr_90k, tt_last_pcr_packet_time_us := now_us, tt_last_pcr_valid := True\<rparr>)"

definition process_packet :: "time_us \<Rightarrow> bytes \<Rightarrow> 'z ts_tracker_scheme \<Rightarrow> bytes \<times> 'z ts_tracker_scheme" where
  "process_packet now_us p t =
     (let pid = ExtractPID p; cc = ExtractContinuityCounter p;
          t = observe_packet pid cc t;
          (p, t) = (if is_null_packet p then (p, t) else correct_packet pid cc p t)
      in (p, track_pcr now_us p t))"

section \<open>A block of packets\<close>

text \<open>
  \<open>data\<close> is what is left from \<open>offset\<close> on; the result is the same bytes after correction in place. The
  clock is read at the packet at \<open>offset\<close>. The warnings printed are left out.
\<close>

function ProcessTSPackets :: "(nat \<Rightarrow> time_us) \<Rightarrow> nat \<Rightarrow> bytes \<Rightarrow> 'z ts_tracker_scheme \<Rightarrow> bytes \<times> 'z ts_tracker_scheme" where
  "ProcessTSPackets clk offset data t =
     (if length data < ts_packet_size then (data, t)
      else if hd data \<noteq> 0x47
      then let (rest, t) = ProcessTSPackets clk (offset + 1) (tl data) t in (hd data # rest, t)
      else let (p, t) = process_packet (clk offset) (take ts_packet_size data) t;
               (rest, t) = ProcessTSPackets clk (offset + ts_packet_size) (drop ts_packet_size data) t
           in (p @ rest, t))"
  by pat_completeness auto
termination
  by (relation "measure (\<lambda>(clk, offset, data, t). length data)") (auto simp: ts_packet_size_def)

declare ProcessTSPackets.simps [simp del]

definition ValidatePacketAlignment :: "bytes \<Rightarrow> bool" where
  "ValidatePacketAlignment data \<longleftrightarrow> length data mod ts_packet_size = 0
     \<and> (\<forall>i \<in> set [0..<length data]. i mod ts_packet_size = 0 \<longrightarrow> data ! i = 0x47)"

definition complete_packets :: "bytes \<Rightarrow> nat" where
  "complete_packets buffer = (length buffer div ts_packet_size) * ts_packet_size"

section \<open>Writing\<close>

definition max_buffer_size :: nat where "max_buffer_size = 1024 * 1024"

definition drop_oldest :: "nat \<Rightarrow> bytes \<Rightarrow> bytes" where
  "drop_oldest added buffer =
     (if max_buffer_size < length buffer + added
      then let drop_size = length buffer + added - max_buffer_size;
               drop_size = (drop_size div ts_packet_size + 1) * ts_packet_size
           in if drop_size < length buffer then drop drop_size buffer else []
      else buffer)"

text \<open>
  \<open>WriteWithAlignment\<close> answers its result, the bytes handed to the write callback (at most one call;
  what the callback answers is discarded), and the new state.
\<close>

definition WriteWithAlignment :: "(nat \<Rightarrow> time_us) \<Rightarrow> bytes \<Rightarrow> 'z ts_tracker_scheme
    \<Rightarrow> bool \<times> bytes list \<times> 'z ts_tracker_scheme" where
  "WriteWithAlignment clk data t =
     (let buffer = drop_oldest (length data) (tt_alignment_buffer t) @ data;
          n = complete_packets buffer
      in if 0 < n
         then let (whole, t) = ProcessTSPackets clk 0 (take n buffer) t
              in if tt_avio_callback t
                 then (True, [whole], t\<lparr>tt_alignment_buffer := drop n buffer\<rparr>)
                 else (False, [], t\<lparr>tt_alignment_buffer := whole @ drop n buffer\<rparr>)
         else (True, [], t\<lparr>tt_alignment_buffer := buffer\<rparr>))"

definition HandleAVIOWrite :: "(nat \<Rightarrow> time_us) \<Rightarrow> time_us \<Rightarrow> bytes \<Rightarrow> 'z ts_tracker_scheme
    \<Rightarrow> int \<times> bytes list \<times> 'z ts_tracker_scheme" where
  "HandleAVIOWrite clk now_us buf t =
     (if length buf = 0 then (0, [], t)
      else case WriteWithAlignment clk buf t of
        (False, calls, t) \<Rightarrow> (- 1, calls, t)
      | (True, calls, t) \<Rightarrow> (int (length buf), calls, t\<lparr>tt_last_write_time_us := now_us\<rparr>))"

text \<open>The muxer writing one block after another, and the calls of the callback this makes.\<close>

fun write_blocks :: "(nat \<Rightarrow> time_us) \<Rightarrow> time_us \<Rightarrow> bytes list \<Rightarrow> 'z ts_tracker_scheme
    \<Rightarrow> bytes list \<times> 'z ts_tracker_scheme" where
  "write_blocks clk now_us [] t = ([], t)"
| "write_blocks clk now_us (buf # bufs) t =
     (let (_, calls, t) = HandleAVIOWrite clk now_us buf t;
          (later, t) = write_blocks clk now_us bufs t
      in (calls @ later, t))"

section \<open>Bits of the counter byte\<close>

lemma nibble_masks: "(0x0F :: u8) = mask 4" "(0xF0 :: u8) = push_bit 4 (mask 4)"
  by (simp_all add: mask_eq_exp_minus_1 push_bit_eq_mult)

lemma bit_below_4: "c AND 0x0F = (c :: u8) \<Longrightarrow> bit c n \<Longrightarrow> n < 4"
proof -
  assume c: "c AND 0x0F = c" and "bit c n"
  then have "bit (c AND 0x0F) n" by simp
  then show "n < 4" by (simp add: nibble_masks bit_and_iff bit_mask_iff)
qed

lemma counter_of_byte: "c AND 0x0F = c \<Longrightarrow> ((x AND 0xF0) OR c) AND 0x0F = (c :: u8)"
  by (rule bit_word_eqI)
    (auto simp: nibble_masks bit_and_iff bit_or_iff bit_push_bit_iff bit_mask_iff
          dest: bit_below_4 [unfolded nibble_masks])

lemma control_of_byte: "c AND 0x0F = c \<Longrightarrow> drop_bit 4 ((x AND 0xF0) OR c) = drop_bit 4 (x :: u8)"
  by (rule bit_word_eqI)
    (auto simp: nibble_masks bit_and_iff bit_or_iff bit_push_bit_iff bit_mask_iff bit_drop_bit_eq
          dest: bit_below_4 [unfolded nibble_masks] bit_imp_le_length)

lemma same_byte: "(x AND 0xF0) OR (x AND 0x0F) = (x :: u8)"
  by (rule bit_word_eqI)
    (auto simp: nibble_masks bit_and_iff bit_or_iff bit_push_bit_iff bit_mask_iff)

lemma low_nibble [simp]: "((y :: u8) AND 0x0F) AND 0x0F = y AND 0x0F"
  by (simp add: and.assoc)

section \<open>Packets with a new counter\<close>

definition ts_packet :: "bytes \<Rightarrow> bool" where
  "ts_packet p \<longleftrightarrow> length p = ts_packet_size \<and> p ! 0 = 0x47"

lemma ts_packetD: "ts_packet p \<Longrightarrow> length p = 188" "ts_packet p \<Longrightarrow> p ! 0 = 0x47"
  by (simp_all add: ts_packet_def ts_packet_size_def)

lemma set_counter_nth: "i \<noteq> 3 \<Longrightarrow> set_counter p c ! i = p ! i"
  by (simp add: set_counter_def)

lemma length_set_counter [simp]: "length (set_counter p c) = length p"
  by (simp add: set_counter_def)

named_theorems counter_simps \<open>what a packet with a new counter says\<close>

lemma ts_packet_set_counter [counter_simps]: "ts_packet (set_counter p c) = ts_packet p"
  by (simp add: ts_packet_def set_counter_nth)

lemma ExtractPID_set_counter [counter_simps]: "ExtractPID (set_counter p c) = ExtractPID p"
  by (simp add: ExtractPID_def set_counter_nth)

lemma null_set_counter [counter_simps]: "is_null_packet (set_counter p c) = is_null_packet p"
  by (simp add: is_null_packet_def counter_simps)

lemma byte_3_set_counter: "ts_packet p \<Longrightarrow> set_counter p c ! 3 = (p ! 3 AND 0xF0) OR c"
  using ts_packetD(1) [of p] by (simp add: set_counter_def)

lemma counter_set_counter:
  "ts_packet p \<Longrightarrow> c AND 0x0F = c \<Longrightarrow> ExtractContinuityCounter (set_counter p c) = c"
  using ts_packetD(2) [of p]
  by (simp add: ExtractContinuityCounter_def set_counter_nth byte_3_set_counter counter_of_byte)

lemma control_bits_set_counter:
  "ts_packet p \<Longrightarrow> c AND 0x0F = c \<Longrightarrow> drop_bit 4 (set_counter p c ! 3) = drop_bit 4 (p ! 3)"
  by (simp only: byte_3_set_counter control_of_byte)

lemma control_set_counter:
  "ts_packet p \<Longrightarrow> c AND 0x0F = c \<Longrightarrow> has_payload (set_counter p c) = has_payload p"
  "ts_packet p \<Longrightarrow> c AND 0x0F = c \<Longrightarrow> has_adaptation (set_counter p c) = has_adaptation p"
  by (simp_all add: has_payload_def has_adaptation_def control_bits_set_counter)

lemma discontinuity_set_counter:
  "ts_packet p \<Longrightarrow> c AND 0x0F = c \<Longrightarrow> discontinuity_flag (set_counter p c) = discontinuity_flag p"
  by (simp add: discontinuity_flag_def control_set_counter counter_simps set_counter_nth)

lemmas set_counter_facts = counter_simps counter_set_counter control_set_counter discontinuity_set_counter

lemma set_counter_same: "ts_packet p \<Longrightarrow> set_counter p (ExtractContinuityCounter p) = p"
  using ts_packetD [of p]
  by (simp add: set_counter_def ExtractContinuityCounter_def same_byte)

lemma counter_nibble: "ts_packet p \<Longrightarrow> ExtractContinuityCounter p AND 0x0F = ExtractContinuityCounter p"
  using ts_packetD [of p] by (simp add: ExtractContinuityCounter_def)

section \<open>What a receiver demands\<close>

text \<open>
  The counter due for a packet when \<open>seen\<close> holds the last counter of each stream of the multiplex, and a
  receiver that accepts a sequence of packets when each carries the counter due. \<open>restamp\<close> is the
  sequence with the counters due written in.
\<close>

definition due :: "(pid \<rightharpoonup> u8) \<Rightarrow> bytes \<Rightarrow> u8" where
  "due seen p =
     (if discontinuity_flag p then ExtractContinuityCounter p
      else case seen (ExtractPID p) of
        None \<Rightarrow> ExtractContinuityCounter p
      | Some prior \<Rightarrow> if has_payload p then (prior + 1) AND 0x0F else prior)"

fun receiver_accepts :: "(pid \<rightharpoonup> u8) \<Rightarrow> bytes list \<Rightarrow> bool" where
  "receiver_accepts seen [] \<longleftrightarrow> True"
| "receiver_accepts seen (p # ps) \<longleftrightarrow>
     (if is_null_packet p then receiver_accepts seen ps
      else ExtractContinuityCounter p = due seen p \<and> receiver_accepts (seen(ExtractPID p \<mapsto> due seen p)) ps)"

fun restamp :: "(pid \<rightharpoonup> u8) \<Rightarrow> bytes list \<Rightarrow> bytes list" where
  "restamp seen [] = []"
| "restamp seen (p # ps) =
     (if is_null_packet p then p # restamp seen ps
      else set_counter p (due seen p) # restamp (seen(ExtractPID p \<mapsto> due seen p)) ps)"

definition nibbles :: "(pid \<rightharpoonup> u8) \<Rightarrow> bool" where
  "nibbles seen \<longleftrightarrow> (\<forall>c \<in> ran seen. c AND 0x0F = c)"

lemma nibblesD: "nibbles seen \<Longrightarrow> seen pid = Some c \<Longrightarrow> c AND 0x0F = c"
  by (auto simp: nibbles_def ran_def)

lemma nibbles_upd: "nibbles seen \<Longrightarrow> c AND 0x0F = c \<Longrightarrow> nibbles (seen(pid \<mapsto> c))"
  by (auto simp: nibbles_def ran_def)

lemma due_nibble: "nibbles seen \<Longrightarrow> ts_packet p \<Longrightarrow> due seen p AND 0x0F = due seen p"
  by (auto simp: due_def counter_nibble nibblesD split: option.splits)

lemma due_set_counter:
  assumes "nibbles seen" "ts_packet p"
  shows "due seen (set_counter p (due seen p)) = due seen p"
proof -
  define d where "d = due seen p"
  have d: "d AND 0x0F = d" using due_nibble [OF assms] by (simp add: d_def)
  note facts = counter_set_counter [OF assms(2) d] control_set_counter [OF assms(2) d]
    discontinuity_set_counter [OF assms(2) d] counter_simps
  have "due seen (set_counter p d) = (if discontinuity_flag p then d else case seen (ExtractPID p) of
      None \<Rightarrow> d | Some prior \<Rightarrow> if has_payload p then (prior + 1) AND 0x0F else prior)"
    by (simp only: due_def facts)
  also have "\<dots> = d" by (simp add: d_def due_def split: option.splits)
  finally show ?thesis by (simp only: d_def)
qed

lemma nibbles_due: "nibbles seen \<Longrightarrow> ts_packet p \<Longrightarrow> nibbles (seen(ExtractPID p \<mapsto> due seen p))"
  by (simp add: nibbles_upd due_nibble)

lemma restamp_accepted:
  "nibbles seen \<Longrightarrow> \<forall>p \<in> set ps. ts_packet p \<Longrightarrow> receiver_accepts seen (restamp seen ps)"
proof (induction ps arbitrary: seen)
  case (Cons p ps)
  then have "receiver_accepts (seen(ExtractPID p \<mapsto> due seen p)) (restamp (seen(ExtractPID p \<mapsto> due seen p)) ps)"
    by (auto intro: nibbles_due)
  then show ?case
    using Cons set_counter_facts [of p "due seen p"] by (simp add: due_set_counter due_nibble)
qed simp

lemma restamp_same_iff:
  "nibbles seen \<Longrightarrow> \<forall>p \<in> set ps. ts_packet p \<Longrightarrow> restamp seen ps = ps \<longleftrightarrow> receiver_accepts seen ps"
proof (induction ps arbitrary: seen)
  case (Cons p ps)
  have "set_counter p (due seen p) = p \<longleftrightarrow> ExtractContinuityCounter p = due seen p"
    using Cons.prems due_nibble [of seen p] set_counter_same [of p] counter_set_counter [of p "due seen p"]
    by auto
  moreover have "restamp (seen(ExtractPID p \<mapsto> due seen p)) ps = ps
      \<longleftrightarrow> receiver_accepts (seen(ExtractPID p \<mapsto> due seen p)) ps"
    using Cons by (auto intro: nibbles_due)
  ultimately show ?case using Cons by simp
qed simp

lemma restamp_packets: "\<forall>p \<in> set ps. ts_packet p \<Longrightarrow> \<forall>p \<in> set (restamp seen ps). ts_packet p"
  by (induction ps arbitrary: seen) (auto simp: counter_simps)

lemma length_restamp [simp]: "length (restamp seen ps) = length ps"
  by (induction ps arbitrary: seen) auto

fun seen_after :: "(pid \<rightharpoonup> u8) \<Rightarrow> bytes list \<Rightarrow> (pid \<rightharpoonup> u8)" where
  "seen_after seen [] = seen"
| "seen_after seen (p # ps) =
     seen_after (if is_null_packet p then seen else seen(ExtractPID p \<mapsto> due seen p)) ps"

lemma restamp_append: "restamp seen (ps @ qs) = restamp seen ps @ restamp (seen_after seen ps) qs"
  by (induction ps arbitrary: seen) auto

lemma seen_after_append: "seen_after seen (ps @ qs) = seen_after (seen_after seen ps) qs"
  by (induction ps arbitrary: seen) auto

lemma nibbles_seen_after: "nibbles seen \<Longrightarrow> \<forall>p \<in> set ps. ts_packet p \<Longrightarrow> nibbles (seen_after seen ps)"
  by (induction ps arbitrary: seen) (auto simp: nibbles_due)

text \<open>How many packets carry another counter than the one due.\<close>

fun miscounted :: "(pid \<rightharpoonup> u8) \<Rightarrow> bytes list \<Rightarrow> nat" where
  "miscounted seen [] = 0"
| "miscounted seen (p # ps) =
     (if is_null_packet p then miscounted seen ps
      else (if ExtractContinuityCounter p = due seen p then 0 else 1)
           + miscounted (seen(ExtractPID p \<mapsto> due seen p)) ps)"

lemma miscounted_append: "miscounted seen (ps @ qs) = miscounted seen ps + miscounted (seen_after seen ps) qs"
  by (induction ps arbitrary: seen) auto

lemma one_by_one:
  "restamp seen (p # ps) = restamp seen [p] @ restamp (seen_after seen [p]) ps"
  "seen_after seen (p # ps) = seen_after (seen_after seen [p]) ps"
  "miscounted seen (p # ps) = miscounted seen [p] + miscounted (seen_after seen [p]) ps"
  using restamp_append [of seen "[p]" ps] seen_after_append [of seen "[p]" ps] miscounted_append [of seen "[p]" ps]
  by simp_all

section \<open>The corrections are those a receiver needs\<close>

definition known :: "(pid \<rightharpoonup> continuity_state) \<Rightarrow> (pid \<rightharpoonup> u8)" where
  "known counters = (\<lambda>pid. case counters pid of
     None \<Rightarrow> None | Some s \<Rightarrow> if cy_initialized s then Some (cy_last_cc s) else None)"

abbreviation counters_seen :: "'z ts_tracker_scheme \<Rightarrow> (pid \<rightharpoonup> u8)" where
  "counters_seen t \<equiv> known (tt_continuity_counters t)"

lemma known_upd [simp]:
  "known (m(pid \<mapsto> s)) = (known m)(pid := if cy_initialized s then Some (cy_last_cc s) else None)"
  by (auto simp: known_def)

lemma known_at: "known m pid = (if cy_initialized (state_at m pid) then Some (cy_last_cc (state_at m pid)) else None)"
  by (simp add: known_def state_at_def ContinuityState_def split: option.splits)

lemma observe_packet_frame [frame_simps]:
  "tt_continuity_counters (observe_packet pid cc t) = tt_continuity_counters t"
  "tt_continuity_corrections (observe_packet pid cc t) = tt_continuity_corrections t"
  "tt_alignment_buffer (observe_packet pid cc t) = tt_alignment_buffer t"
  "tt_avio_write_callback (observe_packet pid cc t) = tt_avio_write_callback t"
  "tt_avio_opaque (observe_packet pid cc t) = tt_avio_opaque t"
  by (simp_all add: observe_packet_def Let_def)

lemma track_pcr_frame [frame_simps]:
  "tt_continuity_counters (track_pcr now p t) = tt_continuity_counters t"
  "tt_continuity_corrections (track_pcr now p t) = tt_continuity_corrections t"
  "tt_alignment_buffer (track_pcr now p t) = tt_alignment_buffer t"
  "tt_avio_write_callback (track_pcr now p t) = tt_avio_write_callback t"
  "tt_avio_opaque (track_pcr now p t) = tt_avio_opaque t"
  by (simp_all add: track_pcr_def split: option.splits)

lemma correct_packet_due:
  assumes "ts_packet p" "correct_packet (ExtractPID p) (ExtractContinuityCounter p) p t = (p', t')"
  shows "p' = set_counter p (due (counters_seen t) p)
    \<and> counters_seen t' = (counters_seen t)(ExtractPID p \<mapsto> due (counters_seen t) p)
    \<and> tt_continuity_corrections t' = tt_continuity_corrections t
        + (if ExtractContinuityCounter p = due (counters_seen t) p then 0 else 1)
    \<and> tt_alignment_buffer t' = tt_alignment_buffer t \<and> (tt_avio_write_callback t' = tt_avio_write_callback t \<and> tt_avio_opaque t' = tt_avio_opaque t)"
proof -
  let ?cc = "ExtractContinuityCounter p"
  have same: "set_counter p ?cc = p" by (rule set_counter_same [OF assms(1)])
  show ?thesis
    using assms(2) same
    by (auto simp: correct_packet_def due_def known_at Let_def split: if_splits)
qed

lemma process_packet_due:
  assumes "ts_packet p" "process_packet now p t = (p', t')"
  shows "[p'] = restamp (counters_seen t) [p] \<and> counters_seen t' = seen_after (counters_seen t) [p]
    \<and> tt_continuity_corrections t' = tt_continuity_corrections t + miscounted (counters_seen t) [p]
    \<and> tt_alignment_buffer t' = tt_alignment_buffer t \<and> (tt_avio_write_callback t' = tt_avio_write_callback t \<and> tt_avio_opaque t' = tt_avio_opaque t)"
proof -
  let ?t = "observe_packet (ExtractPID p) (ExtractContinuityCounter p) t"
  obtain q u where q: "correct_packet (ExtractPID p) (ExtractContinuityCounter p) p ?t = (q, u)"
    by fastforce
  show ?thesis
  proof (cases "is_null_packet p")
    case True
    then have "p' = p" "t' = track_pcr now p ?t" using assms(2) by (auto simp: process_packet_def)
    with True show ?thesis by (simp add: frame_simps)
  next
    case False
    then have "p' = q" "t' = track_pcr now q u" using assms(2) q by (auto simp: process_packet_def)
    with False correct_packet_due [OF assms(1) q] show ?thesis by (simp add: frame_simps)
  qed
qed

lemma ProcessTSPackets_aligned:
  assumes "\<forall>p \<in> set ps. ts_packet p" "length rest < ts_packet_size"
    "ProcessTSPackets clk offset (concat ps @ rest) t = (out, t')"
  shows "out = concat (restamp (counters_seen t) ps) @ rest
    \<and> counters_seen t' = seen_after (counters_seen t) ps
    \<and> tt_continuity_corrections t' = tt_continuity_corrections t + miscounted (counters_seen t) ps
    \<and> tt_alignment_buffer t' = tt_alignment_buffer t \<and> (tt_avio_write_callback t' = tt_avio_write_callback t \<and> tt_avio_opaque t' = tt_avio_opaque t)"
  using assms
proof (induction ps arbitrary: offset t out)
  case Nil
  then show ?case by (subst (asm) ProcessTSPackets.simps) auto
next
  case (Cons p ps)
  have p: "ts_packet p" "length p = ts_packet_size" "p ! 0 = 0x47"
    using Cons.prems(1) by (simp_all add: ts_packet_def)
  have "p \<noteq> []" using p(2) by (auto simp: ts_packet_size_def)
  with p(3) have first: "hd (p @ concat ps @ rest) = 0x47" by (simp add: hd_conv_nth nth_append)
  obtain q u where q: "process_packet (clk offset) p t = (q, u)" by fastforce
  obtain out2 where out2: "ProcessTSPackets clk (offset + ts_packet_size) (concat ps @ rest) u = (out2, t')"
      "out = q @ out2"
    using Cons.prems(3) p(2) first q
    by (subst (asm) ProcessTSPackets.simps) (auto split: prod.splits)
  note here = process_packet_due [OF p(1) q]
  note there = Cons.IH [OF _ assms(2) out2(1)]
  have "out = concat [q] @ out2" using out2(2) by simp
  with here there Cons.prems(1) show ?case
    unfolding one_by_one [of _ p ps] by (simp del: restamp.simps seen_after.simps miscounted.simps)
qed

section \<open>Writes of any size\<close>

lemma length_concat_packets: "\<forall>p \<in> set ps. ts_packet p \<Longrightarrow> length (concat ps) = ts_packet_size * length ps"
  by (induction ps) (auto simp: ts_packet_def)

lemma ts_packet_size_pos [simp]: "0 < ts_packet_size"
  by (simp add: ts_packet_size_def)

lemma complete_packets_aligned:
  "\<forall>p \<in> set ps. ts_packet p \<Longrightarrow> length rest < ts_packet_size
     \<Longrightarrow> complete_packets (concat ps @ rest) = length (concat ps)"
  by (simp add: complete_packets_def length_concat_packets)

lemma split_stream:
  assumes "xs @ ys = concat ps @ rest" "\<forall>p \<in> set ps. ts_packet p" "length rest < ts_packet_size"
  shows "\<exists>ps1 ps2 r. ps = ps1 @ ps2 \<and> xs = concat ps1 @ r \<and> length r < ts_packet_size \<and> r @ ys = concat ps2 @ rest"
  using assms
proof (induction ps arbitrary: xs)
  case Nil
  then have "length xs < ts_packet_size" by (metis append_Nil concat.simps(1) length_append trans_less_add1 le_add1 le_less_trans)
  with Nil show ?case by auto
next
  case (Cons p ps)
  show ?case
  proof (cases "length xs < ts_packet_size")
    case True
    then show ?thesis using Cons.prems by (intro exI [of _ "[]"] exI [of _ "p # ps"] exI [of _ xs]) simp
  next
    case False
    moreover have "length p = ts_packet_size" using Cons.prems(2) by (simp add: ts_packet_def)
    ultimately have "take ts_packet_size xs = p" "drop ts_packet_size xs @ ys = concat ps @ rest"
      using arg_cong [OF Cons.prems(1), of "take ts_packet_size"] arg_cong [OF Cons.prems(1), of "drop ts_packet_size"]
      by simp_all
    then obtain zs where zs: "xs = p @ zs" "zs @ ys = concat ps @ rest" by (metis append_take_drop_id)
    from Cons.IH [OF zs(2)] Cons.prems(2,3) obtain ps1 ps2 r where
      "ps = ps1 @ ps2" "zs = concat ps1 @ r" "length r < ts_packet_size" "r @ ys = concat ps2 @ rest" by auto
    with zs(1) show ?thesis by (intro exI [of _ "p # ps1"] exI [of _ ps2] exI [of _ r]) simp
  qed
qed

lemma WriteWithAlignment_aligned:
  assumes "\<forall>p \<in> set ps. ts_packet p" "length rest < ts_packet_size"
    "tt_alignment_buffer t @ data = concat ps @ rest" "tt_avio_callback t"
    "length (tt_alignment_buffer t) + length data \<le> max_buffer_size"
    "WriteWithAlignment clk data t = (ok, calls, t')"
  shows "ok \<and> concat calls = concat (restamp (counters_seen t) ps) \<and> tt_alignment_buffer t' = rest
    \<and> (\<forall>c \<in> set calls. ts_packet_size dvd length c)
    \<and> counters_seen t' = seen_after (counters_seen t) ps \<and> tt_avio_callback t'"
proof -
  have buffer: "drop_oldest (length data) (tt_alignment_buffer t) @ data = concat ps @ rest"
    using assms(3,5) by (simp add: drop_oldest_def)
  note n = complete_packets_aligned [OF assms(1,2)]
  show ?thesis
  proof (cases "ps = []")
    case True
    with assms buffer n show ?thesis by (auto simp: WriteWithAlignment_def)
  next
    case False
    then have pos: "0 < length (concat ps)" using assms(1) by (simp add: length_concat_packets)
    obtain out u where out: "ProcessTSPackets clk 0 (concat ps @ []) t = (out, u)" by fastforce
    note processed = ProcessTSPackets_aligned [OF assms(1) _ out]
    have "ts_packet_size dvd length (concat (restamp (counters_seen t) ps))"
      using restamp_packets [OF assms(1)] by (simp add: length_concat_packets)
    with assms buffer n pos out processed show ?thesis by (auto simp: WriteWithAlignment_def)
  qed
qed

definition block_ok :: "bytes \<Rightarrow> bool" where
  "block_ok buf \<longleftrightarrow> length buf + ts_packet_size \<le> max_buffer_size"

lemma HandleAVIOWrite_aligned:
  assumes "\<forall>p \<in> set ps. ts_packet p" "length rest < ts_packet_size"
    "tt_alignment_buffer t @ buf = concat ps @ rest" "length (tt_alignment_buffer t) < ts_packet_size"
    "tt_avio_callback t" "block_ok buf"
    "HandleAVIOWrite clk now buf t = (n, calls, t')"
  shows "concat calls = concat (restamp (counters_seen t) ps) \<and> tt_alignment_buffer t' = rest
    \<and> (\<forall>c \<in> set calls. ts_packet_size dvd length c)
    \<and> counters_seen t' = seen_after (counters_seen t) ps \<and> tt_avio_callback t' \<and> n = int (length buf)"
proof (cases "buf = []")
  case True
  have "ps = []"
  proof (rule ccontr)
    assume "ps \<noteq> []"
    then have "ts_packet_size \<le> length (concat ps)" using assms(1) by (cases ps) (simp_all add: ts_packet_def)
    with assms(3,4) True show False by simp
  qed
  with True assms(3,5,7) show ?thesis by (simp add: HandleAVIOWrite_def)
next
  case False
  obtain ok cs u where w: "WriteWithAlignment clk buf t = (ok, cs, u)" by (metis prod_cases3)
  have "length (tt_alignment_buffer t) + length buf \<le> max_buffer_size"
    using assms(4,6) by (simp add: block_ok_def)
  from WriteWithAlignment_aligned [OF assms(1-3,5) this w] False w assms(7)
  show ?thesis by (auto simp: HandleAVIOWrite_def split: bool.splits)
qed

lemma write_blocks_aligned:
  assumes "\<forall>p \<in> set ps. ts_packet p" "length rest < ts_packet_size"
    "tt_alignment_buffer t @ concat bufs = concat ps @ rest" "length (tt_alignment_buffer t) < ts_packet_size"
    "tt_avio_callback t" "\<forall>buf \<in> set bufs. block_ok buf"
    "write_blocks clk now bufs t = (calls, t')"
  shows "concat calls = concat (restamp (counters_seen t) ps) \<and> tt_alignment_buffer t' = rest
    \<and> (\<forall>c \<in> set calls. ts_packet_size dvd length c) \<and> counters_seen t' = seen_after (counters_seen t) ps"
  using assms
proof (induction bufs arbitrary: ps t calls)
  case Nil
  have "ps = []"
  proof (rule ccontr)
    assume "ps \<noteq> []"
    then have "ts_packet_size \<le> length (concat ps)" using Nil.prems(1) by (cases ps) (simp_all add: ts_packet_def)
    with Nil.prems(3,4) show False by simp
  qed
  with Nil show ?case by simp
next
  case (Cons buf bufs)
  obtain n cs u where h: "HandleAVIOWrite clk now buf t = (n, cs, u)" by (metis prod_cases3)
  obtain ls where l: "write_blocks clk now bufs u = (ls, t')" "calls = cs @ ls"
    using Cons.prems(7) h by (auto split: prod.splits)
  have "(tt_alignment_buffer t @ buf) @ concat bufs = concat ps @ rest" using Cons.prems(3) by simp
  from split_stream [OF this Cons.prems(1,2)] obtain ps1 ps2 r where
    s: "ps = ps1 @ ps2" "tt_alignment_buffer t @ buf = concat ps1 @ r" "length r < ts_packet_size"
       "r @ concat bufs = concat ps2 @ rest" by blast
  have first: "concat cs = concat (restamp (counters_seen t) ps1) \<and> tt_alignment_buffer u = r
    \<and> (\<forall>c \<in> set cs. ts_packet_size dvd length c)
    \<and> counters_seen u = seen_after (counters_seen t) ps1 \<and> tt_avio_callback u \<and> n = int (length buf)"
    using HandleAVIOWrite_aligned [OF _ s(3,2) Cons.prems(4,5) _ h] Cons.prems(1,6) s(1) by simp
  have "concat ls = concat (restamp (counters_seen u) ps2) \<and> tt_alignment_buffer t' = rest
    \<and> (\<forall>c \<in> set ls. ts_packet_size dvd length c) \<and> counters_seen t' = seen_after (counters_seen u) ps2"
    using Cons.IH [OF _ Cons.prems(2) _ _ _ _ l(1), of ps2] Cons.prems(1,6) first s by simp
  with first l(2) s(1) show ?case by (auto simp: restamp_append seen_after_append)
qed

section \<open>What every write keeps\<close>

text \<open>The fields added by an extension of the tracker, the write callback, and the length of a block.\<close>

definition same_rest :: "'z ts_tracker_scheme \<Rightarrow> 'z ts_tracker_scheme \<Rightarrow> bool" where
  "same_rest t t' \<longleftrightarrow> ts_tracker.more t' = ts_tracker.more t
     \<and> tt_avio_write_callback t' = tt_avio_write_callback t \<and> tt_avio_opaque t' = tt_avio_opaque t"

definition whole_packets :: "bytes list \<Rightarrow> bool" where
  "whole_packets calls \<longleftrightarrow> (\<forall>c \<in> set calls. ts_packet_size dvd length c)"

lemma whole_packets_simps [simp]:
  "whole_packets []" "whole_packets (c # cs) \<longleftrightarrow> ts_packet_size dvd length c \<and> whole_packets cs"
  "whole_packets (as @ bs) \<longleftrightarrow> whole_packets as \<and> whole_packets bs"
  by (auto simp: whole_packets_def)

lemma same_rest_refl [simp]: "same_rest t t"
  by (simp add: same_rest_def)

lemma same_rest_trans: "same_rest t u \<Longrightarrow> same_rest u v \<Longrightarrow> same_rest t v"
  by (simp add: same_rest_def)

lemma same_rest_buffer: "same_rest t u \<Longrightarrow> same_rest t (u\<lparr>tt_alignment_buffer := b\<rparr>)"
  by (simp add: same_rest_def)

lemma observe_packet_same: "same_rest t (observe_packet pid cc t)"
  by (simp add: observe_packet_def same_rest_def Let_def)

lemma track_pcr_same: "same_rest t u \<Longrightarrow> same_rest t (track_pcr now p u)"
  by (simp add: track_pcr_def same_rest_def split: option.splits)

lemma correct_packet_keeps:
  "correct_packet pid cc p t = (p', t') \<Longrightarrow> same_rest t t' \<and> length p' = length p"
  by (simp add: correct_packet_def same_rest_def Let_def split: if_splits) auto

lemma process_packet_keeps:
  assumes "process_packet now p t = (p', t')"
  shows "same_rest t t' \<and> length p' = length p"
proof -
  let ?t = "observe_packet (ExtractPID p) (ExtractContinuityCounter p) t"
  obtain q u where q: "correct_packet (ExtractPID p) (ExtractContinuityCounter p) p ?t = (q, u)" by fastforce
  have "(p', t') = (if is_null_packet p then (p, track_pcr now p ?t) else (q, track_pcr now q u))"
    using assms q by (auto simp: process_packet_def)
  with correct_packet_keeps [OF q] observe_packet_same [of t] show ?thesis
    by (auto intro: track_pcr_same same_rest_trans split: if_splits)
qed

lemma ProcessTSPackets_keeps:
  "ProcessTSPackets clk offset data t = (out, t') \<Longrightarrow> same_rest t t' \<and> length out = length data"
proof (induction clk offset data t arbitrary: out rule: ProcessTSPackets.induct)
  case (1 clk offset data t)
  show ?case
  proof (cases "length data < ts_packet_size")
    case True
    then show ?thesis using "1.prems" by (subst (asm) ProcessTSPackets.simps) simp
  next
    case large: False
    show ?thesis
    proof (cases "hd data = 0x47")
      case False
      obtain rest where "ProcessTSPackets clk (offset + 1) (tl data) t = (rest, t')" "out = hd data # rest"
        using "1.prems" large False by (subst (asm) ProcessTSPackets.simps) (auto split: prod.splits)
      with "1.IH"(1) [OF large False] large show ?thesis by (auto simp: ts_packet_size_def)
    next
      case True
      obtain q u where q: "process_packet (clk offset) (take ts_packet_size data) t = (q, u)" by fastforce
      obtain rest where r: "ProcessTSPackets clk (offset + ts_packet_size) (drop ts_packet_size data) u = (rest, t')"
          "out = q @ rest"
        using "1.prems" large True q by (subst (asm) ProcessTSPackets.simps) (auto split: prod.splits)
      from "1.IH"(2) [OF large] True q r(1) have "same_rest u t' \<and> length rest = length (drop ts_packet_size data)"
        by auto
      with process_packet_keeps [OF q] r(2) large show ?thesis by (auto intro: same_rest_trans)
    qed
  qed
qed

lemma complete_packets_le: "complete_packets buffer \<le> length buffer"
  by (simp add: complete_packets_def)

lemma complete_packets_dvd: "ts_packet_size dvd complete_packets buffer"
  by (simp add: complete_packets_def)

lemma processed_whole:
  "ProcessTSPackets clk offset (take (complete_packets buffer) buffer) t = (out, t')
     \<Longrightarrow> ts_packet_size dvd length out"
  using ProcessTSPackets_keeps [of clk offset _ t out t'] complete_packets_le [of buffer] complete_packets_dvd [of buffer]
  by auto

lemma WriteWithAlignment_keeps:
  assumes "WriteWithAlignment clk data t = (ok, calls, t')"
  shows "same_rest t t' \<and> whole_packets calls"
proof -
  define buffer where "buffer = drop_oldest (length data) (tt_alignment_buffer t) @ data"
  obtain whole u where w: "ProcessTSPackets clk 0 (take (complete_packets buffer) buffer) t = (whole, u)"
    by fastforce
  have u: "same_rest t u" "ts_packet_size dvd length whole"
    using ProcessTSPackets_keeps [OF w] processed_whole [OF w] by simp_all
  have "(ok, calls, t') =
     (if 0 < complete_packets buffer
      then if tt_avio_callback u then (True, [whole], u\<lparr>tt_alignment_buffer := drop (complete_packets buffer) buffer\<rparr>)
           else (False, [], u\<lparr>tt_alignment_buffer := whole @ drop (complete_packets buffer) buffer\<rparr>)
      else (True, [], t\<lparr>tt_alignment_buffer := buffer\<rparr>))"
    using assms by (simp only: WriteWithAlignment_def Let_def buffer_def [symmetric] w prod.case)
  with u show ?thesis by (simp split: if_splits add: same_rest_buffer)
qed

lemma HandleAVIOWrite_keeps:
  assumes "HandleAVIOWrite clk now buf t = (n, calls, t')"
  shows "same_rest t t' \<and> whole_packets calls"
proof -
  obtain ok cs u where w: "WriteWithAlignment clk buf t = (ok, cs, u)" by (metis prod_cases3)
  with WriteWithAlignment_keeps [OF w] assms show ?thesis
    by (auto simp: HandleAVIOWrite_def same_rest_def split: if_splits bool.splits)
qed

lemma write_blocks_keeps:
  "write_blocks clk now bufs t = (calls, t') \<Longrightarrow> same_rest t t' \<and> whole_packets calls"
proof (induction bufs arbitrary: t calls)
  case (Cons buf bufs)
  obtain n cs u where h: "HandleAVIOWrite clk now buf t = (n, cs, u)" by (metis prod_cases3)
  obtain ls where l: "write_blocks clk now bufs u = (ls, t')" "calls = cs @ ls"
    using Cons.prems h by (auto split: prod.splits)
  with HandleAVIOWrite_keeps [OF h] Cons.IH [OF l(1)] show ?case by (auto intro: same_rest_trans)
qed simp

section \<open>Properties\<close>

lemma miscounted_0: "miscounted seen ps = 0 \<longleftrightarrow> receiver_accepts seen ps"
  by (induction ps arbitrary: seen) auto

lemma set_counter_twice: "ts_packet p \<Longrightarrow> c AND 0x0F = c \<Longrightarrow> set_counter (set_counter p c) 0 = set_counter p 0"
proof -
  assume p: "ts_packet p" and c: "c AND 0x0F = c"
  have "((x AND 0xF0) OR c) AND 0xF0 = x AND 0xF0" for x :: u8
    by (rule bit_word_eqI)
      (auto simp: nibble_masks bit_and_iff bit_or_iff bit_push_bit_iff bit_mask_iff
            dest: bit_below_4 [OF c])
  then show ?thesis using byte_3_set_counter [OF p] by (simp add: set_counter_def)
qed

lemma restamp_counters_only:
  "nibbles seen \<Longrightarrow> \<forall>p \<in> set ps. ts_packet p
     \<Longrightarrow> map (\<lambda>p. set_counter p 0) (restamp seen ps) = map (\<lambda>p. set_counter p 0) ps"
proof (induction ps arbitrary: seen)
  case (Cons p ps)
  have "map (\<lambda>p. set_counter p 0) (restamp (seen(ExtractPID p \<mapsto> due seen p)) ps) = map (\<lambda>p. set_counter p 0) ps"
    using Cons by (auto intro: nibbles_due)
  then show ?case using Cons by (simp add: set_counter_twice due_nibble)
qed simp

text \<open>C3. Whatever the muxer hands over as a sequence of whole packets, correction turns it into a
  sequence a receiver that counts the packets of each stream accepts. Nothing but the counters changes,
  as many corrections are counted as packets carried a wrong counter, a sequence that was right is left
  alone, and a second pass changes nothing.\<close>

theorem continuity_restored:
  assumes "\<forall>p \<in> set ps. ts_packet p" "nibbles (counters_seen t)" "length rest < ts_packet_size"
    "ProcessTSPackets clk offset (concat ps @ rest) t = (out, t')"
  shows "\<exists>ps'. out = concat ps' @ rest \<and> receiver_accepts (counters_seen t) ps'
      \<and> map (\<lambda>p. set_counter p 0) ps' = map (\<lambda>p. set_counter p 0) ps
      \<and> tt_continuity_corrections t' = tt_continuity_corrections t + miscounted (counters_seen t) ps
      \<and> (ps' = ps \<longleftrightarrow> receiver_accepts (counters_seen t) ps)
      \<and> fst (ProcessTSPackets clk offset out t) = out \<and> nibbles (counters_seen t')"
proof -
  let ?ps = "restamp (counters_seen t) ps"
  note seen = assms(2) assms(1)
  note first = ProcessTSPackets_aligned [OF assms(1,3,4)]
  have "fst (ProcessTSPackets clk offset (concat ?ps @ rest) t) = concat (restamp (counters_seen t) ?ps) @ rest"
    using ProcessTSPackets_aligned [OF restamp_packets [OF assms(1)] assms(3)] by (metis prod.collapse)
  with first have "fst (ProcessTSPackets clk offset out t) = out"
    using restamp_same_iff [OF assms(2) restamp_packets [OF assms(1), of "counters_seen t"]] restamp_accepted [OF seen] by simp
  with first show ?thesis
    using restamp_accepted [OF seen] restamp_same_iff [OF seen] restamp_counters_only [OF seen]
      nibbles_seen_after [OF seen] by (intro exI [of _ ?ps]) simp
qed

text \<open>A packet of stream 256 and a tracker just opened.\<close>

definition video_packet :: "u8 \<Rightarrow> bytes" where
  "video_packet cc = [0x47, 0x01, 0x00, 0x10 OR cc] @ replicate 184 0xFF"

definition fresh_tracker :: ts_tracker where
  "fresh_tracker = \<lparr>tt_continuity_counters = Map.empty, tt_continuity_corrections = 0,
     tt_test_counters = Map.empty, tt_test_packets = 0, tt_test_mismatches = 0,
     tt_test_pid_packets = Map.empty, tt_test_pid_mismatches = Map.empty, tt_last_pcr_90k = 0,
     tt_last_pcr_packet_time_us = 0, tt_last_pcr_valid = False, tt_alignment_buffer = [],
     tt_last_write_time_us = 0, tt_avio_write_callback = True, tt_avio_opaque = True\<rparr>"

lemma video_packet_facts [simp]:
  "ts_packet (video_packet cc)" "ExtractPID (video_packet cc) = 256" "\<not> is_null_packet (video_packet cc)"
  by (simp_all add: ts_packet_def ts_packet_size_def video_packet_def ExtractPID_def is_null_packet_def)

lemma video_packet_5_9:
  "ExtractContinuityCounter (video_packet 5) = 5" "ExtractContinuityCounter (video_packet 9) = 9"
  "has_payload (video_packet 5)" "has_payload (video_packet 9)"
  "\<not> has_adaptation (video_packet 5)" "\<not> has_adaptation (video_packet 9)"
  by (simp_all add: video_packet_def ExtractContinuityCounter_def has_payload_def has_adaptation_def)

lemma fresh_tracker_facts [simp]:
  "counters_seen fresh_tracker = Map.empty" "tt_alignment_buffer fresh_tracker = []"
  "tt_avio_callback fresh_tracker" "nibbles Map.empty"
  by (auto simp: fresh_tracker_def known_def nibbles_def)

lemma restamp_5_9: "restamp Map.empty [video_packet 5, video_packet 9] = [video_packet 5, set_counter (video_packet 9) 6]"
  using set_counter_same [of "video_packet 5"]
  by (simp add: due_def discontinuity_flag_def video_packet_5_9)

theorem continuity_restored_witness:
  "\<exists>ps'. fst (ProcessTSPackets (\<lambda>_. 0) 0 (concat [video_packet 5, video_packet 9] @ [0x47]) fresh_tracker)
      = concat ps' @ [0x47] \<and> receiver_accepts Map.empty ps'
    \<and> map (\<lambda>p. set_counter p 0) ps' = map (\<lambda>p. set_counter p 0) [video_packet 5, video_packet 9]
    \<and> ps' \<noteq> [video_packet 5, video_packet 9]"
proof -
  have not_right: "\<not> receiver_accepts Map.empty [video_packet 5, video_packet 9]"
    by (simp add: due_def discontinuity_flag_def video_packet_5_9)
  obtain out t' where out: "ProcessTSPackets (\<lambda>_. 0) 0 (concat [video_packet 5, video_packet 9] @ [0x47]) fresh_tracker
      = (out, t')" by fastforce
  from continuity_restored [OF _ _ _ out] not_right out show ?thesis
    by (auto simp: ts_packet_size_def)
qed

text \<open>C21. The muxer may write in blocks of any size up to a megabyte: the callback always gets whole
  packets, and the bytes it gets are those of one pass over the whole stream, however the stream was cut
  into blocks. What does not fill a packet stays in the buffer.\<close>

theorem aligned_writes:
  assumes "\<forall>p \<in> set ps. ts_packet p" "length rest < ts_packet_size" "concat bufs = concat ps @ rest"
    "tt_alignment_buffer t = []" "tt_avio_callback t" "\<forall>buf \<in> set bufs. block_ok buf"
    "write_blocks clk now bufs t = (calls, t')"
  shows "concat calls = concat (restamp (counters_seen t) ps) \<and> tt_alignment_buffer t' = rest
    \<and> (\<forall>c \<in> set calls. ts_packet_size dvd length c)"
  using write_blocks_aligned [OF assms(1,2) _ _ assms(5-7)] assms(3,4) by simp

theorem aligned_writes_witness:
  "concat (fst (write_blocks (\<lambda>_. 0) 0
      [take 100 (video_packet 5 @ video_packet 9), drop 100 (video_packet 5 @ video_packet 9), [0x47]] fresh_tracker))
    = video_packet 5 @ set_counter (video_packet 9) 6"
proof -
  let ?bufs = "[take 100 (video_packet 5 @ video_packet 9), drop 100 (video_packet 5 @ video_packet 9), [0x47]]"
  have size: "length (video_packet cc) = 188" for cc by (simp add: video_packet_def)
  obtain calls t' where w: "write_blocks (\<lambda>_. 0) 0 ?bufs fresh_tracker = (calls, t')" by fastforce
  have "concat ?bufs = concat [video_packet 5, video_packet 9] @ [0x47]" by (simp only: concat.simps append_assoc append_take_drop_id append_Nil append_Nil2) (simp add: size)
  from aligned_writes [OF _ _ this _ _ _ w]
  have "concat calls = concat (restamp Map.empty [video_packet 5, video_packet 9])"
    by (simp add: ts_packet_size_def block_ok_def max_buffer_size_def size)
  then show ?thesis unfolding w restamp_5_9 by simp
qed

end
