(* ===== verification/EncoderPipeline.thy ===== *)
theory EncoderPipeline
  imports TransportStream FrameRingBuffer
begin

text \<open>
  The encoder pipeline (\<open>include/retrovue/playout_sinks/mpegts/EncoderPipeline.hpp\<close>,
  \<open>src/playout_sinks/mpegts/EncoderPipeline.cpp\<close>, built with FFmpeg): opening, encoding a frame,
  closing, with the time stamps given to packets and the state of every handle. What the FFmpeg calls
  answer is an input, as is \<open>av_rescale_q\<close>; \<open>TransportStream\<close> models what is done with the bytes the
  muxer writes. Using a null pointer is an outcome of its own, \<open>NullAccess\<close>.
\<close>

section \<open>Data\<close>

datatype underflow_policy = FRAME_FREEZE | BLACK_FRAME | SKIP_OUTPUT

record sink_config =
  sc_port :: int
  sc_bind_host :: string
  sc_ts_socket_path :: string
  sc_target_fps :: real
  sc_bitrate :: int
  sc_gop_size :: int
  sc_stub_mode :: bool
  sc_underflow_policy :: underflow_policy
  sc_enable_audio :: bool
  sc_max_output_queue_packets :: nat
  sc_output_queue_high_water_mark :: nat

definition MpegTSPlayoutSinkConfig :: sink_config where
  "MpegTSPlayoutSinkConfig = \<lparr>sc_port = 9000, sc_bind_host = ''127.0.0.1'', sc_ts_socket_path = '''',
     sc_target_fps = 30, sc_bitrate = 5000000, sc_gop_size = 30, sc_stub_mode = False,
     sc_underflow_policy = FRAME_FREEZE, sc_enable_audio = False, sc_max_output_queue_packets = 100,
     sc_output_queue_high_water_mark = 80\<rparr>"

text \<open>The codec context; \<open>cx_open\<close> is true between \<open>avcodec_open2\<close> and \<open>avcodec_close\<close>.\<close>

record codec_context =
  cx_width :: int
  cx_height :: int
  cx_bit_rate :: int
  cx_gop_size :: int
  cx_time_base_den :: int
  cx_open :: bool

text \<open>
  Pointers are true when set. \<open>ep_planes\<close> is what \<open>frame_->data\<close> points to, the rows of each plane;
  \<open>ep_url_avio\<close> is \<open>format_ctx_->pb\<close> opened from the URL.
\<close>

record encoder = ts_tracker +
  ep_config :: sink_config
  ep_initialized :: bool
  ep_codec_ctx :: "codec_context option"
  ep_format_ctx :: bool
  ep_video_stream :: bool
  ep_frame :: bool
  ep_planes :: "bytes list list option"
  ep_frame_pts :: int
  ep_input_frame :: bool
  ep_input_data :: bool
  ep_packet :: bool
  ep_sws_ctx :: bool
  ep_frame_width :: int
  ep_frame_height :: int
  ep_header_written :: bool
  ep_muxer_opts :: bool
  ep_custom_avio_ctx :: bool
  ep_url_avio :: bool
  ep_last_pts_90k :: int
  ep_last_dts_90k :: int
  ep_last_pts_valid :: bool
  ep_last_dts_valid :: bool
  ep_last_packet_time_us :: time_us

definition EncoderPipeline :: "sink_config \<Rightarrow> encoder" where
  "EncoderPipeline config = \<lparr>tt_continuity_counters = Map.empty, tt_continuity_corrections = 0,
     tt_test_counters = Map.empty, tt_test_packets = 0, tt_test_mismatches = 0,
     tt_test_pid_packets = Map.empty, tt_test_pid_mismatches = Map.empty, tt_last_pcr_90k = 0,
     tt_last_pcr_packet_time_us = 0, tt_last_pcr_valid = False, tt_alignment_buffer = [],
     tt_last_write_time_us = 0, tt_avio_write_callback = False, tt_avio_opaque = False,
     ep_config = config, ep_initialized = False, ep_codec_ctx = None, ep_format_ctx = False,
     ep_video_stream = False, ep_frame = False, ep_planes = None, ep_frame_pts = 0, ep_input_frame = False,
     ep_input_data = False, ep_packet = False, ep_sws_ctx = False, ep_frame_width = 0, ep_frame_height = 0,
     ep_header_written = False, ep_muxer_opts = False, ep_custom_avio_ctx = False, ep_url_avio = False,
     ep_last_pts_90k = 0, ep_last_dts_90k = 0, ep_last_pts_valid = False, ep_last_dts_valid = False,
     ep_last_packet_time_us = 0\<rparr>"

definition Ep_IsInitialized :: "encoder \<Rightarrow> bool" where
  "Ep_IsInitialized e \<longleftrightarrow> ep_initialized e"

section \<open>What FFmpeg answers\<close>

datatype av_result = AvOk | AvAgain | AvEof | AvError

record av_packet =
  pk_pts :: "int option"
  pk_dts :: "int option"

text \<open>
  A packet received from the encoder, in the codec's time base, what \<open>av_interleaved_write_frame\<close> answers
  for it, and the blocks the muxer then writes.
\<close>

record packet_event =
  pe_packet :: av_packet
  pe_write :: av_result
  pe_blocks :: "bytes list"

datatype receive_result = Received packet_event | ReceiveAgain | ReceiveEof | ReceiveError

record open_env =
  oe_alloc_output_context :: bool
  oe_alloc_buffer :: bool
  oe_alloc_avio :: bool
  oe_find_encoder :: bool
  oe_new_stream :: bool
  oe_alloc_codec :: bool
  oe_copy_parameters :: bool
  oe_alloc_frame :: bool
  oe_alloc_input_frame :: bool
  oe_alloc_packet :: bool

record encode_env =
  en_copy_parameters :: bool
  en_find_encoder :: bool
  en_open_codec :: bool
  en_image_alloc :: bool
  en_nofile :: bool
  en_avio_open :: bool
  en_write_header :: av_result
  en_header_blocks :: "bytes list"
  en_send :: av_result
  en_drain :: "nat \<Rightarrow> receive_result"
  en_resend :: av_result
  en_receive :: "nat \<Rightarrow> receive_result"
  en_clk :: "nat \<Rightarrow> time_us"
  en_pcr_clk :: "nat \<Rightarrow> time_us"

record close_env =
  ce_receive :: "nat \<Rightarrow> receive_result"
  ce_trailer_blocks :: "bytes list"
  ce_clk :: "nat \<Rightarrow> time_us"

type_synonym rational = "int \<times> int"

section \<open>Time stamps of a packet\<close>

text \<open>\<open>av_packet_rescale_ts\<close> from the codec's to the stream's time base.\<close>

definition rescale_packet :: "(int \<Rightarrow> rational \<Rightarrow> rational \<Rightarrow> int) \<Rightarrow> int \<Rightarrow> av_packet \<Rightarrow> av_packet" where
  "rescale_packet rescale_q den p =
     (let convert = (\<lambda>ts. rescale_q ts (1, den) (1, 90000))
      in \<lparr>pk_pts = map_option convert (pk_pts p), pk_dts = map_option convert (pk_dts p)\<rparr>)"

definition enforce_pts :: "av_packet \<Rightarrow> encoder \<Rightarrow> av_packet \<times> encoder" where
  "enforce_pts p e =
     (case pk_pts p of
        None \<Rightarrow> (p, e)
      | Some pts_90k \<Rightarrow>
          let pts_90k = (if ep_last_pts_valid e \<and> pts_90k \<le> ep_last_pts_90k e
                         then ep_last_pts_90k e + 1 else pts_90k)
          in (p\<lparr>pk_pts := Some pts_90k\<rparr>, e\<lparr>ep_last_pts_90k := pts_90k, ep_last_pts_valid := True\<rparr>))"

definition not_after_pts :: "av_packet \<Rightarrow> int \<Rightarrow> int" where
  "not_after_pts p dts_90k = (case pk_pts p of Some pts \<Rightarrow> if pts < dts_90k then pts else dts_90k | None \<Rightarrow> dts_90k)"

definition enforce_dts :: "av_packet \<Rightarrow> encoder \<Rightarrow> av_packet \<times> encoder" where
  "enforce_dts p e =
     (case pk_dts p of
        None \<Rightarrow> (p, e)
      | Some dts_90k \<Rightarrow>
          let dts_90k = not_after_pts p dts_90k;
              dts_90k = (if ep_last_dts_valid e \<and> dts_90k \<le> ep_last_dts_90k e
                         then not_after_pts p (ep_last_dts_90k e + 1) else dts_90k)
          in (p\<lparr>pk_dts := Some dts_90k\<rparr>, e\<lparr>ep_last_dts_90k := dts_90k, ep_last_dts_valid := True\<rparr>))"

definition stamp_packet :: "av_packet \<Rightarrow> encoder \<Rightarrow> av_packet \<times> encoder" where
  "stamp_packet p e = (let (p, e) = enforce_pts p e in enforce_dts p e)"

section \<open>What the muxer writes\<close>

text \<open>With custom I/O the blocks come back through \<open>HandleAVIOWrite\<close>.\<close>

definition mux_blocks :: "(nat \<Rightarrow> time_us) \<Rightarrow> time_us \<Rightarrow> bytes list \<Rightarrow> encoder \<Rightarrow> bytes list \<times> encoder" where
  "mux_blocks clk now_us blocks e =
     (if ep_custom_avio_ctx e then write_blocks clk now_us blocks e else ([], e))"

section \<open>Closing\<close>

text \<open>
  The null packet of PID \<open>0x1FFF\<close> and the padding of an incomplete packet to one. \<open>flush_alignment\<close> and
  \<open>final_null_packet\<close> answer the calls of the write callback.
\<close>

definition null_packet :: bytes where
  "null_packet = [0x47, 0x1F, 0xFF, 0x10] @ replicate 184 0"

definition pad_packet :: "bytes \<Rightarrow> bytes" where
  "pad_packet buffer =
     (let padded = buffer @ replicate (ts_packet_size - length buffer) 0
      in padded[0 := 0x47, 1 := 0x1F, 2 := 0xFF, 3 := 0x10])"

definition give :: "encoder \<Rightarrow> bytes \<Rightarrow> bytes list" where
  "give e data = (if tt_avio_callback e then [data] else [])"

definition flush_alignment :: "(nat \<Rightarrow> time_us) \<Rightarrow> encoder \<Rightarrow> bytes list \<times> encoder" where
  "flush_alignment clk e =
     (if tt_alignment_buffer e = [] then ([], e)
      else let n = complete_packets (tt_alignment_buffer e);
               (calls, e) =
                 (if 0 < n
                  then let (whole, e') = ProcessTSPackets clk 0 (take n (tt_alignment_buffer e)) e
                       in (give e' whole, e'\<lparr>tt_alignment_buffer := drop n (tt_alignment_buffer e)\<rparr>)
                  else ([], e))
           in if tt_alignment_buffer e = [] then (calls, e)
              else let (whole, e') = ProcessTSPackets clk 0 (pad_packet (tt_alignment_buffer e)) e
                   in (calls @ give e' whole, e'\<lparr>tt_alignment_buffer := []\<rparr>))"

definition final_null_packet :: "encoder \<Rightarrow> bytes list" where
  "final_null_packet e = give e null_packet"

text \<open>
  The flush of the encoder reads packets until it is told to stop; an error other than those two is
  ignored and the encoder is asked again, so that the loop may not end.
\<close>

definition write_flushed :: "(int \<Rightarrow> rational \<Rightarrow> rational \<Rightarrow> int) \<Rightarrow> (nat \<Rightarrow> time_us) \<Rightarrow> nat \<Rightarrow> int \<Rightarrow> packet_event
    \<Rightarrow> encoder \<Rightarrow> av_packet \<times> bytes list \<times> encoder" where
  "write_flushed rescale_q clk i den ev e =
     (let (p, e) = stamp_packet (rescale_packet rescale_q den (pe_packet ev)) e;
          (calls, e) = mux_blocks clk (clk i) (pe_blocks ev) e
      in (p, calls, e))"

partial_function (option) flush_loop :: "(int \<Rightarrow> rational \<Rightarrow> rational \<Rightarrow> int) \<Rightarrow> close_env \<Rightarrow> int \<Rightarrow> nat \<Rightarrow> encoder
    \<Rightarrow> (av_packet list \<times> bytes list \<times> encoder) option" where
  "flush_loop rescale_q ce den i e =
     (case ce_receive ce i of
        ReceiveAgain \<Rightarrow> Some ([], [], e)
      | ReceiveEof \<Rightarrow> Some ([], [], e)
      | ReceiveError \<Rightarrow> flush_loop rescale_q ce den (Suc i) e
      | Received ev \<Rightarrow>
          let (p, calls, e) = write_flushed rescale_q (ce_clk ce) i den ev e
          in Option.bind (flush_loop rescale_q ce den (Suc i) e) (\<lambda>(ps, later, e). Some (p # ps, calls @ later, e)))"

definition flush_encoder :: "(int \<Rightarrow> rational \<Rightarrow> rational \<Rightarrow> int) \<Rightarrow> close_env \<Rightarrow> encoder
    \<Rightarrow> (av_packet list \<times> bytes list \<times> encoder) option" where
  "flush_encoder rescale_q ce e =
     (case ep_codec_ctx e of
        Some cx \<Rightarrow> if 0 < cx_width cx then flush_loop rescale_q ce (cx_time_base_den cx) 0 e else Some ([], [], e)
      | None \<Rightarrow> Some ([], [], e))"

definition release_handles :: "encoder \<Rightarrow> encoder" where
  "release_handles e = e\<lparr>ep_custom_avio_ctx := False, ep_url_avio := False, tt_avio_opaque := False,
     tt_avio_write_callback := False, ep_planes := None, ep_frame := False, ep_input_data := False,
     ep_input_frame := False, ep_packet := False, ep_codec_ctx := None, ep_format_ctx := False,
     tt_continuity_counters := Map.empty, tt_continuity_corrections := 0, tt_test_counters := Map.empty,
     tt_test_packets := 0, tt_test_mismatches := 0, ep_sws_ctx := False, ep_video_stream := False,
     ep_frame_width := 0, ep_frame_height := 0, ep_header_written := False\<rparr>"

text \<open>\<open>None\<close>: \<open>close\<close> does not return. The result holds the packets given to the muxer and the calls of the callback.\<close>

definition Ep_close :: "(int \<Rightarrow> rational \<Rightarrow> rational \<Rightarrow> int) \<Rightarrow> close_env \<Rightarrow> encoder
    \<Rightarrow> (av_packet list \<times> bytes list \<times> encoder) option" where
  "Ep_close rescale_q ce e =
     (if \<not> ep_initialized e then Some ([], [], e)
      else if sc_stub_mode (ep_config e) then Some ([], [], e\<lparr>ep_initialized := False\<rparr>)
      else case flush_encoder rescale_q ce (e\<lparr>ep_muxer_opts := False\<rparr>) of
        None \<Rightarrow> None
      | Some (ps, flushed, e) \<Rightarrow>
          let (trailer, e) = (if ep_format_ctx e \<and> ep_header_written e
                              then mux_blocks (ce_clk ce) (ce_clk ce 0) (ce_trailer_blocks ce) e else ([], e));
              (aligned, e) = flush_alignment (ce_clk ce) e
          in Some (ps, flushed @ trailer @ aligned @ final_null_packet e,
                   (release_handles e)\<lparr>ep_initialized := False\<rparr>))"

section \<open>Opening\<close>

definition open_failed :: "(int \<Rightarrow> rational \<Rightarrow> rational \<Rightarrow> int) \<Rightarrow> close_env \<Rightarrow> encoder \<Rightarrow> (bool \<times> encoder) option" where
  "open_failed rescale_q ce e =
     (case Ep_close rescale_q ce e of None \<Rightarrow> None | Some (_, _, e) \<Rightarrow> Some (False, e))"

definition new_codec_context :: "sink_config \<Rightarrow> codec_context" where
  "new_codec_context config = \<lparr>cx_width = 0, cx_height = 0, cx_bit_rate = sc_bitrate config,
     cx_gop_size = sc_gop_size config, cx_time_base_den = trunc_real (sc_target_fps config), cx_open = False\<rparr>"

definition open_codec :: "(int \<Rightarrow> rational \<Rightarrow> rational \<Rightarrow> int) \<Rightarrow> close_env \<Rightarrow> open_env \<Rightarrow> sink_config \<Rightarrow> encoder
    \<Rightarrow> (bool \<times> encoder) option" where
  "open_codec rescale_q ce oe config e =
     (if \<not> oe_find_encoder oe then open_failed rescale_q ce e
      else if \<not> oe_new_stream oe then open_failed rescale_q ce (e\<lparr>ep_video_stream := False\<rparr>)
      else let e = e\<lparr>ep_video_stream := True\<rparr>
      in if \<not> oe_alloc_codec oe then open_failed rescale_q ce (e\<lparr>ep_codec_ctx := None\<rparr>)
      else let e = e\<lparr>ep_codec_ctx := Some (new_codec_context config)\<rparr>
      in if \<not> oe_copy_parameters oe then open_failed rescale_q ce e
      else let e = e\<lparr>ep_frame := oe_alloc_frame oe, ep_planes := None, ep_input_frame := oe_alloc_input_frame oe,
                     ep_input_data := False, ep_packet := oe_alloc_packet oe\<rparr>
      in if \<not> ep_frame e \<or> \<not> ep_input_frame e \<or> \<not> ep_packet e then open_failed rescale_q ce e
      else Some (True, e\<lparr>ep_initialized := True\<rparr>))"

text \<open>\<open>callback\<close> and \<open>opaque\<close>: whether these pointers are given.\<close>

definition Ep_open :: "(int \<Rightarrow> rational \<Rightarrow> rational \<Rightarrow> int) \<Rightarrow> close_env \<Rightarrow> open_env \<Rightarrow> sink_config \<Rightarrow> bool \<Rightarrow> bool
    \<Rightarrow> encoder \<Rightarrow> (bool \<times> encoder) option" where
  "Ep_open rescale_q ce oe config opaque callback e =
     (if ep_initialized e then Some (True, e)
      else if sc_stub_mode config then Some (True, e\<lparr>ep_initialized := True\<rparr>)
      else let e = e\<lparr>tt_continuity_counters := Map.empty, tt_continuity_corrections := 0,
                     tt_test_counters := Map.empty, tt_test_packets := 0, tt_test_mismatches := 0,
                     tt_test_pid_packets := Map.empty, tt_test_pid_mismatches := Map.empty,
                     tt_avio_opaque := opaque, tt_avio_write_callback := callback\<rparr>
      in if \<not> oe_alloc_output_context oe then Some (False, e\<lparr>ep_format_ctx := False\<rparr>)
      else let e = e\<lparr>ep_format_ctx := True, ep_muxer_opts := True\<rparr>
      in if tt_avio_write_callback e
         then if \<not> oe_alloc_buffer oe then open_failed rescale_q ce e
              else if \<not> oe_alloc_avio oe then open_failed rescale_q ce (e\<lparr>ep_custom_avio_ctx := False\<rparr>)
              else open_codec rescale_q ce oe config (e\<lparr>ep_custom_avio_ctx := True\<rparr>)
         else open_codec rescale_q ce oe config e)"

section \<open>Encoding a frame\<close>

definition needs_codec :: "codec_context \<Rightarrow> frame \<Rightarrow> bool" where
  "needs_codec cx f \<longleftrightarrow> cx_width cx = 0 \<or> cx_height cx = 0 \<or> cx_width cx \<noteq> fr_width f \<or> cx_height cx \<noteq> fr_height f"

definition close_codec :: "codec_context \<Rightarrow> encoder \<Rightarrow> encoder" where
  "close_codec cx e =
     (let e = (if 0 < cx_width cx \<and> 0 < cx_height cx then e\<lparr>ep_planes := None, ep_sws_ctx := False\<rparr> else e)
      in e\<lparr>ep_input_data := False\<rparr>)"

definition write_header :: "encode_env \<Rightarrow> encoder \<Rightarrow> bool \<times> bytes list \<times> encoder" where
  "write_header en e =
     (if ep_header_written e then (True, [], e)
      else if \<not> tt_avio_write_callback e \<and> \<not> en_nofile en \<and> \<not> en_avio_open en then (False, [], e)
      else let e = (if \<not> tt_avio_write_callback e \<and> \<not> en_nofile en then e\<lparr>ep_url_avio := True\<rparr> else e);
               (calls, e) = mux_blocks (en_pcr_clk en) (en_clk en 0) (en_header_blocks en) e
           in if en_write_header en \<noteq> AvOk then (False, calls, e)
              else (True, calls, e\<lparr>ep_header_written := True\<rparr>))"

definition prepare_codec :: "encode_env \<Rightarrow> frame \<Rightarrow> codec_context \<Rightarrow> encoder \<Rightarrow> bool \<times> bytes list \<times> encoder" where
  "prepare_codec en f cx e =
     (let e = close_codec cx e;
          cx = (if 0 < cx_width cx \<and> 0 < cx_height cx then cx\<lparr>cx_open := False\<rparr> else cx);
          cx = cx\<lparr>cx_width := fr_width f, cx_height := fr_height f\<rparr>;
          e = e\<lparr>ep_codec_ctx := Some cx, ep_frame_width := fr_width f, ep_frame_height := fr_height f\<rparr>
      in if \<not> en_copy_parameters en then (False, [], e)
      else if \<not> en_find_encoder en then (False, [], e)
      else if \<not> en_open_codec en then (False, [], e)
      else let e = e\<lparr>ep_codec_ctx := Some (cx\<lparr>cx_open := True\<rparr>)\<rparr>
      in if \<not> en_image_alloc en then (False, [], e)
      else write_header en (e\<lparr>ep_planes := Some [], ep_sws_ctx := False\<rparr>))"

text \<open>The rows of the planes, copied one by one from the contiguous data of the frame.\<close>

definition plane_rows :: "nat \<Rightarrow> nat \<Rightarrow> bytes \<Rightarrow> bytes list" where
  "plane_rows width height data = map (\<lambda>y. take width (drop (y * width) data)) [0..<height]"

definition frame_sizes :: "frame \<Rightarrow> nat \<times> nat" where
  "frame_sizes f = (nat (fr_width f * fr_height f), nat ((fr_width f sdiv 2) * (fr_height f sdiv 2)))"

definition copy_planes :: "frame \<Rightarrow> bytes list list" where
  "copy_planes f =
     (let (y_size, uv_size) = frame_sizes f; w = nat (fr_width f); h = nat (fr_height f)
      in [plane_rows w h (fr_data f),
          plane_rows (w div 2) (h div 2) (drop y_size (fr_data f)),
          plane_rows (w div 2) (h div 2) (drop (y_size + uv_size) (fr_data f))])"

text \<open>Draining a full encoder: at most five packets, with the time stamps the encoder gave them.\<close>

fun drain_loop :: "(int \<Rightarrow> rational \<Rightarrow> rational \<Rightarrow> int) \<Rightarrow> encode_env \<Rightarrow> int \<Rightarrow> nat \<Rightarrow> nat \<Rightarrow> encoder
    \<Rightarrow> av_packet list \<times> bytes list \<times> encoder" where
  "drain_loop rescale_q en den 0 i e = ([], [], e)"
| "drain_loop rescale_q en den (Suc left) i e =
     (case en_drain en i of
        Received ev \<Rightarrow>
          let p = rescale_packet rescale_q den (pe_packet ev);
              (calls, e) = mux_blocks (en_pcr_clk en) (en_clk en i) (pe_blocks ev) e
          in if pe_write ev = AvAgain then ([p], calls, e)
             else let (ps, later, e) = drain_loop rescale_q en den left (Suc i) e
                  in (p # ps, calls @ later, e)
      | _ \<Rightarrow> ([], [], e))"

fun receive_loop :: "(int \<Rightarrow> rational \<Rightarrow> rational \<Rightarrow> int) \<Rightarrow> encode_env \<Rightarrow> int \<Rightarrow> nat \<Rightarrow> nat \<Rightarrow> encoder
    \<Rightarrow> bool \<times> av_packet list \<times> bytes list \<times> encoder" where
  "receive_loop rescale_q en den 0 i e = (True, [], [], e)"
| "receive_loop rescale_q en den (Suc left) i e =
     (case en_receive en i of
        ReceiveAgain \<Rightarrow> (True, [], [], e)
      | ReceiveEof \<Rightarrow> (True, [], [], e)
      | ReceiveError \<Rightarrow> (False, [], [], e)
      | Received ev \<Rightarrow>
          let (p, e) = stamp_packet (rescale_packet rescale_q den (pe_packet ev)) e;
              e = e\<lparr>ep_last_packet_time_us := en_clk en i\<rparr>;
              (calls, e) = mux_blocks (en_pcr_clk en) (en_clk en i) (pe_blocks ev) e
          in if pe_write ev = AvAgain then (True, [p], calls, e)
             else let (ok, ps, later, e) = receive_loop rescale_q en den left (Suc i) e
                  in (ok, p # ps, calls @ later, e))"

definition max_drain_attempts :: nat where "max_drain_attempts = 5"
definition max_packets_per_frame :: nat where "max_packets_per_frame = 10"

datatype encode_result = Encoded bool | NullAccess

text \<open>What encoding a frame does: its result, the packets drained, the packets received, the calls of the callback.\<close>

record encode_output =
  eo_result :: encode_result
  eo_drained :: "av_packet list"
  eo_packets :: "av_packet list"
  eo_calls :: "bytes list"

definition encode_output_of :: "encode_result \<Rightarrow> bytes list \<Rightarrow> encode_output" where
  "encode_output_of r calls = \<lparr>eo_result = r, eo_drained = [], eo_packets = [], eo_calls = calls\<rparr>"

definition send_frame :: "(int \<Rightarrow> rational \<Rightarrow> rational \<Rightarrow> int) \<Rightarrow> encode_env \<Rightarrow> int \<Rightarrow> encoder \<Rightarrow> encode_output \<times> encoder" where
  "send_frame rescale_q en den e =
     (if en_send en = AvOk
      then let (ok, ps, calls, e) = receive_loop rescale_q en den max_packets_per_frame 0 e
           in ((encode_output_of (Encoded ok) calls)\<lparr>eo_packets := ps\<rparr>, e)
      else if en_send en = AvAgain
      then let (drained, dcalls, e) = drain_loop rescale_q en den max_drain_attempts 0 e
           in if en_resend en = AvAgain then ((encode_output_of (Encoded True) dcalls)\<lparr>eo_drained := drained\<rparr>, e)
              else if en_resend en \<noteq> AvOk then ((encode_output_of (Encoded False) dcalls)\<lparr>eo_drained := drained\<rparr>, e)
              else let (ok, ps, calls, e) = receive_loop rescale_q en den max_packets_per_frame 0 e
                   in ((encode_output_of (Encoded ok) (dcalls @ calls))\<lparr>eo_drained := drained, eo_packets := ps\<rparr>, e)
      else (encode_output_of (Encoded False) [], e))"

definition encode_planes :: "(int \<Rightarrow> rational \<Rightarrow> rational \<Rightarrow> int) \<Rightarrow> encode_env \<Rightarrow> frame \<Rightarrow> int \<Rightarrow> bytes list
    \<Rightarrow> encoder \<Rightarrow> encode_output \<times> encoder" where
  "encode_planes rescale_q en f pts90k calls e =
     (let (y_size, uv_size) = frame_sizes f
      in if length (fr_data f) < y_size + 2 * uv_size then (encode_output_of (Encoded False) calls, e)
      else case ep_codec_ctx e of
        None \<Rightarrow> (encode_output_of NullAccess calls, e)
      | Some cx \<Rightarrow>
          if ep_planes e = None \<and> 0 < fr_height f then (encode_output_of NullAccess calls, e)
          else let e = e\<lparr>ep_planes := map_option (\<lambda>_. copy_planes f) (ep_planes e),
                         ep_frame_pts := rescale_q pts90k (1, 90000) (1, cx_time_base_den cx)\<rparr>;
                   (out, e) = send_frame rescale_q en (cx_time_base_den cx) e
               in (out\<lparr>eo_calls := calls @ eo_calls out\<rparr>, e))"

definition Ep_encodeFrame :: "(int \<Rightarrow> rational \<Rightarrow> rational \<Rightarrow> int) \<Rightarrow> encode_env \<Rightarrow> frame \<Rightarrow> int
    \<Rightarrow> encoder \<Rightarrow> encode_output \<times> encoder" where
  "Ep_encodeFrame rescale_q en f pts90k e =
     (if \<not> ep_initialized e then (encode_output_of (Encoded False) [], e)
      else if sc_stub_mode (ep_config e) then (encode_output_of (Encoded True) [], e)
      else case ep_codec_ctx e of
        None \<Rightarrow> (encode_output_of NullAccess [], e)
      | Some cx \<Rightarrow>
          if needs_codec cx f
          then let (ok, calls, e) = prepare_codec en f cx e
               in if \<not> ok then (encode_output_of (Encoded False) calls, e)
                  else encode_planes rescale_q en f pts90k calls e
          else encode_planes rescale_q en f pts90k [] e)"

section \<open>Sessions\<close>

text \<open>The calls a sink makes, in any order: the configuration given to \<open>open\<close> is the encoder's own.\<close>

datatype encoder_op =
    OpOpen close_env open_env bool bool
  | OpEncode encode_env frame int
  | OpClose close_env

fun encoder_step :: "(int \<Rightarrow> rational \<Rightarrow> rational \<Rightarrow> int) \<Rightarrow> encoder_op \<Rightarrow> encoder
    \<Rightarrow> (av_packet list \<times> bytes list \<times> encoder) option" where
  "encoder_step rescale_q (OpOpen ce oe opaque callback) e =
     map_option (\<lambda>(_, e). ([], [], e)) (Ep_open rescale_q ce oe (ep_config e) opaque callback e)"
| "encoder_step rescale_q (OpEncode en f pts90k) e =
     (let (out, e) = Ep_encodeFrame rescale_q en f pts90k e in Some (eo_packets out, eo_calls out, e))"
| "encoder_step rescale_q (OpClose ce) e = Ep_close rescale_q ce e"

fun encoder_run :: "(int \<Rightarrow> rational \<Rightarrow> rational \<Rightarrow> int) \<Rightarrow> encoder_op list \<Rightarrow> encoder
    \<Rightarrow> (av_packet list \<times> bytes list \<times> encoder) option" where
  "encoder_run rescale_q [] e = Some ([], [], e)"
| "encoder_run rescale_q (op # ops) e =
     (case encoder_step rescale_q op e of None \<Rightarrow> None
      | Some (ps, calls, e) \<Rightarrow>
          (case encoder_run rescale_q ops e of None \<Rightarrow> None
           | Some (ps', calls', e) \<Rightarrow> Some (ps @ ps', calls @ calls', e)))"

section \<open>What the operations keep\<close>

text \<open>Writing changes nothing of the encoder itself.\<close>

lemma same_rest_fields:
  fixes e e' :: encoder
  assumes "same_rest e e'"
  shows "ep_config e' = ep_config e" "ep_initialized e' = ep_initialized e" "ep_codec_ctx e' = ep_codec_ctx e"
    "ep_format_ctx e' = ep_format_ctx e" "ep_video_stream e' = ep_video_stream e" "ep_frame e' = ep_frame e"
    "ep_planes e' = ep_planes e" "ep_input_frame e' = ep_input_frame e" "ep_packet e' = ep_packet e"
    "ep_header_written e' = ep_header_written e" "ep_custom_avio_ctx e' = ep_custom_avio_ctx e"
    "ep_muxer_opts e' = ep_muxer_opts e" "ep_last_pts_90k e' = ep_last_pts_90k e"
    "ep_last_dts_90k e' = ep_last_dts_90k e" "ep_last_pts_valid e' = ep_last_pts_valid e"
    "ep_last_dts_valid e' = ep_last_dts_valid e" "tt_avio_write_callback e' = tt_avio_write_callback e"
    "tt_avio_opaque e' = tt_avio_opaque e"
  using assms by (cases e; cases e'; simp add: same_rest_def)+

lemma mux_blocks_keeps: "mux_blocks clk now blocks e = (calls, e') \<Longrightarrow> same_rest e e' \<and> whole_packets calls"
  using write_blocks_keeps [of clk now blocks e calls e'] by (auto simp: mux_blocks_def split: if_splits)

text \<open>
  Handles: what an encoder that has been opened owns. \<open>core\<close> is what every step of encoding keeps.
\<close>

definition core :: "encoder \<Rightarrow> sink_config \<times> bool \<times> bool \<times> bool \<times> bool \<times> bool \<times> bool \<times> bool" where
  "core e = (ep_config e, ep_initialized e, ep_format_ctx e, ep_video_stream e, ep_frame e, ep_input_frame e, ep_packet e,
     tt_avio_callback e)"

definition encoder_wf :: "encoder \<Rightarrow> bool" where
  "encoder_wf e \<longleftrightarrow> (ep_initialized e \<and> \<not> sc_stub_mode (ep_config e) \<longrightarrow>
     ep_format_ctx e \<and> ep_video_stream e \<and> ep_frame e \<and> ep_input_frame e \<and> ep_packet e \<and> ep_codec_ctx e \<noteq> None)"

lemma encoder_wf_cong:
  "core e' = core e \<Longrightarrow> ep_codec_ctx e \<noteq> None \<longrightarrow> ep_codec_ctx e' \<noteq> None \<Longrightarrow> encoder_wf e \<Longrightarrow> encoder_wf e'"
  by (auto simp: encoder_wf_def core_def)

text \<open>\<open>same_handles\<close>: nothing but time stamps and the tracker differs.\<close>

definition same_handles :: "encoder \<Rightarrow> encoder \<Rightarrow> bool" where
  "same_handles e e' \<longleftrightarrow> core e' = core e \<and> ep_codec_ctx e' = ep_codec_ctx e \<and> ep_planes e' = ep_planes e
     \<and> ep_header_written e' = ep_header_written e \<and> ep_custom_avio_ctx e' = ep_custom_avio_ctx e
     \<and> ep_muxer_opts e' = ep_muxer_opts e \<and> tt_avio_write_callback e' = tt_avio_write_callback e
     \<and> tt_avio_opaque e' = tt_avio_opaque e"

lemma same_handles_refl [simp]: "same_handles e e"
  by (simp add: same_handles_def)

lemma same_handles_trans: "same_handles e u \<Longrightarrow> same_handles u e' \<Longrightarrow> same_handles e e'"
  by (simp add: same_handles_def)

lemma same_handles_codec: "same_handles e e' \<Longrightarrow> ep_codec_ctx e' = ep_codec_ctx e"
  by (simp add: same_handles_def)

lemma same_handles_wf: "same_handles e e' \<Longrightarrow> encoder_wf e \<Longrightarrow> encoder_wf e'"
  by (simp add: same_handles_def encoder_wf_cong)

lemma enforce_same_handles:
  "enforce_pts p e = (p', e') \<Longrightarrow> same_handles e e'" "enforce_dts p e = (p', e') \<Longrightarrow> same_handles e e'"
  by (auto simp: enforce_pts_def enforce_dts_def same_handles_def core_def Let_def split: option.splits)

lemma stamp_packet_same_handles: "stamp_packet p e = (p', e') \<Longrightarrow> same_handles e e'"
  by (auto simp: stamp_packet_def intro: same_handles_trans enforce_same_handles split: prod.splits)

section \<open>Time stamps\<close>

definition stamps_ok :: "encoder \<Rightarrow> bool" where
  "stamps_ok e \<longleftrightarrow> (ep_last_dts_valid e \<longrightarrow> ep_last_pts_valid e \<and> ep_last_dts_90k e \<le> ep_last_pts_90k e)"

definition pts_of :: "av_packet list \<Rightarrow> int list" where
  "pts_of ps = concat (map (\<lambda>p. case pk_pts p of None \<Rightarrow> [] | Some t \<Rightarrow> [t]) ps)"

definition dts_of :: "av_packet list \<Rightarrow> int list" where
  "dts_of ps = concat (map (\<lambda>p. case pk_dts p of None \<Rightarrow> [] | Some t \<Rightarrow> [t]) ps)"

definition all_pts :: "av_packet list \<Rightarrow> bool" where
  "all_pts ps \<longleftrightarrow> (\<forall>p \<in> set ps. pk_pts p \<noteq> None)"

lemma stamp_lists [simp]:
  "pts_of [] = []" "dts_of [] = []" "all_pts []"
  "pts_of (p # ps) = (case pk_pts p of None \<Rightarrow> [] | Some t \<Rightarrow> [t]) @ pts_of ps"
  "dts_of (p # ps) = (case pk_dts p of None \<Rightarrow> [] | Some t \<Rightarrow> [t]) @ dts_of ps"
  "all_pts (p # ps) \<longleftrightarrow> pk_pts p \<noteq> None \<and> all_pts ps"
  "pts_of (ps @ qs) = pts_of ps @ pts_of qs" "dts_of (ps @ qs) = dts_of ps @ dts_of qs"
  "all_pts (ps @ qs) \<longleftrightarrow> all_pts ps \<and> all_pts qs"
  by (auto simp: pts_of_def dts_of_def all_pts_def)

text \<open>
  \<open>rising a ts b\<close>: the stamps \<open>ts\<close> rise strictly from the last one before them, \<open>a\<close>, and the last one is
  then \<open>b\<close>. \<open>stamped e ps e'\<close>: giving out the packets \<open>ps\<close> leads from \<open>e\<close> to \<open>e'\<close> with presentation
  stamps rising, and, as long as every packet has a presentation stamp, with decoding stamps rising and
  never after it.
\<close>

fun rising :: "int option \<Rightarrow> int list \<Rightarrow> int option \<Rightarrow> bool" where
  "rising a [] b \<longleftrightarrow> a = b"
| "rising a (t # ts) b \<longleftrightarrow> (\<forall>s \<in> set_option a. s < t) \<and> rising (Some t) ts b"

lemma rising_append: "rising a ts b \<Longrightarrow> rising b us c \<Longrightarrow> rising a (ts @ us) c"
  by (induction ts arbitrary: a) auto


definition last_pts :: "encoder \<Rightarrow> int option" where
  "last_pts e = (if ep_last_pts_valid e then Some (ep_last_pts_90k e) else None)"

definition last_dts :: "encoder \<Rightarrow> int option" where
  "last_dts e = (if ep_last_dts_valid e then Some (ep_last_dts_90k e) else None)"

definition dts_before_pts :: "av_packet \<Rightarrow> bool" where
  "dts_before_pts p \<longleftrightarrow> (\<forall>d \<in> set_option (pk_dts p). \<forall>t \<in> set_option (pk_pts p). d \<le> t)"

definition stamped :: "encoder \<Rightarrow> av_packet list \<Rightarrow> encoder \<Rightarrow> bool" where
  "stamped e ps e' \<longleftrightarrow> rising (last_pts e) (pts_of ps) (last_pts e')
     \<and> (stamps_ok e \<and> all_pts ps \<longrightarrow>
          stamps_ok e' \<and> rising (last_dts e) (dts_of ps) (last_dts e') \<and> (\<forall>p \<in> set ps. dts_before_pts p))"

lemma stamped_append: "stamped e ps u \<Longrightarrow> stamped u qs e' \<Longrightarrow> stamped e (ps @ qs) e'"
  by (auto simp: stamped_def intro: rising_append)

lemma stamped_Cons: "stamped e [p] u \<Longrightarrow> stamped u ps e' \<Longrightarrow> stamped e (p # ps) e'"
  using stamped_append [of e "[p]" u ps e'] by simp

definition same_stamps :: "encoder \<Rightarrow> encoder \<Rightarrow> bool" where
  "same_stamps e e' \<longleftrightarrow> ep_last_pts_90k e' = ep_last_pts_90k e \<and> ep_last_dts_90k e' = ep_last_dts_90k e
     \<and> ep_last_pts_valid e' = ep_last_pts_valid e \<and> ep_last_dts_valid e' = ep_last_dts_valid e"

lemma same_stamps_stamped: "same_stamps e e' \<Longrightarrow> stamped e [] e'"
  by (simp add: same_stamps_def stamped_def last_pts_def last_dts_def stamps_ok_def)

lemma stamped_same: "stamped e ps u \<Longrightarrow> same_stamps u e' \<Longrightarrow> stamped e ps e'"
  using stamped_append [of e ps u "[]" e'] same_stamps_stamped by simp

lemma same_stamped: "same_stamps e u \<Longrightarrow> stamped u ps e' \<Longrightarrow> stamped e ps e'"
  using stamped_append [of e "[]" u ps e'] same_stamps_stamped by simp

lemma stamp_packet_stamped:
  assumes "stamp_packet p e = (p', e')"
  shows "stamped e [p'] e'"
proof -
  obtain q u where q: "enforce_pts p e = (q, u)" by fastforce
  then have d: "enforce_dts q u = (p', e')" using assms by (simp add: stamp_packet_def)
  have pts: "rising (last_pts e) (pts_of [q]) (last_pts u) \<and> last_dts u = last_dts e
      \<and> (stamps_ok e \<and> pk_pts q \<noteq> None \<longrightarrow> stamps_ok u \<and> ep_last_pts_valid u \<and> pk_pts q = Some (ep_last_pts_90k u)
           \<and> (ep_last_dts_valid u \<longrightarrow> ep_last_dts_90k u < ep_last_pts_90k u))"
    using q by (auto simp: enforce_pts_def last_pts_def last_dts_def stamps_ok_def Let_def split: option.splits if_splits)
  have dts: "pk_pts p' = pk_pts q \<and> last_pts e' = last_pts u"
    using d by (auto simp: enforce_dts_def last_pts_def Let_def split: option.splits)
  have "stamps_ok e' \<and> rising (last_dts u) (dts_of [p']) (last_dts e') \<and> dts_before_pts p'"
    if ok: "stamps_ok e" and some: "pk_pts p' \<noteq> None"
  proof -
    from pts dts ok some have u: "stamps_ok u" "ep_last_pts_valid u" "pk_pts q = Some (ep_last_pts_90k u)"
      "ep_last_dts_valid u \<Longrightarrow> ep_last_dts_90k u < ep_last_pts_90k u" by simp_all
    show ?thesis
    proof (cases "pk_dts q")
      case None
      then have "p' = q" "e' = u" using d by (auto simp: enforce_dts_def)
      with None u(1) show ?thesis by (simp add: dts_before_pts_def)
    next
      case (Some dts_90k)
      define m where "m = not_after_pts q dts_90k"
      define n where "n = (if ep_last_dts_valid u \<and> m \<le> ep_last_dts_90k u
        then not_after_pts q (ep_last_dts_90k u + 1) else m)"
      have "(p', e') = (q\<lparr>pk_dts := Some n\<rparr>, u\<lparr>ep_last_dts_90k := n, ep_last_dts_valid := True\<rparr>)"
        using d Some by (simp only: enforce_dts_def option.case Let_def n_def m_def)
      then have n: "p' = q\<lparr>pk_dts := Some n\<rparr>" "e' = u\<lparr>ep_last_dts_90k := n, ep_last_dts_valid := True\<rparr>"
        by simp_all
      have "n \<le> ep_last_pts_90k u" "ep_last_dts_valid u \<Longrightarrow> ep_last_dts_90k u < n"
        using u(3,4) by (auto simp: n_def m_def not_after_pts_def)
      with n u show ?thesis
        by (simp add: last_dts_def stamps_ok_def dts_before_pts_def)
    qed
  qed
  with pts dts show ?thesis by (simp add: stamped_def split: option.splits)
qed

lemma same_rest_keeps: "same_rest e e' \<Longrightarrow> same_handles e e' \<and> same_stamps e e'"
  by (simp add: same_handles_def core_def same_stamps_def same_rest_fields)

section \<open>Encoding\<close>

text \<open>
  \<open>emits e ps calls e'\<close>: from \<open>e\<close> to \<open>e'\<close> the packets \<open>ps\<close> were stamped in order and the callback was
  called with the blocks \<open>calls\<close>, all of whole packets.
\<close>

definition emits :: "encoder \<Rightarrow> av_packet list \<Rightarrow> bytes list \<Rightarrow> encoder \<Rightarrow> bool" where
  "emits e ps calls e' \<longleftrightarrow> stamped e ps e' \<and> whole_packets calls"

lemma emits_append: "emits e ps calls u \<Longrightarrow> emits u qs later e' \<Longrightarrow> emits e (ps @ qs) (calls @ later) e'"
  by (auto simp: emits_def intro: stamped_append)

lemma emits_same: "same_stamps e e' \<Longrightarrow> whole_packets calls \<Longrightarrow> emits e [] calls e'"
  by (simp add: emits_def same_stamps_stamped)

lemma emits_refl [simp]: "emits e [] [] e"
  by (simp add: emits_same same_stamps_def)

lemma mux_blocks_emits:
  "mux_blocks clk now blocks e = (calls, e') \<Longrightarrow> emits e [] calls e' \<and> same_handles e e'"
  using mux_blocks_keeps [of clk now blocks e calls e'] same_rest_keeps emits_same by blast

lemma write_flushed_emits:
  "write_flushed rescale_q clk i den ev e = (p, calls, e') \<Longrightarrow> emits e [p] calls e' \<and> same_handles e e'"
proof -
  assume w: "write_flushed rescale_q clk i den ev e = (p, calls, e')"
  obtain q u where q: "stamp_packet (rescale_packet rescale_q den (pe_packet ev)) e = (q, u)" by fastforce
  obtain cs v where m: "mux_blocks clk (clk i) (pe_blocks ev) u = (cs, v)" by fastforce
  have "p = q" "calls = cs" "e' = v" using w q m by (simp_all add: write_flushed_def)
  with stamp_packet_stamped [OF q] stamp_packet_same_handles [OF q] mux_blocks_emits [OF m] show ?thesis
    using stamped_append [of e "[q]" u "[]" v] by (auto simp: emits_def intro: same_handles_trans)
qed

lemma drain_loop_emits:
  "drain_loop rescale_q en den left i e = (ps, calls, e') \<Longrightarrow> emits e [] calls e' \<and> same_handles e e'"
proof (induction left arbitrary: i e ps calls)
  case (Suc left)
  show ?case
  proof (cases "en_drain en i")
    case (Received ev)
    obtain cs u where m: "mux_blocks (en_pcr_clk en) (en_clk en i) (pe_blocks ev) e = (cs, u)" by fastforce
    note here = mux_blocks_emits [OF m]
    show ?thesis
    proof (cases "pe_write ev = AvAgain")
      case True
      with Suc.prems Received m here show ?thesis by simp
    next
      case False
      obtain qs later where l: "drain_loop rescale_q en den left (Suc i) u = (qs, later, e')" "calls = cs @ later"
        using Suc.prems Received m False by (auto split: prod.splits)
      from Suc.IH [OF l(1)] here l(2) show ?thesis
        using emits_append [of e "[]" cs u "[]" later e'] by (auto intro: same_handles_trans)
    qed
  qed (use Suc.prems in simp_all)
qed simp

lemma receive_loop_emits:
  "receive_loop rescale_q en den left i e = (ok, ps, calls, e') \<Longrightarrow> emits e ps calls e' \<and> same_handles e e'"
proof (induction left arbitrary: i e ok ps calls)
  case (Suc left)
  show ?case
  proof (cases "en_receive en i")
    case (Received ev)
    obtain p u where p: "stamp_packet (rescale_packet rescale_q den (pe_packet ev)) e = (p, u)" by fastforce
    let ?u = "u\<lparr>ep_last_packet_time_us := en_clk en i\<rparr>"
    obtain cs v where m: "mux_blocks (en_pcr_clk en) (en_clk en i) (pe_blocks ev) ?u = (cs, v)" by fastforce
    have "same_stamps u ?u" "same_handles u ?u" by (simp_all add: same_stamps_def same_handles_def core_def)
    then have "stamped e [p] ?u" "same_handles e ?u"
      using stamp_packet_stamped [OF p] stamp_packet_same_handles [OF p] stamped_same same_handles_trans by blast+
    then have here: "emits e [p] cs v" "same_handles e v"
      using mux_blocks_emits [OF m] stamped_append [of e "[p]" ?u "[]" v] by (auto simp: emits_def intro: same_handles_trans)
    show ?thesis
    proof (cases "pe_write ev = AvAgain")
      case True
      with Suc.prems Received p m here show ?thesis by simp
    next
      case False
      obtain qs later where l: "receive_loop rescale_q en den left (Suc i) v = (ok, qs, later, e')"
          "ps = p # qs" "calls = cs @ later"
        using Suc.prems Received p m False by (auto split: prod.splits)
      from Suc.IH [OF l(1)] here l(2,3) show ?thesis
        using emits_append [of e "[p]" cs v qs later e'] by (auto intro: same_handles_trans)
    qed
  qed (use Suc.prems in simp_all)
qed simp

lemma send_frame_emits:
  assumes "send_frame rescale_q en den e = (out, e')"
  shows "emits e (eo_packets out) (eo_calls out) e' \<and> same_handles e e' \<and> eo_result out \<noteq> NullAccess"
proof -
  obtain ok ps calls u where r: "receive_loop rescale_q en den max_packets_per_frame 0 e = (ok, ps, calls, u)"
    by (metis prod_cases4)
  obtain drained dcalls v where d: "drain_loop rescale_q en den max_drain_attempts 0 e = (drained, dcalls, v)"
    by (metis prod_cases3)
  obtain ok' ps' calls' w where r': "receive_loop rescale_q en den max_packets_per_frame 0 v = (ok', ps', calls', w)"
    by (metis prod_cases4)
  note facts = receive_loop_emits [OF r] drain_loop_emits [OF d] receive_loop_emits [OF r']
  have both: "emits e ps' (dcalls @ calls') w \<and> same_handles e w"
    using facts emits_append [of e "[]" dcalls v ps' calls' w] same_handles_trans by auto
  show ?thesis
    using assms facts both
    by (simp add: send_frame_def r d r' encode_output_of_def split: if_splits) auto
qed

lemma write_header_emits:
  assumes "write_header en e = (ok, calls, e')"
  shows "emits e [] calls e' \<and> core e' = core e \<and> ep_codec_ctx e' = ep_codec_ctx e \<and> ep_planes e' = ep_planes e
    \<and> (ok \<longleftrightarrow> ep_header_written e')"
proof -
  let ?u = "if \<not> tt_avio_write_callback e \<and> \<not> en_nofile en then e\<lparr>ep_url_avio := True\<rparr> else e"
  obtain cs v where m: "mux_blocks (en_pcr_clk en) (en_clk en 0) (en_header_blocks en) ?u = (cs, v)" by fastforce
  have u: "same_stamps e ?u" "same_handles e ?u" by (simp_all add: same_stamps_def same_handles_def core_def)
  note here = mux_blocks_emits [OF m]
  have hw: "ep_header_written v = ep_header_written e" using here u(2) by (simp add: same_handles_def)
  have v: "emits e [] cs v" "same_handles e v"
    using here same_stamped [OF u(1)] same_handles_trans [OF u(2)] by (simp_all add: emits_def)
  have w: "same_stamps v (v\<lparr>ep_header_written := True\<rparr>)" by (simp add: same_stamps_def)
  have eq: "(ok, calls, e') = (if \<not> tt_avio_write_callback e \<and> \<not> en_nofile en \<and> \<not> en_avio_open en then (False, [], e)
      else if en_write_header en \<noteq> AvOk then (False, cs, v) else (True, cs, v\<lparr>ep_header_written := True\<rparr>))"
    if "\<not> ep_header_written e"
    unfolding assms [symmetric] write_header_def Let_def m prod.case using that by (simp only: if_False)
  consider "ep_header_written e" | "\<not> ep_header_written e" "calls = []" "e' = e" "\<not> ok"
    | "\<not> ep_header_written e" "calls = cs" "e' = v" "\<not> ok"
    | "\<not> ep_header_written e" "calls = cs" "e' = v\<lparr>ep_header_written := True\<rparr>" "ok"
    using eq by (metis prod.inject)
  then show ?thesis
  proof cases
    case 1
    then have "e' = e \<and> calls = [] \<and> ok" using assms by (simp add: write_header_def)
    with 1 show ?thesis by simp
  next
    case 2
    then show ?thesis by simp
  next
    case 3
    with v hw show ?thesis by (simp add: same_handles_def)
  next
    case 4
    have "emits e [] cs (v\<lparr>ep_header_written := True\<rparr>)"
      using v(1) w by (auto simp: emits_def intro: stamped_same)
    with 4 v(2) show ?thesis by (simp add: same_handles_def core_def)
  qed
qed

lemma prepare_codec_emits:
  assumes "prepare_codec en f cx e = (ok, calls, e')"
  shows "emits e [] calls e' \<and> core e' = core e
    \<and> (\<exists>cx'. ep_codec_ctx e' = Some cx' \<and> cx_width cx' = fr_width f \<and> cx_height cx' = fr_height f
           \<and> cx_time_base_den cx' = cx_time_base_den cx)
    \<and> (ok \<longrightarrow> ep_planes e' = Some [] \<and> ep_header_written e')"
proof -
  define u where "u = close_codec cx e"
  define cx1 where "cx1 = (if 0 < cx_width cx \<and> 0 < cx_height cx then cx\<lparr>cx_open := False\<rparr> else cx)\<lparr>cx_width := fr_width f, cx_height := fr_height f\<rparr>"
  define v where "v = u\<lparr>ep_codec_ctx := Some cx1, ep_frame_width := fr_width f, ep_frame_height := fr_height f\<rparr>"
  define w where "w = v\<lparr>ep_codec_ctx := Some (cx1\<lparr>cx_open := True\<rparr>)\<rparr>"
  define x where "x = w\<lparr>ep_planes := Some [], ep_sws_ctx := False\<rparr>"
  have cx1: "cx_width cx1 = fr_width f" "cx_height cx1 = fr_height f" "cx_time_base_den cx1 = cx_time_base_den cx"
    by (simp_all add: cx1_def)
  have stamps: "same_stamps e u" "same_stamps e v" "same_stamps e w" "same_stamps e x"
    by (simp_all add: u_def v_def w_def x_def close_codec_def same_stamps_def Let_def)
  have cores: "core u = core e" "core v = core e" "core w = core e" "core x = core e"
    by (simp_all add: u_def v_def w_def x_def close_codec_def core_def Let_def)
  have "(ok, calls, e') = (if \<not> en_copy_parameters en then (False, [], v)
      else if \<not> en_find_encoder en then (False, [], v) else if \<not> en_open_codec en then (False, [], v)
      else if \<not> en_image_alloc en then (False, [], w) else write_header en x)"
    unfolding assms [symmetric] prepare_codec_def Let_def x_def w_def v_def u_def cx1_def by (rule refl)
  then consider "\<not> ok" "calls = []" "e' = v" | "\<not> ok" "calls = []" "e' = w" | "write_header en x = (ok, calls, e')"
    by (auto split: if_splits)
  then show ?thesis
  proof cases
    case 1
    with stamps cores cx1 show ?thesis by (simp add: emits_same v_def)
  next
    case 2
    with stamps cores cx1 show ?thesis by (simp add: emits_same w_def)
  next
    case 3
    from write_header_emits [OF 3] stamps cores cx1 show ?thesis
      by (auto simp: emits_def x_def w_def intro: same_stamped)
  qed
qed

lemma encode_planes_emits:
  assumes "encode_planes rescale_q en f pts90k calls e = (out, e')" "whole_packets calls"
  shows "emits e (eo_packets out) (eo_calls out) e' \<and> core e' = core e \<and> ep_codec_ctx e' = ep_codec_ctx e
    \<and> (eo_result out = NullAccess \<longrightarrow> ep_codec_ctx e = None \<or> ep_planes e = None \<and> 0 < fr_height f)
    \<and> ep_header_written e' = ep_header_written e
    \<and> (ep_planes e' = None \<longleftrightarrow> ep_planes e = None)"
proof -
  have stop: "eo_packets (encode_output_of r calls) = [] \<and> eo_calls (encode_output_of r calls) = calls
      \<and> eo_result (encode_output_of r calls) = r" for r by (simp add: encode_output_of_def)
  have here: "emits e [] calls e" using assms(2) by (simp add: emits_same same_stamps_def)
  obtain y_size uv_size where sizes: "frame_sizes f = (y_size, uv_size)" by fastforce
  show ?thesis
  proof (cases "length (fr_data f) < y_size + 2 * uv_size \<or> ep_codec_ctx e = None \<or> ep_planes e = None \<and> 0 < fr_height f")
    case True
    with assms(1) have "e' = e \<and> eo_packets out = [] \<and> eo_calls out = calls
      \<and> (eo_result out = NullAccess \<longrightarrow> ep_codec_ctx e = None \<or> ep_planes e = None \<and> 0 < fr_height f)"
      by (auto simp: encode_planes_def sizes encode_output_of_def split: if_splits option.splits)
    with here show ?thesis by simp
  next
    case False
    then obtain cx where cx: "ep_codec_ctx e = Some cx" by (cases "ep_codec_ctx e") auto
    let ?u = "e\<lparr>ep_planes := map_option (\<lambda>_. copy_planes f) (ep_planes e),
                ep_frame_pts := rescale_q pts90k (1, 90000) (1, cx_time_base_den cx)\<rparr>"
    obtain o2 v where s: "send_frame rescale_q en (cx_time_base_den cx) ?u = (o2, v)" by fastforce
    have "out = o2\<lparr>eo_calls := calls @ eo_calls o2\<rparr> \<and> e' = v"
      using assms(1) False cx s by (auto simp: encode_planes_def sizes)
    moreover have "same_stamps e ?u" "core ?u = core e" by (simp_all add: same_stamps_def core_def)
    moreover note send_frame_emits [OF s]
    ultimately show ?thesis using assms(2) by (auto simp: emits_def same_handles_def intro: same_stamped)
  qed
qed

lemma Ep_encodeFrame_emits:
  assumes "Ep_encodeFrame rescale_q en f pts90k e = (out, e')"
  shows "emits e (eo_packets out) (eo_calls out) e' \<and> core e' = core e
    \<and> (ep_codec_ctx e \<noteq> None \<longrightarrow> ep_codec_ctx e' \<noteq> None)
    \<and> (eo_result out = NullAccess \<longrightarrow> ep_codec_ctx e = None
         \<or> (\<exists>cx. ep_codec_ctx e = Some cx \<and> \<not> needs_codec cx f \<and> ep_planes e = None \<and> 0 < fr_height f))"
proof (cases "ep_initialized e \<and> \<not> sc_stub_mode (ep_config e) \<and> ep_codec_ctx e \<noteq> None")
  case False
  with assms show ?thesis
    by (auto simp: Ep_encodeFrame_def encode_output_of_def split: if_splits)
next
  case True
  then obtain cx where cx: "ep_codec_ctx e = Some cx" by blast
  show ?thesis
  proof (cases "needs_codec cx f")
    case needed: True
    obtain ok calls u where p: "prepare_codec en f cx e = (ok, calls, u)" by (metis prod_cases3)
    note here = prepare_codec_emits [OF p]
    then have whole: "whole_packets calls" by (simp add: emits_def)
    show ?thesis
    proof (cases ok)
      case False
      with assms True cx needed p have "out = encode_output_of (Encoded False) calls \<and> e' = u"
        by (auto simp: Ep_encodeFrame_def)
      with here cx show ?thesis by (auto simp: encode_output_of_def)
    next
      case True': True
      with assms True cx needed p have "encode_planes rescale_q en f pts90k calls u = (out, e')"
        by (simp add: Ep_encodeFrame_def)
      from encode_planes_emits [OF this whole] here True' show ?thesis
        using stamped_append [of e "[]" u "eo_packets out" e'] by (auto simp: emits_def)
    qed
  next
    case False
    with assms True cx have "encode_planes rescale_q en f pts90k [] e = (out, e')" by (simp add: Ep_encodeFrame_def)
    from encode_planes_emits [OF this] cx False show ?thesis by auto
  qed
qed

section \<open>Closing and opening\<close>

lemma flush_loop_emits:
  "flush_loop rescale_q ce den i e = Some (ps, calls, e') \<Longrightarrow> emits e ps calls e' \<and> same_handles e e'"
proof (induction rescale_q ce den i e "(ps, calls, e')" arbitrary: ps calls e' rule: flush_loop.raw_induct [rotated 1, consumes 1])
  case (1 loop rescale_q ce den i e ps calls e')
  show ?case
  proof (cases "ce_receive ce i")
    case (Received ev)
    obtain p cs u where w: "write_flushed rescale_q (ce_clk ce) i den ev e = (p, cs, u)" by (metis prod_cases3)
    obtain qs later where l: "loop rescale_q ce den (Suc i) u = Some (qs, later, e')" "ps = p # qs" "calls = cs @ later"
      using "1.hyps"(2) Received w by (auto split: Option.bind_splits)
    note here = write_flushed_emits [OF w] "1.hyps"(1) [OF l(1)]
    then show ?thesis
      using emits_append [of e "[p]" cs u qs later e'] same_handles_trans [of e u e'] l(2,3) by simp
  next
    case ReceiveError
    with 1 show ?thesis by simp
  qed (use 1 in simp_all)
qed

lemma flush_encoder_emits:
  "flush_encoder rescale_q ce e = Some (ps, calls, e') \<Longrightarrow> emits e ps calls e' \<and> same_handles e e'"
  using flush_loop_emits by (auto simp: flush_encoder_def split: option.splits if_splits)

lemma length_pad_packet: "length buffer < ts_packet_size \<Longrightarrow> length (pad_packet buffer) = ts_packet_size"
  by (simp add: pad_packet_def Let_def)

lemma give_whole: "ts_packet_size dvd length data \<Longrightarrow> whole_packets (give e data)"
  by (simp add: give_def)

lemma buffer_rest: "length (drop (complete_packets buffer) buffer) < ts_packet_size"
proof -
  have "length buffer - complete_packets buffer = length buffer mod ts_packet_size"
    by (simp add: complete_packets_def minus_div_mult_eq_mod)
  then show ?thesis by simp
qed

lemma flush_alignment_emits:
  assumes "flush_alignment clk e = (calls, e')"
  shows "same_rest e e' \<and> whole_packets calls \<and> tt_alignment_buffer e' = []"
proof (cases "tt_alignment_buffer e = []")
  case True
  with assms show ?thesis by (simp add: flush_alignment_def)
next
  case False
  define n where "n = complete_packets (tt_alignment_buffer e)"
  obtain whole u where w: "ProcessTSPackets clk 0 (take n (tt_alignment_buffer e)) e = (whole, u)" by fastforce
  define v where "v = u\<lparr>tt_alignment_buffer := drop n (tt_alignment_buffer e)\<rparr>"
  define x where "x = (if 0 < n then v else e)"
  define cs where "cs = (if 0 < n then give u whole else [])"
  have x: "same_rest e x \<and> whole_packets cs \<and> length (tt_alignment_buffer x) < ts_packet_size"
    using ProcessTSPackets_keeps [OF w] processed_whole [OF w [unfolded n_def]] buffer_rest [of "tt_alignment_buffer e"]
    by (auto simp: x_def cs_def v_def n_def same_rest_buffer give_whole)
  obtain last_block y where y: "ProcessTSPackets clk 0 (pad_packet (tt_alignment_buffer x)) x = (last_block, y)" by fastforce
  have "(calls, e') = (if tt_alignment_buffer x = [] then (cs, x)
      else (cs @ give y last_block, y\<lparr>tt_alignment_buffer := []\<rparr>))"
  proof (cases "0 < n")
    case True
    then show ?thesis unfolding assms [symmetric] flush_alignment_def Let_def n_def [symmetric] x_def cs_def
      using False w y by (simp add: v_def x_def)
  next
    case n0: False
    then show ?thesis unfolding assms [symmetric] flush_alignment_def Let_def n_def [symmetric] x_def cs_def
      using False w y by (simp add: x_def)
  qed
  moreover have "same_rest x y \<and> length last_block = ts_packet_size"
    using ProcessTSPackets_keeps [OF y] length_pad_packet x by simp
  ultimately show ?thesis
    using x same_rest_trans [of e x y] by (auto simp: same_rest_buffer give_whole split: if_splits)
qed

lemma length_null_packet: "length null_packet = ts_packet_size"
  by (simp add: null_packet_def ts_packet_size_def)

definition no_handles :: "encoder \<Rightarrow> bool" where
  "no_handles e \<longleftrightarrow> \<not> ep_initialized e \<and> ep_codec_ctx e = None \<and> \<not> ep_format_ctx e \<and> \<not> ep_video_stream e
     \<and> \<not> ep_frame e \<and> ep_planes e = None \<and> \<not> ep_input_frame e \<and> \<not> ep_input_data e \<and> \<not> ep_packet e
     \<and> \<not> ep_sws_ctx e \<and> \<not> ep_header_written e \<and> \<not> ep_muxer_opts e \<and> \<not> ep_custom_avio_ctx e \<and> \<not> ep_url_avio e
     \<and> \<not> tt_avio_callback e \<and> tt_alignment_buffer e = []"

text \<open>What \<open>close\<close> does with an encoder that is open.\<close>

lemma release_handles_stamps: "same_stamps e ((release_handles e)\<lparr>ep_initialized := False\<rparr>)"
  by (simp add: release_handles_def same_stamps_def)

lemma Ep_close_open:
  assumes "Ep_close rescale_q ce e = Some (ps, calls, e')" "ep_initialized e" "\<not> sc_stub_mode (ep_config e)"
  shows "emits e ps calls e' \<and> ep_config e' = ep_config e \<and> no_handles e'
    \<and> (tt_avio_callback e \<longrightarrow> calls \<noteq> [] \<and> last calls = null_packet)"
proof -
  let ?e = "e\<lparr>ep_muxer_opts := False\<rparr>"
  obtain flushed u where u: "flush_encoder rescale_q ce ?e = Some (ps, flushed, u)"
    using assms by (auto simp: Ep_close_def split: option.splits prod.splits)
  obtain trailer v where v: "(if ep_format_ctx u \<and> ep_header_written u
      then mux_blocks (ce_clk ce) (ce_clk ce 0) (ce_trailer_blocks ce) u else ([], u)) = (trailer, v)" by fastforce
  obtain aligned w where w: "flush_alignment (ce_clk ce) v = (aligned, w)" by fastforce
  have result: "calls = flushed @ trailer @ aligned @ final_null_packet w"
      "e' = (release_handles w)\<lparr>ep_initialized := False\<rparr>"
    using assms u v w by (simp_all add: Ep_close_def)
  have "same_stamps e ?e" by (simp add: same_stamps_def)
  then have 1: "emits e ps flushed u" "same_handles ?e u"
    using flush_encoder_emits [OF u] same_stamped [of e ?e] by (simp_all add: emits_def)
  have 2: "emits u [] trailer v" "same_handles u v"
    using v mux_blocks_emits by (auto split: if_splits)
  have 3: "same_rest v w" "whole_packets aligned" "tt_alignment_buffer w = []"
    using flush_alignment_emits [OF w] by simp_all
  then have 4: "emits v [] aligned w" "same_handles v w"
    using same_rest_keeps [OF 3(1)] emits_same by simp_all
  have whole: "whole_packets (final_null_packet w)" by (simp add: final_null_packet_def give_def length_null_packet)
  have "emits w [] (final_null_packet w) e'"
    unfolding result by (rule emits_same [OF release_handles_stamps whole])
  then have "emits e (ps @ [] @ [] @ []) calls e'"
    unfolding result(1) using 1(1) 2(1) 4(1) by (intro emits_append)
  moreover have "same_handles ?e w" using 1(2) 2(2) 4(2) same_handles_trans by blast
  ultimately show ?thesis using 3(3) result
    by (simp add: no_handles_def release_handles_def same_handles_def core_def final_null_packet_def give_def)
qed

lemma Ep_close_step:
  assumes "Ep_close rescale_q ce e = Some (ps, calls, e')"
  shows "emits e ps calls e' \<and> ep_config e' = ep_config e \<and> \<not> ep_initialized e'"
proof (cases "ep_initialized e \<and> \<not> sc_stub_mode (ep_config e)")
  case True
  with Ep_close_open [OF assms] show ?thesis by (simp add: no_handles_def)
next
  case False
  with assms show ?thesis by (auto simp: Ep_close_def emits_same same_stamps_def split: if_splits)
qed

lemma open_failed_eq: "\<not> ep_initialized e \<Longrightarrow> open_failed rescale_q ce e = Some (False, e)"
  by (simp add: open_failed_def Ep_close_def)

lemma open_codec_cases:
  assumes "open_codec rescale_q ce oe config e = Some (ok, e')" "\<not> ep_initialized e"
  shows "same_stamps e e' \<and> ep_config e' = ep_config e \<and> ep_format_ctx e' = ep_format_ctx e
    \<and> ep_muxer_opts e' = ep_muxer_opts e
    \<and> (if ok then ep_initialized e' \<and> ep_video_stream e' \<and> ep_frame e' \<and> ep_input_frame e' \<and> ep_packet e'
          \<and> ep_codec_ctx e' = Some (new_codec_context config) \<and> ep_planes e' = None
       else \<not> ep_initialized e')"
  using assms by (simp add: open_codec_def open_failed_eq Let_def same_stamps_def split: if_splits) auto

lemma Ep_open_cases:
  assumes "Ep_open rescale_q ce oe config opaque callback e = Some (ok, e')" "\<not> ep_initialized e" "\<not> sc_stub_mode config"
  shows "same_stamps e e' \<and> ep_config e' = ep_config e
    \<and> (oe_alloc_output_context oe \<longrightarrow> ep_format_ctx e' \<and> ep_muxer_opts e')
    \<and> (if ok then ep_initialized e' \<and> ep_format_ctx e' \<and> ep_video_stream e' \<and> ep_frame e' \<and> ep_input_frame e'
          \<and> ep_packet e' \<and> ep_codec_ctx e' = Some (new_codec_context config) \<and> ep_planes e' = None
       else \<not> ep_initialized e')"
proof -
  define u where "u = e\<lparr>tt_continuity_counters := Map.empty, tt_continuity_corrections := 0,
    tt_test_counters := Map.empty, tt_test_packets := 0, tt_test_mismatches := 0,
    tt_test_pid_packets := Map.empty, tt_test_pid_mismatches := Map.empty,
    tt_avio_opaque := opaque, tt_avio_write_callback := callback\<rparr>"
  define v where "v = u\<lparr>ep_format_ctx := True, ep_muxer_opts := True\<rparr>"
  have uv: "same_stamps e u" "same_stamps e v" "ep_config u = ep_config e" "ep_config v = ep_config e"
    "\<not> ep_initialized u" "\<not> ep_initialized v" "ep_format_ctx v" "ep_muxer_opts v" "tt_avio_write_callback v = callback"
    using assms(2) by (simp_all add: u_def v_def same_stamps_def)
  have eq: "Some (ok, e') =
      (if \<not> oe_alloc_output_context oe then Some (False, u\<lparr>ep_format_ctx := False\<rparr>)
       else if callback
         then if \<not> oe_alloc_buffer oe then open_failed rescale_q ce v
              else if \<not> oe_alloc_avio oe then open_failed rescale_q ce (v\<lparr>ep_custom_avio_ctx := False\<rparr>)
              else open_codec rescale_q ce oe config (v\<lparr>ep_custom_avio_ctx := True\<rparr>)
         else open_codec rescale_q ce oe config v)"
    unfolding assms(1) [symmetric] Ep_open_def u_def [symmetric] Let_def v_def [symmetric]
    using assms(2,3) uv(9) by simp
  have failed: "open_failed rescale_q ce v = Some (False, v)"
    "open_failed rescale_q ce (v\<lparr>ep_custom_avio_ctx := False\<rparr>) = Some (False, v\<lparr>ep_custom_avio_ctx := False\<rparr>)"
    using uv(6) by (simp_all add: open_failed_eq)
  have "e' = u\<lparr>ep_format_ctx := False\<rparr> \<and> \<not> ok \<and> \<not> oe_alloc_output_context oe
     \<or> (e' = v \<or> e' = v\<lparr>ep_custom_avio_ctx := False\<rparr>) \<and> \<not> ok
     \<or> open_codec rescale_q ce oe config (v\<lparr>ep_custom_avio_ctx := True\<rparr>) = Some (ok, e')
     \<or> open_codec rescale_q ce oe config v = Some (ok, e')"
    using eq unfolding failed by (metis option.inject prod.inject)
  then show ?thesis
  proof (elim disjE)
    assume "e' = u\<lparr>ep_format_ctx := False\<rparr> \<and> \<not> ok \<and> \<not> oe_alloc_output_context oe"
    with uv show ?thesis by (simp add: same_stamps_def)
  next
    assume "(e' = v \<or> e' = v\<lparr>ep_custom_avio_ctx := False\<rparr>) \<and> \<not> ok"
    with uv show ?thesis by (auto simp: same_stamps_def)
  next
    assume "open_codec rescale_q ce oe config (v\<lparr>ep_custom_avio_ctx := True\<rparr>) = Some (ok, e')"
    from open_codec_cases [OF this] uv show ?thesis by (simp add: same_stamps_def)
  next
    assume "open_codec rescale_q ce oe config v = Some (ok, e')"
    from open_codec_cases [OF this] uv show ?thesis by (simp add: same_stamps_def)
  qed
qed

lemma Ep_open_step:
  assumes "Ep_open rescale_q ce oe (ep_config e) opaque callback e = Some (ok, e')"
  shows "same_stamps e e' \<and> ep_config e' = ep_config e \<and> (encoder_wf e \<longrightarrow> encoder_wf e')"
proof (cases "ep_initialized e \<or> sc_stub_mode (ep_config e)")
  case True
  then have "e' = e \<or> e' = e\<lparr>ep_initialized := True\<rparr> \<and> sc_stub_mode (ep_config e)"
    using assms by (cases "ep_initialized e") (simp_all add: Ep_open_def)
  then show ?thesis by (auto simp: same_stamps_def encoder_wf_def)
next
  case False
  with Ep_open_cases [OF assms] show ?thesis by (auto simp: encoder_wf_def split: if_splits)
qed

lemma encoder_step_emits:
  assumes "encoder_step rescale_q op e = Some (ps, calls, e')" "encoder_wf e"
  shows "emits e ps calls e' \<and> encoder_wf e' \<and> ep_config e' = ep_config e"
proof (cases op)
  case (OpOpen ce oe opaque callback)
  then obtain ok where "Ep_open rescale_q ce oe (ep_config e) opaque callback e = Some (ok, e')" "ps = []" "calls = []"
    using assms(1) by auto
  with Ep_open_step [OF this(1)] assms(2) show ?thesis by (simp add: emits_same)
next
  case (OpEncode en f pts90k)
  then obtain out where "Ep_encodeFrame rescale_q en f pts90k e = (out, e')" "ps = eo_packets out" "calls = eo_calls out"
    using assms(1) by (auto split: prod.splits)
  with Ep_encodeFrame_emits [OF this(1)] assms(2) show ?thesis
    using encoder_wf_cong [of e' e] by (auto simp: core_def)
next
  case (OpClose ce)
  with assms(1) Ep_close_step [of rescale_q ce e ps calls e'] show ?thesis by (simp add: encoder_wf_def)
qed

lemma encoder_run_emits:
  "encoder_run rescale_q ops e = Some (ps, calls, e') \<Longrightarrow> encoder_wf e
     \<Longrightarrow> emits e ps calls e' \<and> encoder_wf e' \<and> ep_config e' = ep_config e"
proof (induction ops arbitrary: e ps calls)
  case (Cons op ops)
  obtain qs cs u where s: "encoder_step rescale_q op e = Some (qs, cs, u)"
    using Cons.prems(1) by (auto split: option.splits)
  then obtain qs' cs' where r: "encoder_run rescale_q ops u = Some (qs', cs', e')" "ps = qs @ qs'" "calls = cs @ cs'"
    using Cons.prems(1) by (auto split: option.splits)
  from encoder_step_emits [OF s Cons.prems(2)] Cons.IH [OF r(1)] r(2,3) show ?case
    using emits_append by auto
qed simp

section \<open>Properties\<close>

text \<open>The encoder just built owns nothing.\<close>

lemma EncoderPipeline_start: "encoder_wf (EncoderPipeline config) \<and> stamps_ok (EncoderPipeline config)
    \<and> last_pts (EncoderPipeline config) = None \<and> last_dts (EncoderPipeline config) = None
    \<and> ep_config (EncoderPipeline config) = config"
  by (simp add: EncoderPipeline_def encoder_wf_def stamps_ok_def last_pts_def last_dts_def)


text \<open>An environment in which every call succeeds, and a frame of two by two.\<close>

definition good_open :: open_env where
  "good_open = \<lparr>oe_alloc_output_context = True, oe_alloc_buffer = True, oe_alloc_avio = True,
     oe_find_encoder = True, oe_new_stream = True, oe_alloc_codec = True, oe_copy_parameters = True,
     oe_alloc_frame = True, oe_alloc_input_frame = True, oe_alloc_packet = True\<rparr>"

definition answers :: "receive_result list \<Rightarrow> nat \<Rightarrow> receive_result" where
  "answers rs i = (if i < length rs then rs ! i else ReceiveAgain)"

definition packet_at :: "int \<Rightarrow> packet_event" where
  "packet_at t = \<lparr>pe_packet = \<lparr>pk_pts = Some t, pk_dts = Some t\<rparr>, pe_write = AvOk, pe_blocks = []\<rparr>"

definition good_encode :: "receive_result list \<Rightarrow> encode_env" where
  "good_encode rs = \<lparr>en_copy_parameters = True, en_find_encoder = True, en_open_codec = True,
     en_image_alloc = True, en_nofile = False, en_avio_open = True, en_write_header = AvOk,
     en_header_blocks = [], en_send = AvOk, en_drain = answers [], en_resend = AvOk,
     en_receive = answers rs, en_clk = (\<lambda>_. 0), en_pcr_clk = (\<lambda>_. 0)\<rparr>"

definition quiet_close :: close_env where
  "quiet_close = \<lparr>ce_receive = answers [], ce_trailer_blocks = [], ce_clk = (\<lambda>_. 0)\<rparr>"

definition small_frame :: frame where
  "small_frame = \<lparr>fr_metadata = empty_metadata, fr_data = [1, 2, 3, 4, 5, 6], fr_width = 2, fr_height = 2\<rparr>"

definition same_time :: "int \<Rightarrow> rational \<Rightarrow> rational \<Rightarrow> int" where
  "same_time a b c = a"

lemmas session_simps = Ep_open_def open_codec_def good_open_def EncoderPipeline_def new_codec_context_def
  Ep_encodeFrame_def needs_codec_def prepare_codec_def close_codec_def write_header_def mux_blocks_def
  encode_planes_def frame_sizes_def copy_planes_def small_frame_def good_encode_def send_frame_def
  encode_output_of_def answers_def packet_at_def same_time_def rescale_packet_def stamp_packet_def
  enforce_pts_def enforce_dts_def not_after_pts_def max_packets_per_frame_def MpegTSPlayoutSinkConfig_def
  plane_rows_def


text \<open>C24. After any sequence of calls the encoder is either not open or owns every handle that encoding
  uses, the callback has only ever been given whole packets, and encoding a frame cannot use a null
  pointer, except in one state: the frame has the size the codec was last set to and its picture buffer
  is missing.\<close>

theorem encoder_session:
  assumes "encoder_run rescale_q ops (EncoderPipeline config) = Some (ps, calls, e)"
  shows "encoder_wf e \<and> whole_packets calls
    \<and> (eo_result (fst (Ep_encodeFrame rescale_q en f pts90k e)) = NullAccess
         \<longrightarrow> (\<exists>cx. ep_codec_ctx e = Some cx \<and> \<not> needs_codec cx f \<and> ep_planes e = None \<and> 0 < fr_height f))"
proof -
  from encoder_run_emits [OF assms] EncoderPipeline_start have wf: "encoder_wf e" "whole_packets calls"
    by (simp_all add: emits_def)
  obtain out e' where out: "Ep_encodeFrame rescale_q en f pts90k e = (out, e')" by fastforce
  have "eo_result out = NullAccess \<Longrightarrow> ep_codec_ctx e \<noteq> None"
    using wf(1) out by (auto simp: Ep_encodeFrame_def encoder_wf_def encode_output_of_def split: if_splits)
  with wf out Ep_encodeFrame_emits [OF out] show ?thesis by auto
qed

theorem encoder_session_witness:
  "\<exists>ps calls e. encoder_run same_time [OpOpen quiet_close good_open True True] (EncoderPipeline MpegTSPlayoutSinkConfig)
      = Some (ps, calls, e)
    \<and> ep_initialized e \<and> encoder_wf e
    \<and> eo_result (fst (Ep_encodeFrame same_time (good_encode []) small_frame 0 e)) \<noteq> NullAccess"
proof -
  obtain ps calls e where r: "encoder_run same_time [OpOpen quiet_close good_open True True]
      (EncoderPipeline MpegTSPlayoutSinkConfig) = Some (ps, calls, e)"
    by (simp add: session_simps)
  then have "ep_initialized e" "ep_codec_ctx e = Some (new_codec_context MpegTSPlayoutSinkConfig)"
    by (auto simp: session_simps)
  with r encoder_session [OF r, of "good_encode []" small_frame 0] show ?thesis
    by (auto simp: needs_codec_def new_codec_context_def)
qed

text \<open>Closing an open encoder releases every handle and empties the alignment buffer, ends the output with
  a null packet, and has given the callback nothing but whole packets. Where opening has failed half-way
  the handles it got are kept, and closing then does not release them, since the encoder is not open.\<close>

theorem encoder_release:
  "(ep_initialized e \<and> \<not> sc_stub_mode (ep_config e) \<and> Ep_close rescale_q ce e = Some (ps, calls, e')
      \<longrightarrow> no_handles e' \<and> whole_packets calls
          \<and> (tt_avio_callback e \<longrightarrow> calls \<noteq> [] \<and> last calls = null_packet))
    \<and> (\<not> ep_initialized u \<and> \<not> sc_stub_mode (ep_config u) \<and> oe_alloc_output_context oe
       \<and> Ep_open rescale_q ce oe (ep_config u) opaque callback u = Some (False, u')
      \<longrightarrow> ep_format_ctx u' \<and> ep_muxer_opts u' \<and> Ep_close rescale_q ce' u' = Some ([], [], u'))"
proof
  show "ep_initialized e \<and> \<not> sc_stub_mode (ep_config e) \<and> Ep_close rescale_q ce e = Some (ps, calls, e')
      \<longrightarrow> no_handles e' \<and> whole_packets calls \<and> (tt_avio_callback e \<longrightarrow> calls \<noteq> [] \<and> last calls = null_packet)"
    using Ep_close_open [of rescale_q ce e ps calls e'] by (simp add: emits_def)
  show "\<not> ep_initialized u \<and> \<not> sc_stub_mode (ep_config u) \<and> oe_alloc_output_context oe
       \<and> Ep_open rescale_q ce oe (ep_config u) opaque callback u = Some (False, u')
      \<longrightarrow> ep_format_ctx u' \<and> ep_muxer_opts u' \<and> Ep_close rescale_q ce' u' = Some ([], [], u')"
    using Ep_open_cases by (fastforce simp: Ep_close_def)
qed

theorem encoder_release_witness:
  "\<exists>e e' u'. Ep_open same_time quiet_close good_open MpegTSPlayoutSinkConfig True True
        (EncoderPipeline MpegTSPlayoutSinkConfig) = Some (True, e)
     \<and> Ep_close same_time quiet_close e = Some ([], [null_packet], e') \<and> no_handles e'
     \<and> Ep_open same_time quiet_close (good_open\<lparr>oe_find_encoder := False\<rparr>) MpegTSPlayoutSinkConfig True True
         (EncoderPipeline MpegTSPlayoutSinkConfig) = Some (False, u')
     \<and> ep_format_ctx u' \<and> Ep_close same_time quiet_close u' = Some ([], [], u')"
proof -
  let ?c = MpegTSPlayoutSinkConfig
  obtain e where e: "Ep_open same_time quiet_close good_open ?c True True (EncoderPipeline ?c) = Some (True, e)"
    by (simp add: session_simps)
  obtain e' where e': "Ep_close same_time quiet_close e = Some ([], [null_packet], e')"
    using e by (auto simp: session_simps Ep_close_def flush_encoder_def flush_alignment_def final_null_packet_def
      give_def)
  have open_e: "ep_initialized e" "ep_config e = ?c" "\<not> sc_stub_mode ?c"
    using e by (auto simp: session_simps)
  obtain u' where u': "Ep_open same_time quiet_close (good_open\<lparr>oe_find_encoder := False\<rparr>) ?c True True
      (EncoderPipeline ?c) = Some (False, u')"
    by (simp add: session_simps open_failed_def Ep_close_def)
  have fresh: "ep_config (EncoderPipeline ?c) = ?c" "\<not> ep_initialized (EncoderPipeline ?c)"
    by (simp_all add: EncoderPipeline_def)
  from encoder_release [of e same_time quiet_close "[]" "[null_packet]" e' "EncoderPipeline ?c"
      "good_open\<lparr>oe_find_encoder := False\<rparr>" True True u' quiet_close] e e' u' open_e fresh
  show ?thesis by (auto simp: good_open_def)
qed

text \<open>A codec that is not open answers every request with an error, and then the flush goes on for ever.\<close>

lemma flush_loop_never:
  "flush_loop rescale_q ce den i e = Some r \<Longrightarrow> \<forall>j. ce_receive ce j = ReceiveError \<Longrightarrow> False"
  by (induction rescale_q ce den i e r rule: flush_loop.raw_induct [rotated 1, consumes 1]) auto

text \<open>C29. The first frame sets the codec up; what fails there is not tried again. When \<open>avcodec_open2\<close> fails the
  frame is refused, the next frame of that size is copied to a picture buffer that was never made, and
  closing does not return if the codec keeps answering with an error. When the header cannot be written,
  later frames of that size do not write it either.\<close>

theorem first_frame_failure_sticks:
  assumes "Ep_open rescale_q ce oe (ep_config e0) opaque callback e0 = Some (True, e)"
    "\<not> ep_initialized e0" "\<not> sc_stub_mode (ep_config e0)" "0 < fr_width f" "0 < fr_height f"
    "Ep_encodeFrame rescale_q en f pts90k e = (out, e1)"
    "fr_width g = fr_width f" "fr_height g = fr_height f"
    "fst (frame_sizes g) + 2 * snd (frame_sizes g) \<le> length (fr_data g)"
  shows "(en_copy_parameters en \<and> en_find_encoder en \<and> \<not> en_open_codec en \<longrightarrow>
        eo_result out = Encoded False
        \<and> eo_result (fst (Ep_encodeFrame rescale_q en' g pts90k' e1)) = NullAccess
        \<and> ((\<forall>j. ce_receive ce' j = ReceiveError) \<longrightarrow> Ep_close rescale_q ce' e1 = None))
    \<and> (\<not> ep_header_written e1 \<longrightarrow> eo_result out = Encoded False
        \<and> \<not> ep_header_written (snd (Ep_encodeFrame rescale_q en' g pts90k' e1)))"
proof -
  note opened = Ep_open_cases [OF assms(1-3)]
  then have e: "ep_initialized e" "\<not> sc_stub_mode (ep_config e)" "ep_planes e = None"
    using assms(3) by simp_all
  obtain cx where cx: "ep_codec_ctx e = Some cx" "needs_codec cx f" "cx_width cx = 0"
    using opened by (auto simp: needs_codec_def new_codec_context_def)
  obtain ok calls u where p: "prepare_codec en f cx e = (ok, calls, u)" by (metis prod_cases3)
  note prepared = prepare_codec_emits [OF p]
  have first: "if ok then encode_planes rescale_q en f pts90k calls u = (out, e1)
      else out = encode_output_of (Encoded False) calls \<and> e1 = u"
    using assms(6) e cx p by (auto simp: Ep_encodeFrame_def)
  have again: "Ep_encodeFrame rescale_q en' g pts90k' e1 = encode_planes rescale_q en' g pts90k' [] e1" if "e1 = u"
  proof -
    obtain cx' where "ep_codec_ctx u = Some cx'" "\<not> needs_codec cx' g"
      using prepared assms(4,5,7,8) by (auto simp: needs_codec_def)
    with that prepared e show ?thesis by (simp add: Ep_encodeFrame_def core_def)
  qed
  have "eo_result out = Encoded False \<and> eo_result (fst (Ep_encodeFrame rescale_q en' g pts90k' e1)) = NullAccess
      \<and> ((\<forall>j. ce_receive ce' j = ReceiveError) \<longrightarrow> Ep_close rescale_q ce' e1 = None)"
    if fail: "en_copy_parameters en \<and> en_find_encoder en \<and> \<not> en_open_codec en"
  proof -
    have u: "\<not> ok" "ep_planes u = None" using p fail cx(3) e(3) by (auto simp: prepare_codec_def close_codec_def Let_def)
    with first have e1: "e1 = u" "eo_result out = Encoded False" by (simp_all add: encode_output_of_def)
    obtain cx' where cx': "ep_codec_ctx u = Some cx'" "cx_width cx' = fr_width f" using prepared by blast
    have "eo_result (fst (encode_planes rescale_q en' g pts90k' [] u)) = NullAccess"
      using assms(5,8,9) u(2) cx'(1) by (auto simp: encode_planes_def encode_output_of_def split: prod.splits)
    moreover have "Ep_close rescale_q ce' u = None" if "\<forall>j. ce_receive ce' j = ReceiveError"
    proof -
      have "flush_loop rescale_q ce' den 0 v = None" for den v
        using flush_loop_never that by (metis option.exhaust)
      then show ?thesis
        using prepared e cx' assms(4) by (simp add: Ep_close_def core_def flush_encoder_def)
    qed
    ultimately show ?thesis using e1 again by simp
  qed
  moreover have "eo_result out = Encoded False
      \<and> \<not> ep_header_written (snd (Ep_encodeFrame rescale_q en' g pts90k' e1))" if fail: "\<not> ep_header_written e1"
  proof -
    have "\<not> ok"
    proof
      assume ok
      then have run: "encode_planes rescale_q en f pts90k calls u = (out, e1)" using first by simp
      from encode_planes_emits [OF run] prepared \<open>ok\<close> fail show False by (simp add: emits_def)
    qed
    with first have e1: "e1 = u" "eo_result out = Encoded False" by (simp_all add: encode_output_of_def)
    obtain o2 v where o2: "encode_planes rescale_q en' g pts90k' [] e1 = (o2, v)" by fastforce
    from encode_planes_emits [OF o2] fail have "\<not> ep_header_written v" by simp
    with e1 again o2 show ?thesis by simp
  qed
  ultimately show ?thesis by blast
qed

theorem first_frame_failure_sticks_witness:
  "\<exists>e e1 out. Ep_open same_time quiet_close good_open MpegTSPlayoutSinkConfig True True
        (EncoderPipeline MpegTSPlayoutSinkConfig) = Some (True, e)
     \<and> Ep_encodeFrame same_time ((good_encode [])\<lparr>en_open_codec := False\<rparr>) small_frame 0 e = (out, e1)
     \<and> eo_result out = Encoded False
     \<and> eo_result (fst (Ep_encodeFrame same_time (good_encode []) small_frame 0 e1)) = NullAccess
     \<and> Ep_close same_time (quiet_close\<lparr>ce_receive := (\<lambda>_. ReceiveError)\<rparr>) e1 = None"
proof -
  let ?c = MpegTSPlayoutSinkConfig and ?en = "(good_encode [])\<lparr>en_open_codec := False\<rparr>"
  obtain e where e: "Ep_open same_time quiet_close good_open (ep_config (EncoderPipeline ?c)) True True (EncoderPipeline ?c)
      = Some (True, e)"
    by (simp add: session_simps)
  obtain out e1 where out: "Ep_encodeFrame same_time ?en small_frame 0 e = (out, e1)" by fastforce
  have facts: "\<not> ep_initialized (EncoderPipeline ?c)" "\<not> sc_stub_mode (ep_config (EncoderPipeline ?c))"
    "0 < fr_width small_frame" "0 < fr_height small_frame" "ep_config (EncoderPipeline ?c) = ?c"
    "fst (frame_sizes small_frame) + 2 * snd (frame_sizes small_frame) \<le> length (fr_data small_frame)"
    "en_copy_parameters ?en \<and> en_find_encoder ?en \<and> \<not> en_open_codec ?en"
    by (simp_all add: EncoderPipeline_def MpegTSPlayoutSinkConfig_def small_frame_def frame_sizes_def good_encode_def)
  from first_frame_failure_sticks [OF e facts(1-4) out refl refl facts(6), of "good_encode []" 0
      "quiet_close\<lparr>ce_receive := (\<lambda>_. ReceiveError)\<rparr>"] e out facts
  show ?thesis by auto
qed

end
