(* ===== verification/TsOutputSink.thy ===== *)
theory TsOutputSink
  imports TransportStream "HOL-Library.Sublist"
begin

text \<open>
  The Unix domain socket the transport stream is written to
  (\<open>include/retrovue/playout_sinks/mpegts/TsOutputSink.h\<close>, \<open>src/playout_sinks/mpegts/TsOutputSink.cpp\<close>):
  setting the listening socket up, accepting a client, writing to it, stopping. The answers of the system
  calls are inputs. A locale states what a blocking writer promises; both this sink and the TCP side of the
  playout sink are instances of it.
\<close>

section \<open>Writers\<close>

text \<open>
  What \<open>send\<close> answers: so many bytes taken, interrupted, no room (of a socket that does not block), or failed. A writer gets the answers in order and
  returns \<open>None\<close> when they run out, that is while it is still blocked; otherwise whether all is written,
  the bytes that went out, and the answers not used.
\<close>

datatype send_result = Sent nat | Interrupted | WouldBlock | SendFailed

definition refused :: "send_result \<Rightarrow> bool" where
  "refused a \<longleftrightarrow> a \<in> {SendFailed, WouldBlock, Sent 0}"

type_synonym writer = "bytes \<Rightarrow> send_result list \<Rightarrow> (bool \<times> bytes \<times> send_result list) option"

locale blocking_writer =
  fixes put :: writer
  assumes write_prefix: "put data as = Some (ok, out, as') \<Longrightarrow> prefix out data"
    and write_all: "put data as = Some (True, out, as') \<Longrightarrow> out = data"
    and write_answers: "put data as = Some (ok, out, as') \<Longrightarrow> \<exists>used. as = used @ as'
      \<and> (\<not> ok \<longrightarrow> (\<exists>a \<in> set used. refused a))"

text \<open>Writing one block after another until one fails.\<close>

fun write_list :: "writer \<Rightarrow> bytes list \<Rightarrow> send_result list \<Rightarrow> (bool \<times> bytes \<times> send_result list) option" where
  "write_list put [] as = Some (True, [], as)"
| "write_list put (data # datas) as =
     (case put data as of
        None \<Rightarrow> None
      | Some (False, out, as) \<Rightarrow> Some (False, out, as)
      | Some (True, out, as) \<Rightarrow>
          (case write_list put datas as of
             None \<Rightarrow> None | Some (ok, outs, as) \<Rightarrow> Some (ok, out @ outs, as)))"

context blocking_writer
begin

lemma write_list_delivers:
  "write_list put datas as = Some (ok, out, as')
     \<Longrightarrow> prefix out (concat datas) \<and> (ok \<longrightarrow> out = concat datas)
       \<and> (\<exists>used. as = used @ as' \<and> (\<not> ok \<longrightarrow> (\<exists>a \<in> set used. refused a)))"
proof (induction datas arbitrary: as out)
  case (Cons data datas)
  obtain ok1 out1 as1 where w: "put data as = Some (ok1, out1, as1)"
    using Cons.prems by (auto split: option.splits)
  obtain used1 where u1: "as = used1 @ as1" "\<not> ok1 \<longrightarrow> (\<exists>a \<in> set used1. refused a)"
    using write_answers [OF w] by blast
  show ?case
  proof (cases ok1)
    case False
    with False Cons.prems w write_prefix [OF w] u1 show ?thesis by auto
  next
    case True
    then obtain out2 where l: "write_list put datas as1 = Some (ok, out2, as')" "out = out1 @ out2"
      using Cons.prems w by (auto split: option.splits)
    from write_all w True have "out1 = data" by simp
    with Cons.IH [OF l(1)] l(2) u1 True show ?thesis by auto
  qed
qed simp

end

section \<open>The socket sink\<close>

record uds_sink =
  us_socket_path :: string
  us_listening :: bool
  us_client_fd :: "nat option"
  us_client_connected :: bool
  us_running :: bool
  us_stop_requested :: bool
  us_accept_thread :: bool

definition TsOutputSink :: "string \<Rightarrow> uds_sink" where
  "TsOutputSink socket_path = \<lparr>us_socket_path = socket_path, us_listening = False, us_client_fd = None,
     us_client_connected = False, us_running = False, us_stop_requested = False, us_accept_thread = False\<rparr>"

record uds_env =
  ue_path_exists :: bool
  ue_unlink :: bool
  ue_dir_missing :: bool
  ue_create_directories :: bool
  ue_socket :: bool
  ue_fcntl :: bool
  ue_bind :: bool
  ue_listen :: bool

definition sun_path_size :: nat where "sun_path_size = 108"

definition Us_Initialize :: "uds_env \<Rightarrow> uds_sink \<Rightarrow> bool \<times> uds_sink" where
  "Us_Initialize ue s =
     (if ue_path_exists ue \<and> \<not> ue_unlink ue then (False, s)
      else if ue_dir_missing ue \<and> \<not> ue_create_directories ue then (False, s)
      else if \<not> ue_socket ue then (False, s\<lparr>us_listening := False\<rparr>)
      else if \<not> ue_fcntl ue then (False, s\<lparr>us_listening := False\<rparr>)
      else if sun_path_size \<le> length (us_socket_path s) then (False, s\<lparr>us_listening := False\<rparr>)
      else if \<not> ue_bind ue then (False, s\<lparr>us_listening := False\<rparr>)
      else if \<not> ue_listen ue then (False, s\<lparr>us_listening := False\<rparr>)
      else (True, s\<lparr>us_listening := True\<rparr>))"

definition Us_Start :: "uds_sink \<Rightarrow> bool \<times> uds_sink" where
  "Us_Start s =
     (if us_running s then (False, s)
      else if \<not> us_listening s then (False, s)
      else (True, s\<lparr>us_stop_requested := False, us_running := True, us_accept_thread := True\<rparr>))"

definition Us_CleanupSocket :: "uds_sink \<Rightarrow> uds_sink" where
  "Us_CleanupSocket s = s\<lparr>us_client_fd := None, us_listening := False, us_client_connected := False\<rparr>"

definition Us_Stop :: "uds_sink \<Rightarrow> uds_sink" where
  "Us_Stop s =
     (if \<not> us_running s then s
      else let s = s\<lparr>us_stop_requested := True\<rparr>;
               s = s\<lparr>us_accept_thread := False\<rparr>
           in (Us_CleanupSocket s)\<lparr>us_running := False\<rparr>)"

definition Us_IsClientConnected :: "uds_sink \<Rightarrow> bool" where
  "Us_IsClientConnected s \<longleftrightarrow> us_client_connected s"

definition Us_HandleClientDisconnect :: "uds_sink \<Rightarrow> uds_sink" where
  "Us_HandleClientDisconnect s =
     (if \<not> us_client_connected s then s else s\<lparr>us_client_fd := None, us_client_connected := False\<rparr>)"

text \<open>The descriptor a pending client gets, and whether its flags can be read and set.\<close>

record accept_env =
  ac_accept :: "nat option"
  ac_get_flags :: bool
  ac_set_blocking :: bool

definition Us_TryAcceptClient :: "accept_env \<Rightarrow> uds_sink \<Rightarrow> bool \<times> uds_sink" where
  "Us_TryAcceptClient ac s =
     (if us_client_connected s then (False, s)
      else if \<not> us_listening s then (False, s)
      else case ac_accept ac of
        None \<Rightarrow> (False, s)
      | Some fd \<Rightarrow>
          if \<not> ac_get_flags ac then (False, s)
          else if \<not> ac_set_blocking ac then (False, s)
          else (True, s\<lparr>us_client_fd := Some fd, us_client_connected := True\<rparr>))"

text \<open>One round of the accept thread; it ends when a stop is requested.\<close>

definition Us_AcceptThread_pass :: "accept_env \<Rightarrow> uds_sink \<Rightarrow> uds_sink" where
  "Us_AcceptThread_pass ac s =
     (if us_running s \<and> \<not> us_stop_requested s then snd (Us_TryAcceptClient ac s) else s)"

text \<open>The send loop of \<open>Write\<close>. Where a \<open>send\<close> takes more than it was given the count is the rest.\<close>

fun uds_send_loop :: writer where
  "uds_send_loop data [] = (if data = [] then Some (True, [], []) else None)"
| "uds_send_loop data (a # as) =
     (if data = [] then Some (True, [], a # as)
      else case a of
        Interrupted \<Rightarrow> uds_send_loop data as
      | WouldBlock \<Rightarrow> Some (False, [], as)
      | SendFailed \<Rightarrow> Some (False, [], as)
      | Sent n \<Rightarrow>
          if n = 0 then Some (False, [], as)
          else (case uds_send_loop (drop n data) as of
                  None \<Rightarrow> None | Some (ok, out, as) \<Rightarrow> Some (ok, take n data @ out, as)))"

definition Us_Write :: "bytes \<Rightarrow> send_result list \<Rightarrow> uds_sink
    \<Rightarrow> (bool \<times> bytes \<times> send_result list \<times> uds_sink) option" where
  "Us_Write data as s =
     (if \<not> us_client_connected s \<or> us_client_fd s = None then Some (False, [], as, s)
      else case uds_send_loop data as of
        None \<Rightarrow> None
      | Some (True, out, as) \<Rightarrow> Some (True, out, as, s)
      | Some (False, out, as) \<Rightarrow> Some (False, out, as, Us_HandleClientDisconnect s))"

section \<open>The contract of the writer\<close>

lemma uds_send_loop_result:
  "uds_send_loop data as = Some (ok, out, as') \<Longrightarrow> prefix out data \<and> (ok \<longrightarrow> out = data)
     \<and> (\<exists>used. as = used @ as' \<and> (\<not> ok \<longrightarrow> (\<exists>a \<in> set used. refused a)))"
proof (induction data as arbitrary: ok out rule: uds_send_loop.induct)
  case (2 data a as)
  show ?case
  proof (cases "data = []")
    case False
    show ?thesis
    proof (cases a)
      case (Sent n)
      show ?thesis
      proof (cases "n = 0")
        case True
        with False Sent "2.prems" show ?thesis by (auto simp: refused_def intro: exI [of _ "[Sent 0]"])
      next
        case n: False
        obtain out2 where l: "uds_send_loop (drop n data) as = Some (ok, out2, as')" "out = take n data @ out2"
          using False Sent n "2.prems" by (auto split: option.splits)
        note ih = "2.IH"(1) [OF False Sent n l(1)]
        have "prefix (take n data @ out2) data"
          using ih by (metis append_take_drop_id same_prefix_prefix)
        moreover obtain used where "as = used @ as'" "\<not> ok \<longrightarrow> (\<exists>a \<in> set used. refused a)"
          using ih by blast
        ultimately show ?thesis using l(2) ih Sent
          by (auto intro!: exI [of _ "a # used"])
      qed
    next
      case Interrupted
      with False "2.prems" have "uds_send_loop data as = Some (ok, out, as')" by simp
      from "2.IH"(2) [OF False Interrupted this] show ?thesis
        by (metis append_Cons list.set_intros(2))
    next
      case SendFailed
      with False "2.prems" show ?thesis by (auto simp: refused_def intro: exI [of _ "[SendFailed]"])
    next
      case WouldBlock
      with False "2.prems" show ?thesis by (auto simp: refused_def intro: exI [of _ "[WouldBlock]"])
    qed
  qed (use "2.prems" in auto)
qed (auto split: if_splits)

interpretation uds: blocking_writer uds_send_loop
  using uds_send_loop_result by unfold_locales blast+

end
