(* ===== verification/LegacySink.thy ===== *)
theory LegacySink
  imports EncoderPipeline TsOutputSink
begin

text \<open>
  The first sink (\<open>include/retrovue/sinks/mpegts/\<close>, \<open>src/sinks/mpegts/MpegTSPlayoutSink.cpp\<close>), which the sink
  of \<open>MpegTSPlayoutSink\<close> replaces: start and stop, the accept thread, a pass of its worker loop. It compares
  the time stamps of frames with the clock itself and only counts the frames it would encode.
\<close>

section \<open>State\<close>

text \<open>\<open>UnderflowPolicy\<close> has the values of the newer sink's.\<close>

record legacy_config =
  sg_port :: int
  sg_target_fps :: real
  sg_bitrate :: int
  sg_gop_size :: int
  sg_stub_mode :: bool
  sg_underflow_policy :: underflow_policy
  sg_enable_audio :: bool

definition SinkConfig :: legacy_config where
  "SinkConfig = \<lparr>sg_port = 9000, sg_target_fps = 30, sg_bitrate = 5000000, sg_gop_size = 30, sg_stub_mode = False,
     sg_underflow_policy = FRAME_FREEZE, sg_enable_audio = False\<rparr>"

text \<open>The encoder state is missing, or there with or without its codec context; the muxer likewise.\<close>

record legacy_sink =
  ls_config :: legacy_config
  ls_is_running :: bool
  ls_stop_requested :: bool
  ls_worker_thread :: bool
  ls_listening :: bool
  ls_client_fd :: "nat option"
  ls_client_connected :: bool
  ls_accept_thread :: bool
  ls_encoder_state :: "bool option"
  ls_muxer_state :: "bool option"
  ls_last_encoded_frame :: bytes
  ls_frames_sent :: nat
  ls_frames_dropped :: nat
  ls_late_frames :: nat
  ls_encoding_errors :: nat
  ls_network_errors :: nat
  ls_buffer_empty_count :: nat

definition LegacySink :: "legacy_config \<Rightarrow> legacy_sink" where
  "LegacySink config = \<lparr>ls_config = config, ls_is_running = False, ls_stop_requested = False,
     ls_worker_thread = False, ls_listening = False, ls_client_fd = None, ls_client_connected = False,
     ls_accept_thread = False, ls_encoder_state = None, ls_muxer_state = None, ls_last_encoded_frame = [],
     ls_frames_sent = 0, ls_frames_dropped = 0, ls_late_frames = 0, ls_encoding_errors = 0,
     ls_network_errors = 0, ls_buffer_empty_count = 0\<rparr>"

definition kLateThresholdUs :: time_us where "kLateThresholdUs = 33333"
definition Ls_kSoftWaitThresholdUs :: time_us where "Ls_kSoftWaitThresholdUs = 5000"

definition Ls_isRunning :: "legacy_sink \<Rightarrow> bool" where
  "Ls_isRunning s \<longleftrightarrow>
     (if sg_stub_mode (ls_config s) then ls_is_running s else ls_is_running s \<and> ls_client_connected s)"

section \<open>Start and stop\<close>

text \<open>What the calls answer while the sink starts; \<open>li_client\<close>: the client that came within five seconds.\<close>

record legacy_env =
  li_socket :: bool
  li_bind :: bool
  li_listen :: bool
  li_client :: "nat option"
  li_find_encoder :: bool
  li_alloc_codec :: bool
  li_open_codec :: bool
  li_alloc_output_context :: bool
  li_new_stream :: bool

definition Ls_InitializeSocket :: "legacy_env \<Rightarrow> legacy_sink \<Rightarrow> bool \<times> legacy_sink" where
  "Ls_InitializeSocket li s =
     (if sg_stub_mode (ls_config s) then (True, s)
      else if \<not> li_socket li then (False, s\<lparr>ls_listening := False\<rparr>)
      else if \<not> li_bind li then (False, s\<lparr>ls_listening := False\<rparr>)
      else if \<not> li_listen li then (False, s\<lparr>ls_listening := False\<rparr>)
      else (True, s\<lparr>ls_listening := True\<rparr>))"

definition Ls_InitializeEncoder :: "legacy_env \<Rightarrow> legacy_sink \<Rightarrow> bool \<times> legacy_sink" where
  "Ls_InitializeEncoder li s =
     (if sg_stub_mode (ls_config s) then (True, s)
      else let s = s\<lparr>ls_encoder_state := Some False\<rparr>
      in if \<not> li_find_encoder li then (False, s)
      else if \<not> li_alloc_codec li then (False, s)
      else (li_open_codec li, s\<lparr>ls_encoder_state := Some True\<rparr>))"

definition Ls_InitializeMuxer :: "legacy_env \<Rightarrow> legacy_sink \<Rightarrow> bool \<times> legacy_sink" where
  "Ls_InitializeMuxer li s =
     (if sg_stub_mode (ls_config s) then (True, s)
      else if \<not> li_alloc_output_context li then (False, s\<lparr>ls_muxer_state := Some False\<rparr>)
      else let s = s\<lparr>ls_muxer_state := Some True\<rparr>
      in if ls_encoder_state s \<noteq> Some True then (False, s) else (li_new_stream li, s))"

definition Ls_CleanupEncoder :: "legacy_sink \<Rightarrow> legacy_sink" where
  "Ls_CleanupEncoder s = s\<lparr>ls_encoder_state := None\<rparr>"

definition Ls_CleanupMuxer :: "legacy_sink \<Rightarrow> legacy_sink" where
  "Ls_CleanupMuxer s = s\<lparr>ls_muxer_state := None\<rparr>"

definition Ls_CleanupSocket :: "legacy_sink \<Rightarrow> legacy_sink" where
  "Ls_CleanupSocket s = s\<lparr>ls_client_fd := None, ls_listening := False, ls_client_connected := False\<rparr>"

text \<open>
  \<open>start\<close> holds the lock of the state. Where it calls \<open>stop\<close>, which takes that lock again, it waits for
  itself: \<open>None\<close>.
\<close>

definition Ls_connect :: "legacy_env \<Rightarrow> legacy_sink \<Rightarrow> legacy_sink option" where
  "Ls_connect li s =
     (if sg_stub_mode (ls_config s) then Some (s\<lparr>ls_client_connected := True\<rparr>)
      else case li_client li of
        None \<Rightarrow> None
      | Some fd \<Rightarrow> Some (s\<lparr>ls_accept_thread := True, ls_client_fd := Some fd, ls_client_connected := True\<rparr>))"

definition Ls_start :: "legacy_env \<Rightarrow> legacy_sink \<Rightarrow> (bool \<times> legacy_sink) option" where
  "Ls_start li s =
     (if ls_is_running s then Some (False, s)
      else let (ok, s) = Ls_InitializeSocket li s
      in if \<not> ok then Some (False, s)
      else case Ls_connect li (s\<lparr>ls_stop_requested := False\<rparr>) of
        None \<Rightarrow> None
      | Some s \<Rightarrow>
          let (ok, s) = Ls_InitializeEncoder li s
          in if \<not> ok then None
          else let (ok, s) = Ls_InitializeMuxer li s
          in if \<not> ok then None
          else Some (True, s\<lparr>ls_is_running := True, ls_worker_thread := True\<rparr>))"

definition Ls_stop_request :: "legacy_sink \<Rightarrow> legacy_sink" where
  "Ls_stop_request s =
     (if \<not> ls_is_running s \<and> \<not> ls_client_connected s then s else s\<lparr>ls_stop_requested := True\<rparr>)"

text \<open>After the worker has been joined; the accept thread is joined on the way.\<close>

definition Ls_stop_finish :: "legacy_sink \<Rightarrow> legacy_sink" where
  "Ls_stop_finish s =
     (if \<not> ls_is_running s \<and> \<not> ls_client_connected s then s
      else let s = s\<lparr>ls_worker_thread := False\<rparr>;
               s = Ls_CleanupSocket (Ls_CleanupEncoder (Ls_CleanupMuxer s))
           in s\<lparr>ls_accept_thread := False, ls_is_running := False, ls_client_connected := False\<rparr>)"

section \<open>The accept thread\<close>

text \<open>A round without a client gets a descriptor or none; a client that has gone takes the muxer with it.\<close>

definition Ls_accept_round :: "nat option \<Rightarrow> legacy_sink \<Rightarrow> legacy_sink" where
  "Ls_accept_round fd s =
     (if ls_accept_thread s \<and> \<not> ls_stop_requested s \<and> ls_listening s \<and> ls_client_fd s = None
      then s\<lparr>ls_client_fd := fd, ls_client_connected := ls_client_connected s \<or> fd \<noteq> None\<rparr> else s)"

definition Ls_client_gone :: "legacy_sink \<Rightarrow> legacy_sink" where
  "Ls_client_gone s =
     (if ls_accept_thread s then (Ls_CleanupMuxer s)\<lparr>ls_client_fd := None, ls_client_connected := False\<rparr> else s)"

section \<open>The worker loop\<close>

text \<open>One non-blocking send; what it leaves over is not sent again.\<close>

definition Ls_SendToSocket :: "bytes \<Rightarrow> send_result \<Rightarrow> legacy_sink \<Rightarrow> bool \<times> bytes \<times> legacy_sink" where
  "Ls_SendToSocket data answer s =
     (if ls_client_fd s = None \<or> \<not> ls_client_connected s then (False, [], s)
      else case answer of
        Sent n \<Rightarrow> (True, take n data, s)
      | WouldBlock \<Rightarrow> (False, [], s\<lparr>ls_network_errors := ls_network_errors s + 1\<rparr>)
      | Interrupted \<Rightarrow> (False, [], s\<lparr>ls_network_errors := ls_network_errors s + 1, ls_client_connected := False\<rparr>)
      | SendFailed \<Rightarrow> (False, [], s\<lparr>ls_network_errors := ls_network_errors s + 1, ls_client_connected := False\<rparr>))"

definition Ls_ProcessFrame :: "legacy_sink \<Rightarrow> legacy_sink" where
  "Ls_ProcessFrame s =
     (if sg_stub_mode (ls_config s) then s\<lparr>ls_frames_sent := ls_frames_sent s + 1\<rparr>
      else if ls_encoder_state s = None \<or> ls_muxer_state s = None
      then s\<lparr>ls_encoding_errors := ls_encoding_errors s + 1\<rparr>
      else s\<lparr>ls_frames_sent := ls_frames_sent s + 1\<rparr>)"

definition Ls_HandleBufferUnderflow :: "send_result \<Rightarrow> legacy_sink \<Rightarrow> bytes \<times> legacy_sink" where
  "Ls_HandleBufferUnderflow answer s =
     (let s = s\<lparr>ls_buffer_empty_count := ls_buffer_empty_count s + 1\<rparr>
      in case sg_underflow_policy (ls_config s) of
           FRAME_FREEZE \<Rightarrow>
             if ls_last_encoded_frame s \<noteq> []
             then let (_, out, s) = Ls_SendToSocket (ls_last_encoded_frame s) answer s in (out, s) else ([], s)
         | BLACK_FRAME \<Rightarrow> ([], s)
         | SKIP_OUTPUT \<Rightarrow> ([], s))"

definition is_late :: "time_us \<Rightarrow> frame \<Rightarrow> bool" where
  "is_late now_us f \<longleftrightarrow> kLateThresholdUs < now_us - md_pts (fr_metadata f)"

text \<open>Dropping the late frames at the head of the ring: at most as many rounds as it has slots.\<close>

fun drop_late :: "nat \<Rightarrow> time_us \<Rightarrow> ring_buffer \<Rightarrow> frame list \<times> ring_buffer" where
  "drop_late 0 now_us q = ([], q)"
| "drop_late (Suc n) now_us q =
     (case Peek q of
        None \<Rightarrow> ([], q)
      | Some f \<Rightarrow>
          if is_late now_us f
          then (let (popped, q) = Pop q; (fs, q) = drop_late n now_us q
                in (case popped of None \<Rightarrow> fs | Some g \<Rightarrow> g # fs, q))
          else ([], q))"

definition Ls_HandleBufferOverflow :: "time_us \<Rightarrow> legacy_sink \<Rightarrow> ring_buffer \<Rightarrow> frame list \<times> legacy_sink \<times> ring_buffer" where
  "Ls_HandleBufferOverflow now_us s q =
     (let (dropped, q) = drop_late (unat (Capacity q)) now_us q
      in (dropped, s\<lparr>ls_late_frames := ls_late_frames s + length dropped,
                      ls_frames_dropped := ls_frames_dropped s + length dropped\<rparr>, q))"

text \<open>What a pass did: waiting for a client, an empty ring, a wait for half the time left, or the frames it took.\<close>

datatype legacy_outcome = NoClient | RingEmpty | TooEarly time_us | Took "frame list" "frame option"

definition Ls_WorkerLoop_pass :: "time_us \<Rightarrow> send_result \<Rightarrow> legacy_sink \<Rightarrow> ring_buffer
    \<Rightarrow> legacy_outcome \<times> bytes \<times> legacy_sink \<times> ring_buffer" where
  "Ls_WorkerLoop_pass now_us answer s q =
     (if \<not> ls_client_connected s then (NoClient, [], s, q)
      else case Peek q of
        None \<Rightarrow> let (out, s) = Ls_HandleBufferUnderflow answer s in (RingEmpty, out, s, q)
      | Some next_frame \<Rightarrow>
          let frame_pts_us = md_pts (fr_metadata next_frame)
          in if frame_pts_us \<le> now_us
             then let (dropped, s, q) = Ls_HandleBufferOverflow now_us s q; (popped, q) = Pop q
                  in (Took dropped popped, [], case popped of None \<Rightarrow> s | Some _ \<Rightarrow> Ls_ProcessFrame s, q)
             else let wait_us = frame_pts_us - now_us
                  in (TooEarly (if Ls_kSoftWaitThresholdUs < wait_us then wait_us div 2 else 0), [], s, q))"

section \<open>What a pass takes\<close>

lemma drop_late_result:
  "rb_wf q \<Longrightarrow> length (rb_frames q) \<le> n \<Longrightarrow> drop_late n now q = (fs, q') \<Longrightarrow>
     fs = takeWhile (is_late now) (rb_frames q) \<and> rb_frames q' = dropWhile (is_late now) (rb_frames q) \<and> rb_wf q'"
proof (induction n arbitrary: q fs q')
  case (Suc n)
  show ?case
  proof (cases "rb_frames q")
    case Nil
    with Suc.prems show ?thesis by (simp add: Peek_eq)
  next
    case (Cons f rest)
    then have p: "Peek q = Some f" using Suc.prems(1) by (simp add: Peek_eq)
    obtain q1 where q1: "Pop q = (Some f, q1)" "rb_frames q1 = rest" "rb_wf q1"
      using Pop_Cons [OF Suc.prems(1) Cons] by metis
    show ?thesis
    proof (cases "is_late now f")
      case False
      with p Cons Suc.prems show ?thesis by simp
    next
      case True
      obtain gs q2 where g: "drop_late n now q1 = (gs, q2)" by fastforce
      with p q1 True Suc.prems(3) have "fs = f # gs" "q' = q2" by simp_all
      with Suc.IH [OF q1(3) _ g] Suc.prems(2) q1(2) True Cons show ?thesis by simp
    qed
  qed
qed auto

lemma length_frames_capacity: "rb_wf q \<Longrightarrow> length (rb_frames q) \<le> unat (Capacity q)"
  using rb_frames_bounded [of q] by (simp add: Capacity_def rb_room_def)

lemma overflow_result:
  assumes "rb_wf q"
  shows "\<exists>q'. Ls_HandleBufferOverflow now s q
      = (takeWhile (is_late now) (rb_frames q),
         s\<lparr>ls_late_frames := ls_late_frames s + length (takeWhile (is_late now) (rb_frames q)),
           ls_frames_dropped := ls_frames_dropped s + length (takeWhile (is_late now) (rb_frames q))\<rparr>, q')
    \<and> rb_frames q' = dropWhile (is_late now) (rb_frames q) \<and> rb_wf q'"
proof -
  obtain fs q' where d: "drop_late (unat (Capacity q)) now q = (fs, q')" by fastforce
  from drop_late_result [OF assms length_frames_capacity [OF assms] d] d show ?thesis
    by (simp add: Ls_HandleBufferOverflow_def)
qed

text \<open>A muxer that is gone does not come back while the sink runs.\<close>

lemma muxer_gone:
  "ls_muxer_state (Ls_client_gone s) = (if ls_accept_thread s then None else ls_muxer_state s)"
  "ls_muxer_state (Ls_accept_round fd s) = ls_muxer_state s"
  "ls_muxer_state (fst (snd (snd (Ls_WorkerLoop_pass now answer s q)))) = ls_muxer_state s"
  by (simp_all add: Ls_client_gone_def Ls_CleanupMuxer_def Ls_accept_round_def Ls_WorkerLoop_pass_def
      Ls_HandleBufferUnderflow_def Ls_SendToSocket_def Ls_HandleBufferOverflow_def Ls_ProcessFrame_def Let_def
      split: option.split prod.split send_result.split underflow_policy.split)

text \<open>Frames are counted as sent in stub mode, or with an encoder and a muxer.\<close>

definition can_encode :: "legacy_sink \<Rightarrow> bool" where
  "can_encode s \<longleftrightarrow> sg_stub_mode (ls_config s) \<or> ls_encoder_state s \<noteq> None \<and> ls_muxer_state s \<noteq> None"

section \<open>Properties\<close>

text \<open>A pass of a connected first sink: with an empty ring it counts that; with a frame ahead of the clock it
  waits at most half the time left and touches nothing; otherwise it drops the frames more than 33.333 ms
  late and takes the next one as well, whether or not that one is due. Every frame taken is counted once, as
  dropped and late, or as sent, or, without encoder or muxer, as an encoding error.\<close>

theorem legacy_sink_pass:
  assumes "rb_wf q" "ls_client_connected s"
  shows "case rb_frames q of
      [] \<Rightarrow> \<exists>out s'. Ls_WorkerLoop_pass now answer s q = (RingEmpty, out, s', q)
              \<and> ls_buffer_empty_count s' = ls_buffer_empty_count s + 1
    | f # _ \<Rightarrow>
        if now < md_pts (fr_metadata f)
        then \<exists>t. Ls_WorkerLoop_pass now answer s q = (TooEarly t, [], s, q)
               \<and> 0 \<le> t \<and> 2 * t \<le> md_pts (fr_metadata f) - now
        else let late = takeWhile (is_late now) (rb_frames q); rest = dropWhile (is_late now) (rb_frames q)
          in \<exists>s' q'. Ls_WorkerLoop_pass now answer s q
                 = (Took late (case rest of [] \<Rightarrow> None | g # _ \<Rightarrow> Some g), [], s', q')
               \<and> rb_frames q' = tl rest \<and> rb_wf q'
               \<and> ls_frames_dropped s' = ls_frames_dropped s + length late
               \<and> ls_late_frames s' = ls_late_frames s + length late
               \<and> (if can_encode s then ls_encoding_errors s' = ls_encoding_errors s
                     \<and> ls_frames_sent s' = ls_frames_sent s + (if rest = [] then 0 else 1)
                  else ls_frames_sent s' = ls_frames_sent s
                     \<and> ls_encoding_errors s' = ls_encoding_errors s + (if rest = [] then 0 else 1))"
proof (cases "rb_frames q")
  case Nil
  then show ?thesis
    using assms by (auto simp: Ls_WorkerLoop_pass_def Peek_eq Ls_HandleBufferUnderflow_def Ls_SendToSocket_def Let_def
      split: underflow_policy.split send_result.split prod.split)
next
  case (Cons f fs)
  have peek: "Peek q = Some f" using assms(1) Cons by (simp add: Peek_eq)
  show ?thesis
  proof (cases "now < md_pts (fr_metadata f)")
    case True
    then show ?thesis
      using assms(2) peek Cons by (auto simp: Ls_WorkerLoop_pass_def Let_def Ls_kSoftWaitThresholdUs_def)
  next
    case False
    define late rest where "late = takeWhile (is_late now) (rb_frames q)" and "rest = dropWhile (is_late now) (rb_frames q)"
    define u where "u = s\<lparr>ls_late_frames := ls_late_frames s + length late,
        ls_frames_dropped := ls_frames_dropped s + length late\<rparr>"
    obtain q1 where q1: "Ls_HandleBufferOverflow now s q = (late, u, q1)" "rb_frames q1 = rest" "rb_wf q1"
      using overflow_result [OF assms(1), of now s] unfolding late_def rest_def u_def by blast
    obtain popped q2 where p: "Pop q1 = (popped, q2)" "popped = (case rest of [] \<Rightarrow> None | g # _ \<Rightarrow> Some g)"
        "rb_frames q2 = tl rest" "rb_wf q2"
      using Pop_empty [OF q1(3)] Pop_Cons [OF q1(3)] q1(2,3) by (cases rest) (auto, metis)
    have pass: "Ls_WorkerLoop_pass now answer s q
        = (Took late popped, [], case popped of None \<Rightarrow> u | Some _ \<Rightarrow> Ls_ProcessFrame u, q2)"
      using assms(2) peek False q1(1) p(1) by (simp add: Ls_WorkerLoop_pass_def)
    have "can_encode u = can_encode s" by (simp add: can_encode_def u_def)
    then show ?thesis
      using Cons False p(2-4) pass unfolding late_def [symmetric] rest_def [symmetric] Let_def
      by (cases rest) (auto simp: Ls_ProcessFrame_def can_encode_def u_def)
  qed
qed

definition stamped_frame :: "int \<Rightarrow> frame" where
  "stamped_frame pts = small_frame\<lparr>fr_metadata := (fr_metadata small_frame)\<lparr>md_pts := pts\<rparr>\<rparr>"

text \<open>A frame 100 ms late is dropped, and the one behind it is sent 900 ms early.\<close>

theorem legacy_sink_pass_witness:
  "\<exists>s s' q q'. Ls_start \<lparr>li_socket = True, li_bind = True, li_listen = True, li_client = None, li_find_encoder = True,
        li_alloc_codec = True, li_open_codec = True, li_alloc_output_context = True, li_new_stream = True\<rparr>
      (LegacySink (SinkConfig\<lparr>sg_stub_mode := True\<rparr>)) = Some (True, s)
    \<and> rb_frames q = [stamped_frame 0, stamped_frame 1000000]
    \<and> Ls_WorkerLoop_pass 100000 WouldBlock s q = (Took [stamped_frame 0] (Some (stamped_frame 1000000)), [], s', q')
    \<and> ls_frames_sent s' = 1 \<and> ls_frames_dropped s' = 1"
proof -
  have wf: "rb_wf (FrameRingBuffer 4)" "rb_frames (FrameRingBuffer 4) = []" "rb_room (FrameRingBuffer 4) = 4"
    using FrameRingBuffer_wf [of 4] by simp_all
  have "length (rb_frames (FrameRingBuffer 4)) < rb_room (FrameRingBuffer 4)" by (simp add: wf)
  from Push_room [OF wf(1) this] obtain q1 where q1: "rb_frames q1 = [stamped_frame 0]" "rb_room q1 = 4" "rb_wf q1"
    using wf(2,3) by (metis append_Nil)
  then have "length (rb_frames q1) < rb_room q1" by simp
  from Push_room [OF q1(3) this] obtain q where q: "rb_frames q = [stamped_frame 0, stamped_frame 1000000]" "rb_wf q"
    using q1(1) by (metis append_Cons append_Nil)
  let ?env = "\<lparr>li_socket = True, li_bind = True, li_listen = True, li_client = None, li_find_encoder = True,
    li_alloc_codec = True, li_open_codec = True, li_alloc_output_context = True, li_new_stream = True\<rparr>"
  define s where "s = (LegacySink (SinkConfig\<lparr>sg_stub_mode := True\<rparr>))
    \<lparr>ls_client_connected := True, ls_is_running := True, ls_worker_thread := True\<rparr>"
  have start: "Ls_start ?env (LegacySink (SinkConfig\<lparr>sg_stub_mode := True\<rparr>)) = Some (True, s)"
    by (simp add: Ls_start_def LegacySink_def Ls_InitializeSocket_def Ls_connect_def Ls_InitializeEncoder_def
        Ls_InitializeMuxer_def s_def)
  have s: "ls_client_connected s" "can_encode s" "ls_frames_sent s = 0" "ls_frames_dropped s = 0"
    by (simp_all add: s_def LegacySink_def can_encode_def)
  have late: "is_late 100000 (stamped_frame 0)" "\<not> is_late 100000 (stamped_frame 1000000)"
      "\<not> 100000 < md_pts (fr_metadata (stamped_frame 0))"
    by (simp_all add: is_late_def stamped_frame_def kLateThresholdUs_def)
  from legacy_sink_pass [OF q(2) s(1), of 100000 WouldBlock] obtain s' q' where
    "Ls_WorkerLoop_pass 100000 WouldBlock s q = (Took [stamped_frame 0] (Some (stamped_frame 1000000)), [], s', q')"
    "ls_frames_sent s' = 1 \<and> ls_frames_dropped s' = 1"
    unfolding q(1) using late s(2-4) by (auto simp: Let_def)
  with start q(1) show ?thesis by blast
qed

end
