(* ===== verification/Without_FFmpeg.thy ===== *)
theory Without_FFmpeg
  imports FrameProducer LegacySink
begin

text \<open>
  The classes as they are built without FFmpeg: the decoder of \<open>src/decode/FFmpegDecoder.cpp\<close> that never
  opens and the encoder of \<open>EncoderPipeline.cpp\<close> that takes every frame and sends none. A frame producer
  built with that decoder does, turn by turn, what it does with FFmpeg when the context cannot be allocated,
  so that what is proved of \<open>FrameProducer\<close> and of the channels of the engine holds for this build too. The video
  file producer of this build does what it does with FFmpeg switched off at run time, and the first sink
  starts in stub mode only.
\<close>

section \<open>The decoder\<close>

definition Plain_FFmpegDecoder :: "ff_decoder \<Rightarrow> decoder_config \<Rightarrow> ff_decoder" where
  "Plain_FFmpegDecoder junk config = junk\<lparr>fd_config := config, fd_stats := DecoderStats,
     fd_format_ctx := False, fd_codec_ctx := False, fd_frame := False, fd_scaled_frame := False,
     fd_packet := False, fd_sws_ctx := False, fd_video_stream_index := - 1, fd_eof_reached := False,
     fd_start_time := 0, fd_time_base := 0\<rparr>"

definition Plain_Open :: "ff_decoder \<Rightarrow> bool \<times> ff_decoder" where
  "Plain_Open d = (False, d)"

definition Plain_DecodeNextFrame :: "ff_decoder \<Rightarrow> ring_buffer \<Rightarrow> bool \<times> ff_decoder \<times> ring_buffer" where
  "Plain_DecodeNextFrame d q = (False, d, q)"

definition Plain_DecodeNextAudioFrame :: "ff_decoder \<Rightarrow> ring_buffer \<Rightarrow> bool \<times> ff_decoder \<times> ring_buffer" where
  "Plain_DecodeNextAudioFrame d q = (False, d, q)"

definition Plain_Close :: "ff_decoder \<Rightarrow> ff_decoder" where
  "Plain_Close d = d"

definition Plain_GetVideoWidth :: int where "Plain_GetVideoWidth = 0"
definition Plain_GetVideoHeight :: int where "Plain_GetVideoHeight = 0"
definition Plain_GetVideoFPS :: real where "Plain_GetVideoFPS = 0"
definition Plain_GetVideoDuration :: real where "Plain_GetVideoDuration = 0"

section \<open>The encoder\<close>

record plain_encoder =
  pe_initialized :: bool

definition Plain_EncoderPipeline :: plain_encoder where
  "Plain_EncoderPipeline = \<lparr>pe_initialized = False\<rparr>"

definition Plain_open :: "plain_encoder \<Rightarrow> bool \<times> plain_encoder" where
  "Plain_open e = (if pe_initialized e then (True, e) else (True, e\<lparr>pe_initialized := True\<rparr>))"

definition Plain_encodeFrame :: "frame \<Rightarrow> int \<Rightarrow> plain_encoder \<Rightarrow> bool" where
  "Plain_encodeFrame f pts90k e \<longleftrightarrow> pe_initialized e"

definition Plain_close :: "plain_encoder \<Rightarrow> plain_encoder" where
  "Plain_close e = (if \<not> pe_initialized e then e else e\<lparr>pe_initialized := False\<rparr>)"

definition Plain_IsInitialized :: "plain_encoder \<Rightarrow> bool" where
  "Plain_IsInitialized e \<longleftrightarrow> pe_initialized e"

lemma plain_encoder_session:
  "Plain_IsInitialized (snd (Plain_open e))" "Plain_encodeFrame f pts (snd (Plain_open e))"
  "\<not> Plain_IsInitialized (Plain_close e)" "Plain_close (Plain_close e) = Plain_close e"
  by (simp_all add: Plain_open_def Plain_encodeFrame_def Plain_IsInitialized_def Plain_close_def)

section \<open>The producer of this build\<close>

definition Plain_ProduceLoop_begin :: "ff_decoder \<Rightarrow> frame_producer \<Rightarrow> frame_producer" where
  "Plain_ProduceLoop_begin junk p =
     (let p = (if fc_stub_mode (fp_config p) then p
               else let (ok, d) = Plain_Open (Plain_FFmpegDecoder junk
                          \<lparr>dc_input_uri = fc_asset_uri (fp_config p), dc_target_width = fc_target_width (fp_config p),
                           dc_target_height = fc_target_height (fp_config p),
                           dc_hw_accel_enabled = fc_hw_accel_enabled (fp_config p),
                           dc_max_decode_threads = fc_max_decode_threads (fp_config p)\<rparr>)
                    in if \<not> ok then p\<lparr>fp_config := (fp_config p)\<lparr>fc_stub_mode := True\<rparr>, fp_decoder := None\<rparr>
                       else p\<lparr>fp_decoder := Some d\<rparr>)
      in p\<lparr>fp_thread := InLoop\<rparr>)"

definition Plain_ProduceRealFrame :: "pass_input \<Rightarrow> frame_producer \<Rightarrow> ring_buffer
    \<Rightarrow> (frame_producer \<times> ring_buffer) option" where
  "Plain_ProduceRealFrame inp p q =
     (case fp_decoder p of
        None \<Rightarrow> (case Fp_WaitForMicros p inp kDecoderUnavailableBackoffUs 0 of None \<Rightarrow> None | Some _ \<Rightarrow> Some (p, q))
      | Some d \<Rightarrow>
        if \<not> Ff_IsOpen d
        then (case Fp_WaitForMicros p inp kDecoderUnavailableBackoffUs 0 of None \<Rightarrow> None | Some _ \<Rightarrow> Some (p, q))
        else let (ok, d, q) = Plain_DecodeNextFrame d q
        in if \<not> ok
           then if Ff_IsEOF d then Some (p\<lparr>fp_stop_requested := True\<rparr>, q)
                else (case Fp_WaitForMicros p inp kFpBackoffUs 0 of
                        None \<Rightarrow> None
                      | Some _ \<Rightarrow> Some (p\<lparr>fp_buffer_full_count := fp_buffer_full_count p + 1\<rparr>, q))
           else let p = p\<lparr>fp_frames_produced := fp_frames_produced p + 1\<rparr>;
                    (_, d, q) = Plain_DecodeNextAudioFrame d q
                in Some (p\<lparr>fp_decoder := Some d\<rparr>, q))"

definition Plain_ProduceLoop_pass :: "pass_input \<Rightarrow> frame_producer \<Rightarrow> ring_buffer
    \<Rightarrow> (frame_producer \<times> ring_buffer) option" where
  "Plain_ProduceLoop_pass inp p q =
     (if fp_teardown_requested p
      then if fp_teardown_deadline_ms p \<le> pi_steady_now_ms inp then Some (p\<lparr>fp_stop_requested := True\<rparr>, q)
           else if IsEmpty q then Some (p\<lparr>fp_stop_requested := True\<rparr>, q)
           else (case Fp_WaitForMicros p inp 1000 0 of None \<Rightarrow> None | Some _ \<Rightarrow> Some (p, q))
      else if fc_stub_mode (fp_config p)
      then let (p, i) = (if fp_has_clock p \<and> fp_next_stub_deadline_utc p = 0
                         then (p\<lparr>fp_next_stub_deadline_utc := pi_clk inp 0\<rparr>, 1) else (p, 0))
           in Fp_ProduceStubFrame inp i p q
      else Plain_ProduceRealFrame inp p q)"

definition Plain_thread_turn :: "ff_decoder \<Rightarrow> pass_input \<Rightarrow> frame_producer \<Rightarrow> ring_buffer
    \<Rightarrow> (frame_producer \<times> ring_buffer) option" where
  "Plain_thread_turn junk inp p q =
     (case fp_thread p of
        Spawned \<Rightarrow> Some (Plain_ProduceLoop_begin junk p, q)
      | InLoop \<Rightarrow> if fp_stop_requested p then Some (Fp_ProduceLoop_end p, q) else Plain_ProduceLoop_pass inp p q
      | _ \<Rightarrow> Some (p, q))"

text \<open>In its loop the producer is in stub mode: so it starts, and so it stays.\<close>

definition plays_stub :: "frame_producer \<Rightarrow> bool" where
  "plays_stub p \<longleftrightarrow> (fp_thread p = InLoop \<longrightarrow> fc_stub_mode (fp_config p))"

lemma plain_turn_same:
  assumes "plays_stub p" "\<not> fo_alloc_context e"
  shows "Plain_thread_turn junk inp p q = Fp_thread_turn junk e inp p q"
proof -
  have "Plain_ProduceLoop_begin junk p = Fp_ProduceLoop_begin junk e p"
    using assms(2) by (simp add: Plain_ProduceLoop_begin_def Fp_ProduceLoop_begin_def Plain_Open_def Ff_Open_def)
  moreover have "Plain_ProduceLoop_pass inp p q = Fp_ProduceLoop_pass inp p q" if "fp_thread p = InLoop"
    using that assms(1) by (simp add: Plain_ProduceLoop_pass_def Fp_ProduceLoop_pass_def plays_stub_def)
  ultimately show ?thesis by (simp add: Plain_thread_turn_def Fp_thread_turn_def split: thread_status.split)
qed

lemma plain_turn_stub:
  assumes "plays_stub p" "Plain_thread_turn junk inp p q = Some (p', q')"
  shows "plays_stub p'"
  using assms
  by (auto simp: plays_stub_def Plain_thread_turn_def Plain_ProduceLoop_begin_def Plain_Open_def Plain_ProduceLoop_pass_def
      Fp_ProduceLoop_end_def Fp_ProduceStubFrame_def Let_def
      split: thread_status.splits if_splits option.splits prod.splits)

text \<open>A whole run of the thread, one input per turn.\<close>

fun plain_run :: "(ff_decoder \<times> pass_input) list \<Rightarrow> frame_producer \<times> ring_buffer \<Rightarrow> (frame_producer \<times> ring_buffer) option" where
  "plain_run [] pq = Some pq"
| "plain_run ((junk, inp) # turns) (p, q) = Option.bind (Plain_thread_turn junk inp p q) (plain_run turns)"

fun failing_run :: "ff_open_env \<Rightarrow> (ff_decoder \<times> pass_input) list \<Rightarrow> frame_producer \<times> ring_buffer
    \<Rightarrow> (frame_producer \<times> ring_buffer) option" where
  "failing_run e [] pq = Some pq"
| "failing_run e ((junk, inp) # turns) (p, q) = Option.bind (Fp_thread_turn junk e inp p q) (failing_run e turns)"

lemma without_ffmpeg_same:
  "plays_stub p \<Longrightarrow> \<not> fo_alloc_context e \<Longrightarrow> plain_run turns (p, q) = failing_run e turns (p, q)"
proof (induction turns arbitrary: p q)
  case (Cons t turns)
  obtain junk inp where t: "t = (junk, inp)" by (cases t)
  show ?case
  proof (cases "Plain_thread_turn junk inp p q")
    case None
    with plain_turn_same [OF Cons.prems, of junk inp q] t show ?thesis by simp
  next
    case (Some r)
    obtain p1 q1 where r: "r = (p1, q1)" by (cases r)
    with plain_turn_stub [OF Cons.prems(1)] Some have "plays_stub p1" by metis
    from Cons.IH [OF this Cons.prems(2)] Some r plain_turn_same [OF Cons.prems, of junk inp q] t show ?thesis by simp
  qed
qed simp

section \<open>The video file producer of this build\<close>

definition Plain_InitializeDecoder :: "producer \<Rightarrow> bool \<times> producer" where
  "Plain_InitializeDecoder p = (False, p)"

definition Plain_CloseDecoder :: "producer \<Rightarrow> producer" where
  "Plain_CloseDecoder p = p"

definition Plain_Vfp_ProduceRealFrame :: "producer \<Rightarrow> ring_buffer \<Rightarrow> bool \<times> producer \<times> ring_buffer" where
  "Plain_Vfp_ProduceRealFrame p q = (False, p, q)"

definition Plain_ScaleFrame :: "producer \<Rightarrow> bool" where
  "Plain_ScaleFrame p = False"

definition Plain_AssembleFrame :: "producer \<Rightarrow> frame \<Rightarrow> bool \<times> producer \<times> frame" where
  "Plain_AssembleFrame p output_frame = (False, p, output_frame)"

definition Plain_Vfp_begin :: "producer \<Rightarrow> producer" where
  "Plain_Vfp_begin p =
     (let p = (if pc_stub_mode (vp_config p) then p
               else let (ok, p) = Plain_InitializeDecoder p
                    in if \<not> ok
                       then EmitEvent (EmitEvent (p\<lparr>vp_config := (vp_config p)\<lparr>pc_stub_mode := True\<rparr>\<rparr>)
                              ''error'' ''Failed to initialize internal decoder, falling back to stub mode'')
                              ''ready'' ''''
                       else EmitEvent p ''ready'' '''')
      in p\<lparr>vp_thread := InLoop\<rparr>)"

definition Plain_Vfp_pass :: "loop_input \<Rightarrow> producer \<Rightarrow> ring_buffer \<Rightarrow> (bool \<times> producer \<times> ring_buffer) option" where
  "Plain_Vfp_pass inp p q =
    (if vp_stop_requested p then Some (False, p, q)
     else if vp_state p \<noteq> RUNNING then Some (True, p, q)
     else if vp_teardown_requested p \<and> IsEmpty q then Some (False, EmitEvent p ''buffer_drained'' '''', q)
     else if vp_teardown_requested p \<and> vp_teardown_deadline_ms p \<le> li_steady_now_ms inp
       then Some (False, ForceStop (EmitEvent p ''teardown_timeout'' ''''), q)
     else if vp_eof_reached p
       then (case eof_wait inp p of None \<Rightarrow> None | Some _ \<Rightarrow> Some (False, EmitEvent p ''eof'' '''', q))
     else if pc_stub_mode (vp_config p)
       then (case ProduceStubFrame inp p q of None \<Rightarrow> None | Some (p, q) \<Rightarrow> Some (True, p, q))
     else let (ok, p, q) = Plain_Vfp_ProduceRealFrame p q
          in if ok then Some (True, p, q)
             else if vp_eof_reached p then Some (False, p, q)
             else Some (True, p\<lparr>vp_decode_errors := vp_decode_errors p + 1\<rparr>, q))"

definition Plain_Vfp_stop_finish :: "producer \<Rightarrow> producer" where
  "Plain_Vfp_stop_finish p =
     (let p = p\<lparr>vp_thread := NoThread\<rparr>; p = Plain_CloseDecoder p; p = SetState p STOPPED
      in EmitEvent p ''stopped'' '''')"

text \<open>Nothing of a decoder is ever there, and in its loop the thread is in stub mode.\<close>

definition plain_vfp :: "producer \<Rightarrow> bool" where
  "plain_vfp p \<longleftrightarrow> no_decoder p \<and> vp_video_stream_index p = - 1 \<and> \<not> vp_eof_reached p
     \<and> (vp_thread p = InLoop \<longrightarrow> pc_stub_mode (vp_config p))"

lemma plain_vfp_begins: "plain_vfp (VideoFileProducer config clock has_callback)"
  by (simp add: plain_vfp_def VideoFileProducer_def no_decoder_def)

lemma plain_vfp_same:
  assumes "plain_vfp p"
  shows "\<not> de_ffmpeg_available e \<Longrightarrow> Plain_Vfp_begin p = ProduceLoop_begin e p"
    and "vp_thread p = InLoop \<Longrightarrow> Plain_Vfp_pass inp p q = ProduceLoop_pass inp p q"
    and "Plain_Vfp_stop_finish p = stop_finish p"
proof -
  show "Plain_Vfp_begin p = ProduceLoop_begin e p" if "\<not> de_ffmpeg_available e"
    using that by (simp add: Plain_Vfp_begin_def ProduceLoop_begin_def Plain_InitializeDecoder_def InitializeDecoder_def)
  show "Plain_Vfp_pass inp p q = ProduceLoop_pass inp p q" if "vp_thread p = InLoop"
    using that assms by (simp add: Plain_Vfp_pass_def ProduceLoop_pass_def plain_vfp_def)
  have "CloseDecoder p = p" using assms by (simp add: plain_vfp_def no_decoder_def CloseDecoder_def)
  then have "CloseDecoder (p\<lparr>vp_thread := NoThread\<rparr>) = p\<lparr>vp_thread := NoThread\<rparr>"
    using assms by (simp add: plain_vfp_def no_decoder_def CloseDecoder_def)
  then show "Plain_Vfp_stop_finish p = stop_finish p"
    by (simp add: Plain_Vfp_stop_finish_def stop_finish_def Plain_CloseDecoder_def)
qed

text \<open>The producer in its program, as \<open>vfp_step\<close> with the functions of this build.\<close>

inductive plain_vfp_step :: "producer \<times> ring_buffer \<Rightarrow> producer \<times> ring_buffer \<Rightarrow> bool" where
  plain_start: "vp_state p \<noteq> STOPPING \<Longrightarrow> plain_vfp_step (p, q) (snd (start p), q)"
| plain_stop: "vp_state p = RUNNING \<Longrightarrow> plain_vfp_step (p, q) (stop_request p, q)"
| plain_join: "vp_state p = STOPPING \<Longrightarrow> vp_thread p = Exited \<Longrightarrow> plain_vfp_step (p, q) (Plain_Vfp_stop_finish p, q)"
| plain_teardown: "vp_state p \<noteq> STOPPING \<Longrightarrow> plain_vfp_step (p, q) (RequestTeardown p now timeout, q)"
| plain_force: "vp_state p \<noteq> STOPPING \<Longrightarrow> plain_vfp_step (p, q) (ForceStop p, q)"
| plain_shadow: "vp_state p \<noteq> STOPPING \<Longrightarrow> plain_vfp_step (p, q) (SetShadowDecodeMode p on, q)"
| plain_align: "vp_state p \<noteq> STOPPING \<Longrightarrow> plain_vfp_step (p, q) (AlignPTS p target, q)"
| plain_begin: "vp_thread p = Spawned \<Longrightarrow> plain_vfp_step (p, q) (Plain_Vfp_begin p, q)"
| plain_pass: "vp_thread p = InLoop \<Longrightarrow> Plain_Vfp_pass inp p q = Some (True, p', q') \<Longrightarrow> plain_vfp_step (p, q) (p', q')"
| plain_end: "vp_thread p = InLoop \<Longrightarrow> Plain_Vfp_pass inp p q = Some (False, p', q')
    \<Longrightarrow> plain_vfp_step (p, q) (ProduceLoop_end p', q')"
| plain_consume: "plain_vfp_step (p, q) (p, snd (Pop q))"

text \<open>What \<open>plain_vfp\<close> reads.\<close>

definition same_plain :: "producer \<Rightarrow> producer \<Rightarrow> bool" where
  "same_plain p p' \<longleftrightarrow> no_decoder p' = no_decoder p \<and> vp_video_stream_index p' = vp_video_stream_index p
     \<and> (vp_eof_reached p' \<longrightarrow> vp_eof_reached p) \<and> vp_config p' = vp_config p"

lemma same_plain_vfp: "same_plain p p' \<Longrightarrow> plain_vfp p \<Longrightarrow> vp_thread p' = InLoop \<longrightarrow> vp_thread p = InLoop \<Longrightarrow> plain_vfp p'"
  by (auto simp: same_plain_def plain_vfp_def)

lemmas same_plain_defs = same_plain_def no_decoder_def EmitEvent_def SetState_def Let_def

lemma control_same_plain:
  "same_plain p (snd (start p)) \<and> (vp_thread (snd (start p)) = InLoop \<longrightarrow> vp_thread p = InLoop)"
  "same_plain p (stop_request p) \<and> vp_thread (stop_request p) = vp_thread p"
  "same_plain p (Plain_Vfp_stop_finish p) \<and> vp_thread (Plain_Vfp_stop_finish p) = NoThread"
  "same_plain p (RequestTeardown p now timeout) \<and> vp_thread (RequestTeardown p now timeout) = vp_thread p"
  "same_plain p (ForceStop p) \<and> vp_thread (ForceStop p) = vp_thread p"
  "same_plain p (SetShadowDecodeMode p on) \<and> vp_thread (SetShadowDecodeMode p on) = vp_thread p"
  "same_plain p (AlignPTS p target) \<and> vp_thread (AlignPTS p target) = vp_thread p"
  "same_plain p (ProduceLoop_end p) \<and> vp_thread (ProduceLoop_end p) = Exited"
  by (simp_all add: same_plain_defs start_def stop_request_def Plain_Vfp_stop_finish_def Plain_CloseDecoder_def
      RequestTeardown_def ForceStop_def SetShadowDecodeMode_def AlignPTS_def ProduceLoop_end_def)

lemma stub_same_plain: "ProduceStubFrame inp p q = Some (p', q') \<Longrightarrow> same_plain p p' \<and> vp_thread p' = vp_thread p"
  by (erule ProduceStubFrame_cases) (simp_all add: same_plain_defs after_stub_def cache_shadow_frame_def)

lemma pass_same_plain:
  "plain_vfp p \<Longrightarrow> vp_thread p = InLoop \<Longrightarrow> Plain_Vfp_pass inp p q = Some (b, p', q')
   \<Longrightarrow> same_plain p p' \<and> vp_thread p' = vp_thread p"
  using stub_same_plain [of inp p q p' q']
  by (auto simp: Plain_Vfp_pass_def plain_vfp_def same_plain_defs ForceStop_def split: if_splits option.splits)

lemma plain_vfp_step_sound:
  assumes "plain_vfp_step (p, q) (p', q')" "plain_vfp p"
  shows "vfp_step (p, q) (p', q') \<and> plain_vfp p'"
  using assms(1)
proof cases
  case plain_begin
  obtain e :: decoder_env where e: "\<not> de_ffmpeg_available e" by (metis decoder_env.select_convs(1))
  have "plain_vfp (Plain_Vfp_begin p)"
    using assms(2) by (simp add: Plain_Vfp_begin_def Plain_InitializeDecoder_def plain_vfp_def no_decoder_def EmitEvent_def)
  with plain_begin plain_vfp_same(1) [OF assms(2) e] step_begin [of p q e] show ?thesis by simp
next
  case (plain_pass inp)
  from pass_same_plain [OF assms(2) plain_pass] have "plain_vfp p'"
    using same_plain_vfp assms(2) by metis
  with plain_pass plain_vfp_same(2) [OF assms(2)] show ?thesis by (metis step_pass)
next
  case (plain_end inp p1)
  from pass_same_plain [OF assms(2) plain_end(2,3)] have "plain_vfp p1"
    using same_plain_vfp assms(2) by metis
  then have "plain_vfp (ProduceLoop_end p1)" using same_plain_vfp control_same_plain(8) by (metis thread_status.distinct(12))
  with plain_end plain_vfp_same(2) [OF assms(2)] show ?thesis by (metis step_end)
next
  case plain_join
  have "plain_vfp (Plain_Vfp_stop_finish p)"
    using same_plain_vfp [OF _ assms(2)] control_same_plain(3) [of p] by simp
  with plain_join plain_vfp_same(3) [OF assms(2)] step_join [of p q] show ?thesis by simp
qed (use assms(2) same_plain_vfp [OF _ assms(2)] control_same_plain [of p] in \<open>auto intro: vfp_step.intros\<close>)

inductive plain_vfp_reachable :: "producer_config \<Rightarrow> clock_ref \<Rightarrow> ring_buffer \<Rightarrow> producer \<times> ring_buffer \<Rightarrow> bool"
  for config clock q0 where
  plain_reach_init: "plain_vfp_reachable config clock q0 (VideoFileProducer config clock True, q0)"
| plain_reach_step: "plain_vfp_reachable config clock q0 s \<Longrightarrow> plain_vfp_step s t \<Longrightarrow> plain_vfp_reachable config clock q0 t"

text \<open>So what holds in every reachable state of \<open>vfp_step\<close> holds in this build.\<close>

lemma plain_vfp_refines:
  "plain_vfp_reachable config clock q0 s \<Longrightarrow> vfp_reachable config clock q0 s \<and> plain_vfp (fst s)"
proof (induction rule: plain_vfp_reachable.induct)
  case plain_reach_init
  show ?case by (simp add: vfp_reachable.reach_init plain_vfp_begins)
next
  case (plain_reach_step s t)
  then show ?case
    using plain_vfp_step_sound [of "fst s" "snd s" "fst t" "snd t"] by (auto intro: vfp_reachable.reach_step)
qed

section \<open>The first sink of this build\<close>

definition Plain_Ls_ProcessFrame :: "legacy_sink \<Rightarrow> legacy_sink" where
  "Plain_Ls_ProcessFrame s = s\<lparr>ls_frames_sent := ls_frames_sent s + 1\<rparr>"

definition Plain_Ls_InitializeEncoder :: "legacy_sink \<Rightarrow> bool \<times> legacy_sink" where
  "Plain_Ls_InitializeEncoder s = (if sg_stub_mode (ls_config s) then (True, s) else (False, s))"

definition Plain_Ls_CleanupEncoder :: "legacy_sink \<Rightarrow> legacy_sink" where
  "Plain_Ls_CleanupEncoder s = s"

definition Plain_Ls_InitializeMuxer :: "legacy_sink \<Rightarrow> bool \<times> legacy_sink" where
  "Plain_Ls_InitializeMuxer s = (if sg_stub_mode (ls_config s) then (True, s) else (False, s))"

definition Plain_Ls_CleanupMuxer :: "legacy_sink \<Rightarrow> legacy_sink" where
  "Plain_Ls_CleanupMuxer s = s"

definition Plain_Ls_start :: "legacy_env \<Rightarrow> legacy_sink \<Rightarrow> (bool \<times> legacy_sink) option" where
  "Plain_Ls_start li s =
     (if ls_is_running s then Some (False, s)
      else let (ok, s) = Ls_InitializeSocket li s
      in if \<not> ok then Some (False, s)
      else case Ls_connect li (s\<lparr>ls_stop_requested := False\<rparr>) of
        None \<Rightarrow> None
      | Some s \<Rightarrow>
          let (ok, s) = Plain_Ls_InitializeEncoder s
          in if \<not> ok then None
          else let (ok, s) = Plain_Ls_InitializeMuxer s
          in if \<not> ok then None
          else Some (True, s\<lparr>ls_is_running := True, ls_worker_thread := True\<rparr>))"

text \<open>It starts in stub mode, as with FFmpeg, and otherwise never: a start that gets past the socket
  does not return.\<close>

lemma plain_legacy_start:
  "sg_stub_mode (ls_config s) \<Longrightarrow> Plain_Ls_start li s = Ls_start li s"
  "\<not> sg_stub_mode (ls_config s) \<Longrightarrow> \<not> ls_is_running s \<Longrightarrow> li_socket li \<Longrightarrow> li_bind li \<Longrightarrow> li_listen li
     \<Longrightarrow> Plain_Ls_start li s = None"
  by (simp_all add: Plain_Ls_start_def Ls_start_def Plain_Ls_InitializeEncoder_def Plain_Ls_InitializeMuxer_def
      Ls_InitializeSocket_def Ls_connect_def Ls_InitializeEncoder_def Ls_InitializeMuxer_def Let_def split: option.split,
      auto)

text \<open>In stub mode it has no encoder and no muxer, and its frames and its end are those of the build with FFmpeg.\<close>

lemma plain_legacy_stub:
  "sg_stub_mode (ls_config s) \<Longrightarrow> Plain_Ls_ProcessFrame s = Ls_ProcessFrame s"
  "ls_encoder_state s = None \<Longrightarrow> Plain_Ls_CleanupEncoder s = Ls_CleanupEncoder s"
  "ls_muxer_state s = None \<Longrightarrow> Plain_Ls_CleanupMuxer s = Ls_CleanupMuxer s"
  by (simp_all add: Plain_Ls_ProcessFrame_def Ls_ProcessFrame_def Plain_Ls_CleanupEncoder_def Ls_CleanupEncoder_def
      Plain_Ls_CleanupMuxer_def Ls_CleanupMuxer_def)

end
