(* ===== verification/PTSController.thy ===== *)
theory PTSController
  imports Prelude
begin

text \<open>
  The presentation clock of the transport stream (\<open>src/playout_sinks/mpegts/PTSController.cpp\<close>): stamps
  in units of 90 kHz from wall clock times, made to rise strictly; and the clock reading of
  \<open>src/playout_sinks/mpegts/ClockUtils.cpp\<close>.
\<close>

section \<open>State and operations\<close>

record pts_controller =
  pc_pts_base_90k :: int
  pc_first_frame_wallclock_us :: time_us
  pc_last_pts_90k :: int
  pc_initialized :: bool

definition PTSController :: pts_controller where
  "PTSController = \<lparr>pc_pts_base_90k = 0, pc_first_frame_wallclock_us = 0, pc_last_pts_90k = 0, pc_initialized = False\<rparr>"

definition pts_reset :: "time_us \<Rightarrow> pts_controller \<Rightarrow> pts_controller" where
  "pts_reset first_frame_wallclock_us c = c\<lparr>pc_first_frame_wallclock_us := first_frame_wallclock_us,
     pc_pts_base_90k := 0, pc_last_pts_90k := 0, pc_initialized := True\<rparr>"

definition Pts_IsInitialized :: "pts_controller \<Rightarrow> bool" where
  "Pts_IsInitialized c \<longleftrightarrow> pc_initialized c"

definition ptsForFrameWallclock :: "time_us \<Rightarrow> pts_controller \<Rightarrow> int \<times> pts_controller" where
  "ptsForFrameWallclock frame_wallclock_us c =
     (if \<not> pc_initialized c then (0, c)
      else let delta_us = frame_wallclock_us - pc_first_frame_wallclock_us c;
               pts_90k = pc_pts_base_90k c + (delta_us * 90) sdiv 1000;
               pts_90k = (if pts_90k \<le> pc_last_pts_90k c then pc_last_pts_90k c + 1 else pts_90k)
           in (pts_90k, c\<lparr>pc_last_pts_90k := pts_90k\<rparr>))"

definition GetFirstFrameWallclockUs :: "pts_controller \<Rightarrow> time_us" where
  "GetFirstFrameWallclockUs c = pc_first_frame_wallclock_us c"

definition resetForNewProducer :: "pts_controller \<Rightarrow> pts_controller" where
  "resetForNewProducer c = c\<lparr>pc_pts_base_90k := 0, pc_last_pts_90k := 0, pc_first_frame_wallclock_us := 0,
     pc_initialized := False\<rparr>"

text \<open>\<open>master_clock\<close> is the reading of the clock, if there is one.\<close>

definition NowUtcUs :: "time_us option \<Rightarrow> time_us" where
  "NowUtcUs clock = (case clock of None \<Rightarrow> 0 | Some now_utc_us \<Rightarrow> now_utc_us)"

fun stamps :: "time_us list \<Rightarrow> pts_controller \<Rightarrow> int list \<times> pts_controller" where
  "stamps [] c = ([], c)"
| "stamps (w # ws) c =
     (let (t, c) = ptsForFrameWallclock w c; (ts, c) = stamps ws c in (t # ts, c))"

section \<open>Properties\<close>

definition ideal_pts :: "time_us \<Rightarrow> time_us \<Rightarrow> int" where
  "ideal_pts w0 w = ((w - w0) * 90) sdiv 1000"

definition tracks :: "time_us \<Rightarrow> pts_controller \<Rightarrow> bool" where
  "tracks w0 c \<longleftrightarrow> pc_initialized c \<and> pc_pts_base_90k c = 0 \<and> pc_first_frame_wallclock_us c = w0"

lemma pts_step:
  "tracks w0 c \<Longrightarrow> ptsForFrameWallclock w c = (t, c')
    \<Longrightarrow> t = max (ideal_pts w0 w) (pc_last_pts_90k c + 1) \<and> tracks w0 c' \<and> pc_last_pts_90k c' = t"
  by (auto simp: tracks_def ptsForFrameWallclock_def ideal_pts_def Let_def)

fun ideal_stamps :: "time_us \<Rightarrow> int \<Rightarrow> time_us list \<Rightarrow> int list" where
  "ideal_stamps w0 prior [] = []"
| "ideal_stamps w0 prior (w # ws) =
     (let t = max (ideal_pts w0 w) (prior + 1) in t # ideal_stamps w0 t ws)"

lemma stamps_ideal:
  "tracks w0 c \<Longrightarrow> fst (stamps ws c) = ideal_stamps w0 (pc_last_pts_90k c) ws"
proof (induction ws arbitrary: c)
  case (Cons w ws)
  obtain t c' where t: "ptsForFrameWallclock w c = (t, c')" by fastforce
  with pts_step [OF Cons.prems t] Cons.IH [of c'] show ?case by (auto simp: Let_def split: prod.splits)
qed simp

lemma ideal_stamps_above: "t \<in> set (ideal_stamps w0 l ws) \<Longrightarrow> l < t"
proof (induction ws arbitrary: l)
  case (Cons w ws)
  let ?m = "max (ideal_pts w0 w) (l + 1)"
  have "l < ?m" by simp
  with Cons.prems Cons.IH [of ?m] show ?case by (auto simp: Let_def simp del: max_less_iff_conj less_max_iff_disj)
qed simp

lemma ideal_stamps_rise: "sorted_wrt (<) (ideal_stamps w0 l ws)"
  by (induction ws arbitrary: l) (auto simp: Let_def dest: ideal_stamps_above)

lemma ideal_stamps_exact:
  "sorted_wrt (\<lambda>v w. ideal_pts w0 v < ideal_pts w0 w) ws \<Longrightarrow> \<forall>w \<in> set ws. l < ideal_pts w0 w
     \<Longrightarrow> ideal_stamps w0 l ws = map (ideal_pts w0) ws"
proof (induction ws arbitrary: l)
  case (Cons w ws)
  then have "max (ideal_pts w0 w) (l + 1) = ideal_pts w0 w" by simp
  with Cons show ?case by (simp add: Let_def)
qed simp

lemma ideal_pts_ahead:
  assumes "w0 \<le> w" "w + 12 \<le> v"
  shows "ideal_pts w0 w < ideal_pts w0 v"
proof -
  have "((w - w0) * 90) div 1000 + 1 = ((w - w0) * 90 + 1000) div 1000" by simp
  also have "\<dots> \<le> ((v - w0) * 90) div 1000" using assms by (intro zdiv_mono1) simp_all
  finally show ?thesis using assms by (simp add: ideal_pts_def sdiv_pos)
qed

text \<open>After a reset the stamps of any sequence of frames, in whatever order their times come, are positive
  and rise strictly, and no stamp is behind the one its time stands for. Frames at least 12 microseconds
  apart, the first one 12 microseconds after the reset, get exactly those. A frame at the time of the
  reset gets 1.\<close>

theorem pts_controller_rises:
  "sorted_wrt (<) (fst (stamps ws (pts_reset w0 c))) \<and> (\<forall>t \<in> set (fst (stamps ws (pts_reset w0 c))). 0 < t)
   \<and> list_all2 (\<lambda>w t. ideal_pts w0 w \<le> t) ws (fst (stamps ws (pts_reset w0 c)))
   \<and> (sorted_wrt (\<lambda>v w. v + 12 \<le> w) (w0 # ws) \<longrightarrow> fst (stamps ws (pts_reset w0 c)) = map (ideal_pts w0) ws)
   \<and> fst (ptsForFrameWallclock w0 (pts_reset w0 c)) = 1"
proof -
  have t: "tracks w0 (pts_reset w0 c)" "pc_last_pts_90k (pts_reset w0 c) = 0"
    by (simp_all add: tracks_def pts_reset_def)
  note eq = stamps_ideal [OF t(1), of ws, unfolded t(2)]
  have above: "list_all2 (\<lambda>w t. ideal_pts w0 w \<le> t) ws (ideal_stamps w0 l ws)" for l
    by (induction ws arbitrary: l) (auto simp: Let_def)
  have "ideal_stamps w0 0 ws = map (ideal_pts w0) ws" if apart: "sorted_wrt (\<lambda>v w. v + 12 \<le> w) (w0 # ws)"
  proof (rule ideal_stamps_exact)
    have zero: "ideal_pts w0 w0 = 0" by (simp add: ideal_pts_def)
    show "\<forall>w \<in> set ws. 0 < ideal_pts w0 w"
      using apart ideal_pts_ahead [of w0 w0] by (auto simp: zero)
    have "sorted_wrt (\<lambda>v w. v + 12 \<le> w) ws" "\<forall>w \<in> set ws. w0 \<le> w" using apart by auto
    then show "sorted_wrt (\<lambda>v w. ideal_pts w0 v < ideal_pts w0 w) ws"
      by (induction ws) (auto intro: ideal_pts_ahead)
  qed
  then show ?thesis
    unfolding eq using ideal_stamps_rise above [of 0] ideal_stamps_above [of _ w0 0 ws]
    by (simp add: ptsForFrameWallclock_def pts_reset_def)
qed

theorem pts_controller_rises_witness:
  "fst (stamps [1000000, 1033333, 1033333, 1000000, 1066666] (pts_reset 999000 PTSController))
     = [90, 3089, 3090, 3091, 6089]
   \<and> sorted_wrt (<) [90, 3089, 3090, 3091, 6089 :: int]
   \<and> fst (stamps [1000, 34333] (pts_reset 0 PTSController)) = map (ideal_pts 0) [1000, 34333]"
proof -
  have 1: "fst (stamps [1000000, 1033333, 1033333, 1000000, 1066666] (pts_reset 999000 PTSController))
      = [90, 3089, 3090, 3091, 6089]"
    by (simp add: pts_reset_def ptsForFrameWallclock_def PTSController_def signed_divide_int_def)
  from pts_controller_rises [of "[1000000, 1033333, 1033333, 1000000, 1066666]" 999000 PTSController]
    pts_controller_rises [of "[1000, 34333]" 0 PTSController] 1
  show ?thesis by simp
qed

end
