(* ===== verification/MpegTSPlayoutSink.thy ===== *)
theory MpegTSPlayoutSink
  imports EncoderPipeline TsOutputSink PTSController
begin

text \<open>
  The playout sink (\<open>include/retrovue/playout_sinks/mpegts/MpegTSPlayoutSink.hpp\<close>,
  \<open>src/playout_sinks/mpegts/MpegTSPlayoutSink.cpp\<close>): start and stop, the client connection over TCP or the
  Unix socket, writing to the client, the output queue, and the worker loop that takes frames from the
  ring, decides by the clock whether each is early, late or due, and has it encoded. A pass of the loop
  gets the clock reading and the answers of the system calls; writing may block, which is \<open>None\<close>, as is a
  thread that waits for a lock it holds itself.
\<close>

section \<open>State\<close>

datatype packet_type = AUDIO | VIDEO

record encoded_packet =
  ek_type :: packet_type
  ek_data :: bytes
  ek_pts90k :: int

datatype internal_state = Idle | WaitingForClient | Running | Stopped | Error

record sink_stats =
  st_frames_sent :: nat
  st_frames_dropped :: nat
  st_late_frames :: nat
  st_encoding_errors :: nat
  st_network_errors :: nat
  st_buffer_underruns :: nat
  st_late_frame_drops :: nat

definition SinkStats :: sink_stats where
  "SinkStats = \<lparr>st_frames_sent = 0, st_frames_dropped = 0, st_late_frames = 0, st_encoding_errors = 0,
     st_network_errors = 0, st_buffer_underruns = 0, st_late_frame_drops = 0\<rparr>"

record playout_sink =
  ms_config :: sink_config
  ms_internal_state :: internal_state
  ms_running :: bool
  ms_stop_requested :: bool
  ms_worker_thread :: bool
  ms_accept_thread :: bool
  ms_listening :: bool
  ms_client_fd :: "nat option"
  ms_client_connected :: bool
  ms_ts_output_sink :: "uds_sink option"
  ms_pts_controller :: pts_controller
  ms_encoder :: encoder
  ms_output_queue :: "encoded_packet list"
  ms_packets_dropped :: nat
  ms_sink_start_time_utc_us :: time_us
  ms_sink_start_time_recorded :: bool
  ms_stats :: sink_stats

definition uds_mode :: "playout_sink \<Rightarrow> bool" where
  "uds_mode s \<longleftrightarrow> sc_ts_socket_path (ms_config s) \<noteq> []"

definition MpegTSPlayoutSink_with :: "sink_config \<Rightarrow> encoder \<Rightarrow> playout_sink" where
  "MpegTSPlayoutSink_with config encoder_pipeline = \<lparr>ms_config = config, ms_internal_state = Idle,
     ms_running = False, ms_stop_requested = False, ms_worker_thread = False, ms_accept_thread = False,
     ms_listening = False, ms_client_fd = None, ms_client_connected = False,
     ms_ts_output_sink = (if sc_ts_socket_path config \<noteq> [] then Some (TsOutputSink (sc_ts_socket_path config)) else None),
     ms_pts_controller = PTSController, ms_encoder = encoder_pipeline, ms_output_queue = [], ms_packets_dropped = 0,
     ms_sink_start_time_utc_us = 0, ms_sink_start_time_recorded = False, ms_stats = SinkStats\<rparr>"

definition MpegTSPlayoutSink :: "sink_config \<Rightarrow> playout_sink" where
  "MpegTSPlayoutSink config = MpegTSPlayoutSink_with config (EncoderPipeline config)"

definition count :: "(sink_stats \<Rightarrow> sink_stats) \<Rightarrow> playout_sink \<Rightarrow> playout_sink" where
  "count f s = s\<lparr>ms_stats := f (ms_stats s)\<rparr>"

definition Ms_isRunning :: "playout_sink \<Rightarrow> bool" where
  "Ms_isRunning s \<longleftrightarrow> ms_running s"

definition Ms_state :: "playout_sink \<Rightarrow> internal_state" where
  "Ms_state s = ms_internal_state s"

definition Ms_getStats :: "playout_sink \<Rightarrow> sink_stats" where
  "Ms_getStats s = ms_stats s"

section \<open>Writing to the client\<close>

text \<open>Bytes that went out, with the descriptor they went to.\<close>

type_synonym delivery = "nat \<times> bytes"

text \<open>The blocking send loop over TCP: a \<open>send\<close> that takes nothing is repeated.\<close>

fun tcp_send_loop :: writer where
  "tcp_send_loop data [] = (if data = [] then Some (True, [], []) else None)"
| "tcp_send_loop data (a # as) =
     (if data = [] then Some (True, [], a # as)
      else case a of
        Interrupted \<Rightarrow> tcp_send_loop data as
      | WouldBlock \<Rightarrow> Some (False, [], as)
      | SendFailed \<Rightarrow> Some (False, [], as)
      | Sent n \<Rightarrow>
          (case tcp_send_loop (drop n data) as of
             None \<Rightarrow> None | Some (ok, out, as) \<Rightarrow> Some (ok, take n data @ out, as)))"

definition writeAllBlocking :: "bytes \<Rightarrow> send_result list \<Rightarrow> playout_sink
    \<Rightarrow> (int \<times> delivery list \<times> send_result list \<times> playout_sink) option" where
  "writeAllBlocking buf as s =
     (case (if uds_mode s then ms_ts_output_sink s else None) of
        Some u \<Rightarrow>
          if \<not> Us_IsClientConnected u then Some (- 1, [], as, s)
          else (case Us_Write buf as u of
                  None \<Rightarrow> None
                | Some (ok, out, as, u') \<Rightarrow>
                    Some (if ok then int (length buf) else - 1,
                          map (\<lambda>fd. (fd, out)) (case us_client_fd u of None \<Rightarrow> [] | Some fd \<Rightarrow> [fd]),
                          as, s\<lparr>ms_ts_output_sink := Some u'\<rparr>))
      | None \<Rightarrow>
          if \<not> ms_client_connected s then Some (- 1, [], as, s)
          else (case ms_client_fd s of
                  None \<Rightarrow> Some (- 1, [], as, s\<lparr>ms_client_connected := False\<rparr>)
                | Some fd \<Rightarrow>
                    (case tcp_send_loop buf as of
                       None \<Rightarrow> None
                     | Some (True, out, as) \<Rightarrow> Some (int (length buf), [(fd, out)], as, s)
                     | Some (False, out, as) \<Rightarrow>
                         Some (- 1, [(fd, out)], as, s\<lparr>ms_client_connected := False, ms_client_fd := None\<rparr>))))"

definition writePacketCallback :: "bytes \<Rightarrow> send_result list \<Rightarrow> playout_sink
    \<Rightarrow> (int \<times> delivery list \<times> send_result list \<times> playout_sink) option" where
  "writePacketCallback buf as s =
     (case writeAllBlocking buf as s of
        None \<Rightarrow> None
      | Some (written, ds, as, s) \<Rightarrow> Some (if written = int (length buf) then int (length buf) else - 1, ds, as, s))"

text \<open>The calls the encoder makes, one after another; it discards what each answers.\<close>

fun deliver :: "bytes list \<Rightarrow> send_result list \<Rightarrow> playout_sink
    \<Rightarrow> (delivery list \<times> send_result list \<times> playout_sink) option" where
  "deliver [] as s = Some ([], as, s)"
| "deliver (buf # bufs) as s =
     (case writePacketCallback buf as s of
        None \<Rightarrow> None
      | Some (_, ds, as, s) \<Rightarrow>
          (case deliver bufs as s of None \<Rightarrow> None | Some (ds', as, s) \<Rightarrow> Some (ds @ ds', as, s)))"

section \<open>The encoder and the client\<close>

type_synonym rescale = "int \<Rightarrow> rational \<Rightarrow> rational \<Rightarrow> int"

definition close_encoder :: "rescale \<Rightarrow> close_env \<Rightarrow> send_result list \<Rightarrow> playout_sink
    \<Rightarrow> (delivery list \<times> send_result list \<times> playout_sink) option" where
  "close_encoder rescale_q ce as s =
     (case Ep_close rescale_q ce (ms_encoder s) of
        None \<Rightarrow> None
      | Some (_, calls, e) \<Rightarrow> deliver calls as (s\<lparr>ms_encoder := e\<rparr>))"

definition initializeEncoderForClient :: "rescale \<Rightarrow> close_env \<Rightarrow> open_env \<Rightarrow> send_result list \<Rightarrow> playout_sink
    \<Rightarrow> (bool \<times> delivery list \<times> send_result list \<times> playout_sink) option" where
  "initializeEncoderForClient rescale_q ce oe as s =
     (case close_encoder rescale_q ce as s of
        None \<Rightarrow> None
      | Some (ds, as, s) \<Rightarrow>
          (case Ep_open rescale_q ce oe (ms_config s) True True (ms_encoder s) of
             None \<Rightarrow> None
           | Some (ok, e) \<Rightarrow> Some (ok, ds, as, s\<lparr>ms_encoder := e\<rparr>)))"

definition handleClientDisconnect :: "rescale \<Rightarrow> close_env \<Rightarrow> send_result list \<Rightarrow> playout_sink
    \<Rightarrow> (delivery list \<times> send_result list \<times> playout_sink) option" where
  "handleClientDisconnect rescale_q ce as s =
     (if \<not> ms_client_connected s then Some ([], as, s)
      else close_encoder rescale_q ce as
             (s\<lparr>ms_client_fd := None, ms_client_connected := False, ms_output_queue := []\<rparr>))"

text \<open>What the client side of a pass gets.\<close>

record client_env =
  cl_accept :: accept_env
  cl_close :: close_env
  cl_open :: open_env
  cl_sends :: "send_result list"

definition Ms_tryAcceptClient :: "rescale \<Rightarrow> client_env \<Rightarrow> playout_sink
    \<Rightarrow> (bool \<times> delivery list \<times> send_result list \<times> playout_sink) option" where
  "Ms_tryAcceptClient rescale_q cl s =
     (if uds_mode s then Some (False, [], cl_sends cl, s)
      else if ms_client_connected s then Some (False, [], cl_sends cl, s)
      else if \<not> ms_listening s then Some (False, [], cl_sends cl, s)
      else case ac_accept (cl_accept cl) of
        None \<Rightarrow> Some (False, [], cl_sends cl, s)
      | Some fd \<Rightarrow>
          if \<not> ac_get_flags (cl_accept cl) \<or> \<not> ac_set_blocking (cl_accept cl) then Some (False, [], cl_sends cl, s)
          else (case initializeEncoderForClient rescale_q (cl_close cl) (cl_open cl) (cl_sends cl)
                       (s\<lparr>ms_client_fd := Some fd, ms_client_connected := True\<rparr>) of
                  None \<Rightarrow> None
                | Some (True, ds, as, s) \<Rightarrow> Some (True, ds, as, s)
                | Some (False, ds, as, s) \<Rightarrow>
                    (case handleClientDisconnect rescale_q (cl_close cl) as s of
                       None \<Rightarrow> None | Some (ds', as, s) \<Rightarrow> Some (False, ds @ ds', as, s))))"

text \<open>The client part of a pass of the worker loop.\<close>

definition poll_client :: "rescale \<Rightarrow> client_env \<Rightarrow> playout_sink
    \<Rightarrow> (delivery list \<times> send_result list \<times> playout_sink) option" where
  "poll_client rescale_q cl s =
     (if uds_mode s
      then if (case ms_ts_output_sink s of None \<Rightarrow> False | Some u \<Rightarrow> Us_IsClientConnected u)
           then if \<not> ms_client_connected s
                then (case initializeEncoderForClient rescale_q (cl_close cl) (cl_open cl) (cl_sends cl)
                             (s\<lparr>ms_client_connected := True\<rparr>) of
                        None \<Rightarrow> None
                      | Some (ok, ds, as, s) \<Rightarrow> Some (ds, as, if ok then s else s\<lparr>ms_client_connected := False\<rparr>))
                else Some ([], cl_sends cl, s)
           else if ms_client_connected s then handleClientDisconnect rescale_q (cl_close cl) (cl_sends cl) s
           else Some ([], cl_sends cl, s)
      else (case Ms_tryAcceptClient rescale_q cl s of
              None \<Rightarrow> None | Some (_, ds, as, s) \<Rightarrow> Some (ds, as, s)))"

section \<open>The output queue\<close>

definition queueEncodedPacket :: "packet_type \<Rightarrow> bytes \<Rightarrow> int \<Rightarrow> playout_sink \<Rightarrow> bool \<times> playout_sink" where
  "queueEncodedPacket kind data pts90k s =
     (let s = (if sc_max_output_queue_packets (ms_config s) \<le> length (ms_output_queue s) \<and> ms_output_queue s \<noteq> []
               then s\<lparr>ms_output_queue := tl (ms_output_queue s), ms_packets_dropped := ms_packets_dropped s + 1\<rparr> else s)
      in (True, s\<lparr>ms_output_queue := ms_output_queue s @ [\<lparr>ek_type = kind, ek_data = data, ek_pts90k = pts90k\<rparr>]\<rparr>))"

text \<open>
  The non-blocking send: all sent, no room (true if some of it went out), or broken. Where the answers run
  out there is no room.
\<close>

datatype send_outcome = AllSent | NoRoom bool | Broken

fun nonblocking_send :: "bytes \<Rightarrow> bool \<Rightarrow> send_result list \<Rightarrow> send_outcome \<times> bytes \<times> send_result list" where
  "nonblocking_send data some [] = (if data = [] then AllSent else NoRoom some, [], [])"
| "nonblocking_send data some (a # as) =
     (if data = [] then (AllSent, [], a # as)
      else case a of
        WouldBlock \<Rightarrow> (NoRoom some, [], as)
      | Interrupted \<Rightarrow> (Broken, [], as)
      | SendFailed \<Rightarrow> (Broken, [], as)
      | Sent n \<Rightarrow> if n = 0 then (Broken, [], as)
                  else let (r, out, as) = nonblocking_send (drop n data) True as in (r, take n data @ out, as))"

text \<open>
  \<open>sendToSocket\<close> as \<open>drainOutputQueue\<close> calls it, with the lock of the queue held: a broken connection
  makes it call \<open>handleClientDisconnect\<close>, which waits for that lock.
\<close>

definition sendToSocket :: "bytes \<Rightarrow> send_result list \<Rightarrow> playout_sink \<Rightarrow> (bool \<times> delivery list \<times> send_result list) option" where
  "sendToSocket data as s =
     (if \<not> ms_client_connected s then Some (False, [], as)
      else case ms_client_fd s of
        None \<Rightarrow> Some (False, [], as)
      | Some fd \<Rightarrow>
          (case nonblocking_send data False as of
             (AllSent, out, as) \<Rightarrow> Some (True, [(fd, out)], as)
           | (NoRoom some, out, as) \<Rightarrow> Some (some, [(fd, out)], as)
           | (Broken, out, as) \<Rightarrow> None))"

fun drain_packets :: "playout_sink \<Rightarrow> encoded_packet list \<Rightarrow> send_result list
    \<Rightarrow> (nat \<times> encoded_packet list \<times> delivery list \<times> send_result list) option" where
  "drain_packets s [] as = Some (0, [], [], as)"
| "drain_packets s (packet # packets) as =
     (case sendToSocket (ek_data packet) as s of
        None \<Rightarrow> None
      | Some (False, ds, as) \<Rightarrow> Some (0, packet # packets, ds, as)
      | Some (True, ds, as) \<Rightarrow>
          (case drain_packets s packets as of
             None \<Rightarrow> None | Some (n, left, ds', as) \<Rightarrow> Some (Suc n, left, ds @ ds', as)))"

definition drainOutputQueue :: "send_result list \<Rightarrow> playout_sink
    \<Rightarrow> (nat \<times> delivery list \<times> send_result list \<times> playout_sink) option" where
  "drainOutputQueue as s =
     (if \<not> ms_client_connected s then Some (0, [], as, s)
      else case drain_packets s (ms_output_queue s) as of
        None \<Rightarrow> None
      | Some (n, left, ds, as) \<Rightarrow> Some (n, ds, as, s\<lparr>ms_output_queue := left\<rparr>))"

section \<open>Start and stop\<close>

record tcp_env =
  te_socket :: bool
  te_reuse :: bool
  te_fcntl :: bool
  te_inet_pton :: bool
  te_bind :: bool
  te_listen :: bool

definition initializeSocket :: "tcp_env \<Rightarrow> playout_sink \<Rightarrow> bool \<times> playout_sink" where
  "initializeSocket te s =
     (let failed = (False, s\<lparr>ms_listening := False\<rparr>); host = sc_bind_host (ms_config s)
      in if \<not> te_socket te then failed
      else if \<not> te_reuse te then failed
      else if \<not> te_fcntl te then failed
      else if \<not> (host = ''0.0.0.0'' \<or> host = []) \<and> \<not> te_inet_pton te then failed
      else if \<not> te_bind te then failed
      else if \<not> te_listen te then failed
      else (True, s\<lparr>ms_listening := True\<rparr>))"

definition cleanupSocket :: "playout_sink \<Rightarrow> playout_sink" where
  "cleanupSocket s = s\<lparr>ms_client_fd := None, ms_listening := False, ms_client_connected := False, ms_output_queue := []\<rparr>"

definition start_socket :: "uds_env \<Rightarrow> tcp_env \<Rightarrow> playout_sink \<Rightarrow> bool \<times> playout_sink" where
  "start_socket ue te s =
     (if uds_mode s
      then let u = (case ms_ts_output_sink s of None \<Rightarrow> TsOutputSink (sc_ts_socket_path (ms_config s)) | Some u \<Rightarrow> u);
               (ok, u) = Us_Initialize ue u
           in if \<not> ok then (False, s\<lparr>ms_ts_output_sink := Some u\<rparr>)
              else let (ok, u) = Us_Start u in (ok, s\<lparr>ms_ts_output_sink := Some u\<rparr>)
      else initializeSocket te s)"

definition Ms_start :: "uds_env \<Rightarrow> tcp_env \<Rightarrow> playout_sink \<Rightarrow> bool \<times> playout_sink" where
  "Ms_start ue te s =
     (if ms_running s then (False, s)
      else if ms_internal_state s \<noteq> Idle then (False, s)
      else let (ok, s) = start_socket ue te s
      in if \<not> ok then (False, s\<lparr>ms_internal_state := Error\<rparr>)
      else let s = s\<lparr>ms_internal_state := WaitingForClient, ms_sink_start_time_recorded := False\<rparr>;
               s = s\<lparr>ms_stop_requested := False, ms_running := True, ms_accept_thread := \<not> uds_mode s\<rparr>;
               s = s\<lparr>ms_worker_thread := True\<rparr>
           in (True, s\<lparr>ms_internal_state := Running\<rparr>))"

text \<open>\<open>stop\<close> is the request and, once the threads have been joined, the rest.\<close>

definition stops :: "playout_sink \<Rightarrow> bool" where
  "stops s \<longleftrightarrow> ms_running s \<and> ms_internal_state s \<noteq> Stopped"

definition Ms_stop_request :: "playout_sink \<Rightarrow> playout_sink" where
  "Ms_stop_request s = (if stops s then s\<lparr>ms_stop_requested := True\<rparr> else s)"

text \<open>The null packet at the end: a full socket is tried again, any other error ends it.\<close>

fun pad_send_loop :: "bytes \<Rightarrow> send_result list \<Rightarrow> (bytes \<times> send_result list) option" where
  "pad_send_loop data [] = (if data = [] then Some ([], []) else None)"
| "pad_send_loop data (a # as) =
     (if data = [] then Some ([], a # as)
      else case a of
        WouldBlock \<Rightarrow> pad_send_loop data as
      | Interrupted \<Rightarrow> Some ([], as)
      | SendFailed \<Rightarrow> Some ([], as)
      | Sent n \<Rightarrow> (case pad_send_loop (drop n data) as of None \<Rightarrow> None | Some (out, as) \<Rightarrow> Some (take n data @ out, as)))"

definition Ms_stop_finish :: "rescale \<Rightarrow> close_env \<Rightarrow> send_result list \<Rightarrow> playout_sink \<Rightarrow> (delivery list \<times> playout_sink) option" where
  "Ms_stop_finish rescale_q ce as s =
     (if \<not> stops s then Some ([], s)
      else let s = s\<lparr>ms_worker_thread := False, ms_accept_thread := False\<rparr>
      in case close_encoder rescale_q ce as s of
        None \<Rightarrow> None
      | Some (ds, as, s) \<Rightarrow>
          (case (if ms_client_connected s
                 then (case ms_client_fd s of
                         None \<Rightarrow> Some []
                       | Some fd \<Rightarrow> map_option (\<lambda>(out, _). [(fd, out)]) (pad_send_loop null_packet as))
                 else Some []) of
             None \<Rightarrow> None
           | Some padding \<Rightarrow>
               let s = (case ms_ts_output_sink s of
                          Some u \<Rightarrow> s\<lparr>ms_ts_output_sink := None\<rparr>
                        | None \<Rightarrow> cleanupSocket s)
               in Some (ds @ padding, s\<lparr>ms_running := False, ms_internal_state := Stopped\<rparr>)))"

section \<open>The worker loop\<close>

definition kMaxLateToleranceUs :: time_us where "kMaxLateToleranceUs = 50000"
definition kSoftWaitThresholdUs :: time_us where "kSoftWaitThresholdUs = 5000"
definition kWaitFudgeUs :: time_us where "kWaitFudgeUs = 500"
definition kSameTimebaseThresholdUs :: time_us where "kSameTimebaseThresholdUs = 1000000"

text \<open>What is to be done with the next frame: wait until some time, drop it, or send it.\<close>

datatype frame_decision = WaitUntil time_us | DropLate | SendNow time_us

definition classify :: "time_us \<Rightarrow> time_us \<Rightarrow> frame_decision" where
  "classify now_us target_time_us =
     (let gap_us = now_us - target_time_us
      in if gap_us < - kSoftWaitThresholdUs then WaitUntil (target_time_us - kWaitFudgeUs)
         else if kMaxLateToleranceUs < gap_us then DropLate
         else SendNow gap_us)"

text \<open>The first frame fixes the start time, unless it is late by the clock itself.\<close>

definition decide_frame :: "time_us \<Rightarrow> int \<Rightarrow> playout_sink \<Rightarrow> frame_decision \<times> playout_sink" where
  "decide_frame now_us pts_usec s =
     (if ms_sink_start_time_recorded s
      then (classify now_us (ms_sink_start_time_utc_us s + pts_usec), s)
      else let pts_age_us = now_us - pts_usec
           in if 0 < pts_age_us \<and> pts_age_us < kSameTimebaseThresholdUs \<and> kMaxLateToleranceUs < pts_age_us
              then (DropLate, s)
              else let s = s\<lparr>ms_sink_start_time_utc_us := now_us - pts_usec, ms_sink_start_time_recorded := True\<rparr>
                   in (classify now_us (ms_sink_start_time_utc_us s + pts_usec), s))"

definition count_late_drop :: "playout_sink \<Rightarrow> playout_sink" where
  "count_late_drop = count (\<lambda>st. st\<lparr>st_late_frame_drops := st_late_frame_drops st + 1,
     st_frames_dropped := st_frames_dropped st + 1, st_late_frames := st_late_frames st + 1\<rparr>)"

text \<open>Encoding happens only while a client is there; a null pointer ends the program.\<close>

definition processFrame :: "rescale \<Rightarrow> encode_env \<Rightarrow> frame \<Rightarrow> int \<Rightarrow> send_result list \<Rightarrow> playout_sink
    \<Rightarrow> (delivery list \<times> playout_sink) option" where
  "processFrame rescale_q en f pts90k as s =
     (if ms_client_connected s
      then let (out, e) = Ep_encodeFrame rescale_q en f pts90k (ms_encoder s)
           in case deliver (eo_calls out) as (s\<lparr>ms_encoder := e\<rparr>) of
                None \<Rightarrow> None
              | Some (ds, _, s) \<Rightarrow>
                  (case eo_result out of
                     NullAccess \<Rightarrow> None
                   | Encoded ok \<Rightarrow>
                       Some (ds, if ok then s
                                 else count (\<lambda>st. st\<lparr>st_encoding_errors := st_encoding_errors st + 1\<rparr>) s))
      else Some ([], s))"

definition handleBufferUnderflow :: "playout_sink \<Rightarrow> playout_sink" where
  "handleBufferUnderflow = count (\<lambda>st. st\<lparr>st_buffer_underruns := st_buffer_underruns st + 1\<rparr>)"

text \<open>What a pass gets, and what it did; \<open>Early t\<close> waited until \<open>t\<close> and left the frame in the ring.\<close>

record worker_env =
  wv_now_us :: time_us
  wv_client :: client_env
  wv_queue_sends :: "send_result list"
  wv_encode :: encode_env

datatype worker_outcome = Throttled | NoFrame | Underrun | Early time_us | Dropped frame | Emitted frame time_us

definition frame_step :: "rescale \<Rightarrow> worker_env \<Rightarrow> send_result list \<Rightarrow> playout_sink \<Rightarrow> ring_buffer
    \<Rightarrow> (worker_outcome \<times> delivery list \<times> playout_sink \<times> ring_buffer) option" where
  "frame_step rescale_q wv as s q =
     (case Peek q of
        None \<Rightarrow> Some (Underrun, [], handleBufferUnderflow s, q)
      | Some next_frame \<Rightarrow>
          let pts_usec = md_pts (fr_metadata next_frame);
              (decision, s) = decide_frame (wv_now_us wv) pts_usec s
          in case decision of
               WaitUntil t \<Rightarrow> Some (Early t, [], s, q)
             | DropLate \<Rightarrow>
                 (case Pop q of
                    (None, q) \<Rightarrow> Some (NoFrame, [], s, q)
                  | (Some f, q) \<Rightarrow> Some (Dropped f, [], count_late_drop s, q))
             | SendNow gap_us \<Rightarrow>
                 (case Pop q of
                    (None, q) \<Rightarrow> Some (NoFrame, [], s, q)
                  | (Some f, q) \<Rightarrow>
                      let s = (if 0 < gap_us then count (\<lambda>st. st\<lparr>st_late_frames := st_late_frames st + 1\<rparr>) s else s);
                          pts90k = (pts_usec * 90000) sdiv 1000000
                      in case processFrame rescale_q (wv_encode wv) f pts90k as s of
                           None \<Rightarrow> None
                         | Some (ds, s) \<Rightarrow>
                             Some (Emitted f gap_us, ds,
                                   count (\<lambda>st. st\<lparr>st_frames_sent := st_frames_sent st + 1\<rparr>) s, q)))"

definition workerLoop_pass :: "rescale \<Rightarrow> worker_env \<Rightarrow> playout_sink \<Rightarrow> ring_buffer
    \<Rightarrow> (worker_outcome \<times> delivery list \<times> playout_sink \<times> ring_buffer) option" where
  "workerLoop_pass rescale_q wv s q =
     (case poll_client rescale_q (wv_client wv) s of
        None \<Rightarrow> None
      | Some (ds, as, s) \<Rightarrow>
          (case drainOutputQueue (wv_queue_sends wv) s of
             None \<Rightarrow> None
           | Some (_, drained, _, s) \<Rightarrow>
               if sc_output_queue_high_water_mark (ms_config s) \<le> length (ms_output_queue s)
               then Some (Throttled, ds @ drained, s, q)
               else (case frame_step rescale_q wv as s q of
                       None \<Rightarrow> None
                     | Some (r, ds', s, q) \<Rightarrow> Some (r, ds @ drained @ ds', s, q))))"

text \<open>After the loop: the queue is drained until nothing goes out, a hundred times at most.\<close>

fun flush_queue :: "nat \<Rightarrow> send_result list \<Rightarrow> playout_sink \<Rightarrow> (delivery list \<times> playout_sink) option" where
  "flush_queue 0 as s = Some ([], s)"
| "flush_queue (Suc left) as s =
     (case drainOutputQueue as s of
        None \<Rightarrow> None
      | Some (n, ds, as, s) \<Rightarrow>
          if n = 0 then Some (ds, s)
          else (case flush_queue left as s of None \<Rightarrow> None | Some (ds', s) \<Rightarrow> Some (ds @ ds', s)))"

definition max_flush_iterations :: nat where "max_flush_iterations = 100"

definition workerLoop_end :: "send_result list \<Rightarrow> playout_sink \<Rightarrow> (delivery list \<times> playout_sink) option" where
  "workerLoop_end as s =
     (if ms_stop_requested s \<and> ms_client_connected s then flush_queue max_flush_iterations as s else Some ([], s))"

section \<open>Threads\<close>

text \<open>
  What happens to the sink and its ring, in any order: frames arriving, passes of the worker, rounds of the
  accept threads, requests to stop.
\<close>

datatype sink_event =
    FrameArrives frame
  | WorkerPass worker_env
  | AcceptRound client_env
  | UdsAccept accept_env
  | StopRequested

fun sink_step :: "rescale \<Rightarrow> sink_event \<Rightarrow> playout_sink \<times> ring_buffer
    \<Rightarrow> (worker_outcome list \<times> delivery list \<times> playout_sink \<times> ring_buffer) option" where
  "sink_step rescale_q (FrameArrives f) (s, q) = Some ([], [], s, snd (Push q f))"
| "sink_step rescale_q (WorkerPass wv) (s, q) =
     (if ms_worker_thread s \<and> ms_running s \<and> \<not> ms_stop_requested s
      then (case workerLoop_pass rescale_q wv s q of
              None \<Rightarrow> None | Some (r, ds, s, q) \<Rightarrow> Some ([r], ds, s, q))
      else Some ([], [], s, q))"
| "sink_step rescale_q (AcceptRound cl) (s, q) =
     (if ms_accept_thread s \<and> ms_running s \<and> \<not> ms_stop_requested s
      then (case Ms_tryAcceptClient rescale_q cl s of
              None \<Rightarrow> None | Some (_, ds, _, s) \<Rightarrow> Some ([], ds, s, q))
      else Some ([], [], s, q))"
| "sink_step rescale_q (UdsAccept ac) (s, q) =
     Some ([], [], s\<lparr>ms_ts_output_sink := map_option (Us_AcceptThread_pass ac) (ms_ts_output_sink s)\<rparr>, q)"
| "sink_step rescale_q StopRequested (s, q) = Some ([], [], Ms_stop_request s, q)"

fun sink_run :: "rescale \<Rightarrow> sink_event list \<Rightarrow> playout_sink \<times> ring_buffer
    \<Rightarrow> (worker_outcome list \<times> delivery list \<times> playout_sink \<times> ring_buffer) option" where
  "sink_run rescale_q [] (s, q) = Some ([], [], s, q)"
| "sink_run rescale_q (ev # evs) (s, q) =
     (case sink_step rescale_q ev (s, q) of
        None \<Rightarrow> None
      | Some (rs, ds, s, q) \<Rightarrow>
          (case sink_run rescale_q evs (s, q) of
             None \<Rightarrow> None | Some (rs', ds', s, q) \<Rightarrow> Some (rs @ rs', ds @ ds', s, q)))"

section \<open>What the client side keeps\<close>

definition loop_state :: "playout_sink \<Rightarrow> sink_config \<times> sink_stats \<times> time_us \<times> bool \<times> nat \<times> internal_state
    \<times> bool \<times> bool \<times> bool \<times> bool" where
  "loop_state s = (ms_config s, ms_stats s, ms_sink_start_time_utc_us s, ms_sink_start_time_recorded s,
     ms_packets_dropped s, ms_internal_state s, ms_running s, ms_stop_requested s, ms_worker_thread s, ms_accept_thread s)"

definition keeps_loop :: "playout_sink \<Rightarrow> playout_sink \<Rightarrow> bool" where
  "keeps_loop s s' \<longleftrightarrow> loop_state s' = loop_state s \<and> (ms_output_queue s = [] \<longrightarrow> ms_output_queue s' = [])"

lemma keeps_loop_refl [simp]: "keeps_loop s s"
  by (simp add: keeps_loop_def)

lemma keeps_loop_trans: "keeps_loop s u \<Longrightarrow> keeps_loop u s' \<Longrightarrow> keeps_loop s s'"
  by (simp add: keeps_loop_def)

lemma keeps_loop_upd:
  "keeps_loop s (s\<lparr>ms_encoder := e\<rparr>)" "keeps_loop s (s\<lparr>ms_client_connected := c\<rparr>)"
  "keeps_loop s (s\<lparr>ms_client_fd := fd, ms_client_connected := c\<rparr>)"
  "keeps_loop s (s\<lparr>ms_client_connected := c, ms_client_fd := fd\<rparr>)"
  "keeps_loop s (s\<lparr>ms_client_fd := fd, ms_client_connected := c, ms_output_queue := []\<rparr>)"
  "keeps_loop s (s\<lparr>ms_ts_output_sink := u\<rparr>)"
  by (simp_all add: keeps_loop_def loop_state_def)

lemma keeps_loop_fields:
  assumes "keeps_loop s s'"
  shows "ms_config s' = ms_config s" "ms_stats s' = ms_stats s"
    "ms_sink_start_time_utc_us s' = ms_sink_start_time_utc_us s"
    "ms_sink_start_time_recorded s' = ms_sink_start_time_recorded s" "ms_packets_dropped s' = ms_packets_dropped s"
    "ms_internal_state s' = ms_internal_state s" "ms_running s' = ms_running s"
    "ms_stop_requested s' = ms_stop_requested s" "ms_worker_thread s' = ms_worker_thread s"
    "ms_accept_thread s' = ms_accept_thread s" "uds_mode s' = uds_mode s"
    "ms_output_queue s = [] \<Longrightarrow> ms_output_queue s' = []"
  using assms by (simp_all add: keeps_loop_def loop_state_def uds_mode_def)

lemma writePacketCallback_keeps: "writePacketCallback buf as s = Some (n, ds, as', s') \<Longrightarrow> keeps_loop s s'"
  by (auto simp: writePacketCallback_def writeAllBlocking_def keeps_loop_upd
        split: option.splits if_splits bool.splits)

lemma deliver_keeps: "deliver bufs as s = Some (ds, as', s') \<Longrightarrow> keeps_loop s s'"
proof (induction bufs arbitrary: as s ds)
  case (Cons buf bufs)
  then obtain n d as1 u ds2 where w: "writePacketCallback buf as s = Some (n, d, as1, u)"
      "deliver bufs as1 u = Some (ds2, as', s')"
    by (auto split: option.splits)
  show ?case using writePacketCallback_keeps [OF w(1)] Cons.IH [OF w(2)] by (rule keeps_loop_trans)
qed simp

lemma close_encoder_keeps: "close_encoder rescale_q ce as s = Some (ds, as', s') \<Longrightarrow> keeps_loop s s'"
  using deliver_keeps keeps_loop_trans keeps_loop_upd(1)
  by (fastforce simp: close_encoder_def split: option.splits)

lemma initializeEncoderForClient_keeps:
  "initializeEncoderForClient rescale_q ce oe as s = Some (ok, ds, as', s') \<Longrightarrow> keeps_loop s s'"
  using close_encoder_keeps keeps_loop_trans keeps_loop_upd(1)
  by (fastforce simp: initializeEncoderForClient_def split: option.splits)

lemma handleClientDisconnect_keeps:
  "handleClientDisconnect rescale_q ce as s = Some (ds, as', s') \<Longrightarrow> keeps_loop s s'"
  using close_encoder_keeps [of rescale_q ce as "s\<lparr>ms_client_fd := None, ms_client_connected := False, ms_output_queue := []\<rparr>"]
    keeps_loop_trans [OF keeps_loop_upd(5)]
  by (auto simp: handleClientDisconnect_def split: if_splits)

lemma Ms_tryAcceptClient_keeps:
  assumes "Ms_tryAcceptClient rescale_q cl s = Some (ok, ds, as, s')"
  shows "keeps_loop s s'"
proof -
  let ?u = "\<lambda>fd. s\<lparr>ms_client_fd := Some fd, ms_client_connected := True\<rparr>"
  have opened: "keeps_loop s v"
    if "initializeEncoderForClient rescale_q (cl_close cl) (cl_open cl) (cl_sends cl) (?u fd) = Some (ok1, ds1, as1, v)"
    for fd ok1 ds1 as1 v
    using keeps_loop_trans [OF keeps_loop_upd(3) initializeEncoderForClient_keeps [OF that]] .
  then show ?thesis
    using assms by (auto simp: Ms_tryAcceptClient_def split: if_splits option.splits bool.splits
      intro: keeps_loop_trans [OF opened handleClientDisconnect_keeps])
qed

lemma poll_client_keeps:
  assumes "poll_client rescale_q cl s = Some (ds, as, s')"
  shows "keeps_loop s s'"
proof -
  have "keeps_loop s s'"
    if i: "initializeEncoderForClient rescale_q (cl_close cl) (cl_open cl) (cl_sends cl) (s\<lparr>ms_client_connected := True\<rparr>)
        = Some (ok, ds1, as1, v)" and r: "s' = (if ok then v else v\<lparr>ms_client_connected := False\<rparr>)" for ok ds1 as1 v
  proof -
    have "keeps_loop s v"
      using keeps_loop_trans [OF keeps_loop_upd(2) initializeEncoderForClient_keeps [OF i]] .
    then show ?thesis using r keeps_loop_trans [OF _ keeps_loop_upd(2)] by simp
  qed
  then show ?thesis
    using assms handleClientDisconnect_keeps Ms_tryAcceptClient_keeps
    by (auto simp: poll_client_def split: if_splits option.splits)
qed

text \<open>Nothing in the sink fills the queue, so a queue that is empty is drained without effect.\<close>

lemma drainOutputQueue_empty: "ms_output_queue s = [] \<Longrightarrow> drainOutputQueue as s = Some (0, [], as, s)"
  by (simp add: drainOutputQueue_def)

lemma processFrame_keeps:
  assumes "processFrame rescale_q en f pts90k as s = Some (ds, s')"
  shows "\<exists>u n. keeps_loop s u \<and> n \<le> 1
    \<and> s' = count (\<lambda>st. st\<lparr>st_encoding_errors := st_encoding_errors st + n\<rparr>) u"
proof (cases "ms_client_connected s")
  case False
  with assms show ?thesis by (auto simp: processFrame_def count_def intro!: exI [of _ s] exI [of _ 0])
next
  case True
  obtain out e where e: "Ep_encodeFrame rescale_q en f pts90k (ms_encoder s) = (out, e)" by fastforce
  obtain as' u ok where u: "deliver (eo_calls out) as (s\<lparr>ms_encoder := e\<rparr>) = Some (ds, as', u)"
      "eo_result out = Encoded ok"
      "s' = (if ok then u else count (\<lambda>st. st\<lparr>st_encoding_errors := st_encoding_errors st + 1\<rparr>) u)"
    using assms True e by (auto simp: processFrame_def split: option.splits encode_result.splits)
  have "keeps_loop s u" using keeps_loop_trans [OF keeps_loop_upd(1) deliver_keeps [OF u(1)]] .
  with u(3) show ?thesis
    by (intro exI [of _ u] exI [of _ "if ok then 0 else 1"]) (simp add: count_def)
qed

section \<open>What a pass does\<close>

fun tally :: "worker_outcome \<Rightarrow> nat \<Rightarrow> sink_stats \<Rightarrow> sink_stats" where
  "tally Underrun n st = st\<lparr>st_buffer_underruns := st_buffer_underruns st + 1\<rparr>"
| "tally (Dropped f) n st = st\<lparr>st_late_frame_drops := st_late_frame_drops st + 1,
     st_frames_dropped := st_frames_dropped st + 1, st_late_frames := st_late_frames st + 1\<rparr>"
| "tally (Emitted f gap) n st = st\<lparr>st_late_frames := st_late_frames st + (if 0 < gap then 1 else 0),
     st_encoding_errors := st_encoding_errors st + n, st_frames_sent := st_frames_sent st + 1\<rparr>"
| "tally _ n st = st"

fun taken :: "worker_outcome list \<Rightarrow> frame list" where
  "taken [] = []"
| "taken (Dropped f # rs) = f # taken rs"
| "taken (Emitted f gap # rs) = f # taken rs"
| "taken (_ # rs) = taken rs"

lemma taken_append: "taken (rs @ rs') = taken rs @ taken rs'"
  by (induction rs rule: taken.induct) auto

text \<open>The time a frame is due, once the start is known.\<close>

definition due_time :: "playout_sink \<Rightarrow> frame \<Rightarrow> time_us" where
  "due_time s f = ms_sink_start_time_utc_us s + md_pts (fr_metadata f)"

text \<open>What an outcome says of the clock, the frame at the head of the ring and the start time.\<close>

definition outcome_ok :: "time_us \<Rightarrow> playout_sink \<Rightarrow> playout_sink \<Rightarrow> frame list \<Rightarrow> worker_outcome \<Rightarrow> bool" where
  "outcome_ok now s s' frames r \<longleftrightarrow>
     (case r of
        Throttled \<Rightarrow> True
      | NoFrame \<Rightarrow> False
      | Underrun \<Rightarrow> frames = []
      | Early t \<Rightarrow> frames \<noteq> [] \<and> ms_sink_start_time_recorded s
          \<and> t = due_time s (hd frames) - 500 \<and> now + 4500 < t
      | Dropped f \<Rightarrow> frames \<noteq> [] \<and> f = hd frames
          \<and> (if ms_sink_start_time_recorded s then due_time s f + 50000 < now
             else \<not> ms_sink_start_time_recorded s' \<and> 50000 < now - md_pts (fr_metadata f)
                \<and> now - md_pts (fr_metadata f) < 1000000)
      | Emitted f gap \<Rightarrow> frames \<noteq> [] \<and> f = hd frames \<and> ms_sink_start_time_recorded s'
          \<and> now = due_time s' f + gap \<and> - 5000 \<le> gap \<and> gap \<le> 50000
          \<and> (\<not> ms_sink_start_time_recorded s \<longrightarrow> gap = 0
               \<and> \<not> (50000 < now - md_pts (fr_metadata f) \<and> now - md_pts (fr_metadata f) < 1000000)))"

definition same_start :: "playout_sink \<Rightarrow> playout_sink \<Rightarrow> bool" where
  "same_start s s' \<longleftrightarrow> (ms_sink_start_time_recorded s \<longrightarrow>
     ms_sink_start_time_recorded s' \<and> ms_sink_start_time_utc_us s' = ms_sink_start_time_utc_us s)"

lemmas timing_defs = classify_def kMaxLateToleranceUs_def kSoftWaitThresholdUs_def kWaitFudgeUs_def
  kSameTimebaseThresholdUs_def

lemma decide_frame_cases:
  assumes "decide_frame now pts s = (d, u)"
  shows "ms_stats u = ms_stats s \<and> ms_output_queue u = ms_output_queue s \<and> ms_config u = ms_config s
    \<and> ms_packets_dropped u = ms_packets_dropped s \<and> same_start s u
    \<and> (case d of
         WaitUntil t \<Rightarrow> ms_sink_start_time_recorded s \<and> t = ms_sink_start_time_utc_us s + pts - 500 \<and> now + 4500 < t
       | DropLate \<Rightarrow> if ms_sink_start_time_recorded s then ms_sink_start_time_utc_us s + pts + 50000 < now
           else \<not> ms_sink_start_time_recorded u \<and> 50000 < now - pts \<and> now - pts < 1000000
       | SendNow gap \<Rightarrow> ms_sink_start_time_recorded u \<and> now = ms_sink_start_time_utc_us u + pts + gap
           \<and> - 5000 \<le> gap \<and> gap \<le> 50000
           \<and> (\<not> ms_sink_start_time_recorded s \<longrightarrow> gap = 0 \<and> \<not> (50000 < now - pts \<and> now - pts < 1000000)))"
  using assms by (auto simp: decide_frame_def timing_defs same_start_def Let_def split: if_splits)

lemma frame_step_result:
  assumes "frame_step rescale_q wv as s q = Some (r, ds, s', q')" "rb_wf q"
  shows "rb_wf q' \<and> rb_frames q = taken [r] @ rb_frames q' \<and> rb_audio_frames q' = rb_audio_frames q
    \<and> outcome_ok (wv_now_us wv) s s' (rb_frames q) r \<and> same_start s s'
    \<and> (\<exists>n \<le> 1. ms_stats s' = tally r n (ms_stats s))
    \<and> (ms_output_queue s = [] \<longrightarrow> ms_output_queue s' = []) \<and> ms_config s' = ms_config s
    \<and> ms_packets_dropped s' = ms_packets_dropped s"
proof (cases "rb_frames q")
  case Nil
  then have "r = Underrun \<and> s' = handleBufferUnderflow s \<and> q' = q"
    using assms by (simp add: frame_step_def Peek_eq)
  with Nil assms(2) show ?thesis
    by (auto simp: outcome_ok_def same_start_def handleBufferUnderflow_def count_def intro!: exI [of _ 0])
next
  case (Cons x xs)
  obtain q1 where q1: "Pop q = (Some x, q1)" "rb_frames q1 = xs" "rb_audio_frames q1 = rb_audio_frames q" "rb_wf q1"
    using Pop_Cons [OF assms(2) Cons] by metis
  obtain d u where d: "decide_frame (wv_now_us wv) (md_pts (fr_metadata x)) s = (d, u)" by fastforce
  note decided = decide_frame_cases [OF d]
  have peek: "Peek q = Some x" using assms(2) Cons by (simp add: Peek_eq)
  show ?thesis
  proof (cases d)
    case (WaitUntil t)
    then have "r = Early t \<and> s' = u \<and> q' = q"
      using assms(1) peek d by (simp add: frame_step_def)
    with WaitUntil decided Cons assms(2) show ?thesis
      by (auto simp: outcome_ok_def due_time_def intro!: exI [of _ 0])
  next
    case DropLate
    then have "r = Dropped x \<and> s' = count_late_drop u \<and> q' = q1"
      using assms(1) peek d q1(1) by (simp add: frame_step_def)
    with DropLate decided Cons q1 show ?thesis
      by (auto simp: outcome_ok_def due_time_def same_start_def count_late_drop_def count_def split: if_splits
            intro!: exI [of _ 0])
  next
    case (SendNow gap)
    define v where "v = (if 0 < gap then count (\<lambda>st. st\<lparr>st_late_frames := st_late_frames st + 1\<rparr>) u else u)"
    obtain ds' w where w: "processFrame rescale_q (wv_encode wv) x ((md_pts (fr_metadata x) * 90000) sdiv 1000000) as v
        = Some (ds', w)" "r = Emitted x gap" "q' = q1"
        "s' = count (\<lambda>st. st\<lparr>st_frames_sent := st_frames_sent st + 1\<rparr>) w"
      using assms(1) peek d q1(1) SendNow
      by (auto simp: frame_step_def Let_def v_def [symmetric] split: option.splits)
    obtain x' n where x': "keeps_loop v x'" "n \<le> 1"
        "w = count (\<lambda>st. st\<lparr>st_encoding_errors := st_encoding_errors st + n\<rparr>) x'"
      using processFrame_keeps [OF w(1)] by blast
    have stats: "ms_stats s' = tally r n (ms_stats s)"
      using w x'(3) keeps_loop_fields(2) [OF x'(1)] decided by (simp add: v_def count_def)
    have v: "ms_sink_start_time_recorded v = ms_sink_start_time_recorded u"
      "ms_sink_start_time_utc_us v = ms_sink_start_time_utc_us u" "ms_output_queue v = ms_output_queue u"
      "ms_config v = ms_config u" "ms_packets_dropped v = ms_packets_dropped u"
      by (simp_all add: v_def count_def)
    have s': "ms_sink_start_time_recorded s' = ms_sink_start_time_recorded u"
      "ms_sink_start_time_utc_us s' = ms_sink_start_time_utc_us u" "ms_config s' = ms_config u"
      "ms_packets_dropped s' = ms_packets_dropped u" "ms_output_queue u = [] \<Longrightarrow> ms_output_queue s' = []"
      using keeps_loop_fields [OF x'(1)] v w(4) x'(3) by (simp_all add: count_def)
    show ?thesis
      using SendNow decided Cons q1 w(2,3) x'(2) stats s'
      by (auto simp: outcome_ok_def due_time_def same_start_def)
  qed
qed

lemma workerLoop_pass_result:
  assumes "workerLoop_pass rescale_q wv s q = Some (r, ds, s', q')" "rb_wf q" "ms_output_queue s = []"
  shows "rb_wf q' \<and> rb_frames q = taken [r] @ rb_frames q' \<and> rb_audio_frames q' = rb_audio_frames q
    \<and> (0 < sc_output_queue_high_water_mark (ms_config s) \<longrightarrow>
         r \<noteq> Throttled \<and> outcome_ok (wv_now_us wv) s s' (rb_frames q) r)
    \<and> same_start s s' \<and> (\<exists>n \<le> 1. ms_stats s' = tally r n (ms_stats s))
    \<and> ms_output_queue s' = [] \<and> ms_config s' = ms_config s \<and> ms_packets_dropped s' = ms_packets_dropped s"
proof -
  obtain ds1 as u where u: "poll_client rescale_q (wv_client wv) s = Some (ds1, as, u)"
    using assms(1) by (auto simp: workerLoop_pass_def split: option.splits)
  note kept = keeps_loop_fields [OF poll_client_keeps [OF u]]
  have drained: "drainOutputQueue (wv_queue_sends wv) u = Some (0, [], wv_queue_sends wv, u)"
    using kept(12) assms(3) by (simp add: drainOutputQueue_empty)
  show ?thesis
  proof (cases "sc_output_queue_high_water_mark (ms_config s) = 0")
    case True
    then have "r = Throttled \<and> s' = u \<and> q' = q"
      using assms(1) u drained kept(1) by (simp add: workerLoop_pass_def)
    with True kept assms(2,3) show ?thesis by (auto simp: same_start_def intro!: exI [of _ 0])
  next
    case False
    then obtain ds2 where f: "frame_step rescale_q wv as u q = Some (r, ds2, s', q')"
      using assms(1,3) u drained kept by (auto simp: workerLoop_pass_def split: option.splits)
    have "r \<noteq> Throttled"
      using f by (auto simp: frame_step_def Let_def split: option.splits prod.splits frame_decision.splits)
    moreover have "outcome_ok (wv_now_us wv) u s' (rb_frames q) r \<longleftrightarrow> outcome_ok (wv_now_us wv) s s' (rb_frames q) r"
      using kept by (cases r) (simp_all add: outcome_ok_def due_time_def)
    moreover note stepped = frame_step_result [OF f assms(2)]
    ultimately have "r \<noteq> Throttled \<and> outcome_ok (wv_now_us wv) s s' (rb_frames q) r" by blast
    moreover have "same_start s s'" "ms_config s' = ms_config s" "ms_packets_dropped s' = ms_packets_dropped s"
      "\<exists>n \<le> 1. ms_stats s' = tally r n (ms_stats s)" "ms_output_queue s' = []"
      using stepped kept assms(3) by (simp_all add: same_start_def)
    ultimately show ?thesis using stepped by blast
  qed
qed

section \<open>Counting over a run\<close>

fun arrivals :: "sink_event list \<Rightarrow> frame list" where
  "arrivals [] = []"
| "arrivals (FrameArrives f # evs) = f # arrivals evs"
| "arrivals (_ # evs) = arrivals evs"

fun sent_in :: "worker_outcome list \<Rightarrow> nat" where
  "sent_in [] = 0"
| "sent_in (Emitted f gap # rs) = Suc (sent_in rs)"
| "sent_in (_ # rs) = sent_in rs"

fun late_in :: "worker_outcome list \<Rightarrow> nat" where
  "late_in [] = 0"
| "late_in (Emitted f gap # rs) = (if 0 < gap then 1 else 0) + late_in rs"
| "late_in (_ # rs) = late_in rs"

fun dropped_in :: "worker_outcome list \<Rightarrow> nat" where
  "dropped_in [] = 0"
| "dropped_in (Dropped f # rs) = Suc (dropped_in rs)"
| "dropped_in (_ # rs) = dropped_in rs"

definition counted :: "worker_outcome list \<Rightarrow> sink_stats \<Rightarrow> sink_stats \<Rightarrow> bool" where
  "counted rs st st' \<longleftrightarrow> st_frames_sent st' = st_frames_sent st + sent_in rs
     \<and> st_frames_dropped st' = st_frames_dropped st + dropped_in rs
     \<and> st_late_frame_drops st' = st_late_frame_drops st + dropped_in rs
     \<and> st_late_frames st' = st_late_frames st + late_in rs + dropped_in rs
     \<and> st_encoding_errors st' \<le> st_encoding_errors st + sent_in rs
     \<and> st_network_errors st' = st_network_errors st"

lemma counted_refl [simp]: "counted [] st st"
  by (simp add: counted_def)

lemma in_append:
  "sent_in (rs @ rs') = sent_in rs + sent_in rs'" "late_in (rs @ rs') = late_in rs + late_in rs'"
  "dropped_in (rs @ rs') = dropped_in rs + dropped_in rs'"
  by (induction rs rule: sent_in.induct) auto

lemma counted_append: "counted rs st u \<Longrightarrow> counted rs' u st' \<Longrightarrow> counted (rs @ rs') st st'"
  by (auto simp: counted_def in_append)

lemma counted_tally: "n \<le> 1 \<Longrightarrow> counted [r] st (tally r n st)"
  by (cases r) (simp_all add: counted_def)

lemma length_taken: "length (taken rs) = sent_in rs + dropped_in rs"
  by (induction rs rule: taken.induct) auto

lemma sink_step_result:
  assumes "sink_step rescale_q ev (s, q) = Some (rs, ds, s', q')" "rb_wf q" "ms_output_queue s = []"
  shows "rb_wf q' \<and> ms_output_queue s' = [] \<and> counted rs (ms_stats s) (ms_stats s')
    \<and> (\<exists>xs. subseq xs (arrivals [ev]) \<and> rb_frames q @ xs = taken rs @ rb_frames q')"
proof (cases ev)
  case (FrameArrives f)
  then have r: "rs = []" "s' = s" "q' = snd (Push q f)" using assms(1) by simp_all
  show ?thesis
  proof (cases "length (rb_frames q) < rb_room q")
    case True
    with Push_room [OF assms(2)] obtain q1 where "Push q f = (True, q1)" "rb_frames q1 = rb_frames q @ [f]" "rb_wf q1"
      by metis
    with r FrameArrives assms(3) show ?thesis by (auto intro!: exI [of _ "[f]"])
  next
    case False
    with rb_frames_bounded [OF assms(2)] have "Push q f = (False, q)" by (intro Push_full assms(2)) simp
    with r FrameArrives assms(2,3) show ?thesis by (auto intro!: exI [of _ "[]"])
  qed
next
  case (WorkerPass wv)
  show ?thesis
  proof (cases "ms_worker_thread s \<and> ms_running s \<and> \<not> ms_stop_requested s")
    case True
    then obtain r where r: "workerLoop_pass rescale_q wv s q = Some (r, ds, s', q')" "rs = [r]"
      using assms(1) WorkerPass by (auto split: option.splits)
    from workerLoop_pass_result [OF r(1) assms(2,3)] r(2) WorkerPass show ?thesis
      using counted_tally by auto
  next
    case False
    with assms WorkerPass show ?thesis by auto
  qed
next
  case (AcceptRound cl)
  show ?thesis
  proof (cases "ms_accept_thread s \<and> ms_running s \<and> \<not> ms_stop_requested s")
    case True
    then obtain ok as where "Ms_tryAcceptClient rescale_q cl s = Some (ok, ds, as, s')" "rs = []" "q' = q"
      using assms(1) AcceptRound by (auto split: option.splits)
    with keeps_loop_fields [OF Ms_tryAcceptClient_keeps [OF this(1)]] assms(2,3) AcceptRound show ?thesis by auto
  next
    case False
    with assms AcceptRound show ?thesis by auto
  qed
next
  case (UdsAccept ac)
  with assms show ?thesis by auto
next
  case StopRequested
  with assms show ?thesis by (auto simp: Ms_stop_request_def)
qed

lemma sink_run_result:
  "sink_run rescale_q evs (s, q) = Some (rs, ds, s', q') \<Longrightarrow> rb_wf q \<Longrightarrow> ms_output_queue s = []
    \<Longrightarrow> rb_wf q' \<and> ms_output_queue s' = [] \<and> counted rs (ms_stats s) (ms_stats s')
      \<and> (\<exists>xs. subseq xs (arrivals evs) \<and> rb_frames q @ xs = taken rs @ rb_frames q')"
proof (induction evs arbitrary: s q rs ds)
  case (Cons ev evs)
  obtain rs1 ds1 u v where st: "sink_step rescale_q ev (s, q) = Some (rs1, ds1, u, v)"
    using Cons.prems(1) by (auto split: option.splits)
  then obtain rs2 ds2 where r: "sink_run rescale_q evs (u, v) = Some (rs2, ds2, s', q')" "rs = rs1 @ rs2"
    using Cons.prems(1) by (auto split: option.splits)
  from sink_step_result [OF st Cons.prems(2,3)] obtain xs where first: "rb_wf v" "ms_output_queue u = []"
    "counted rs1 (ms_stats s) (ms_stats u)" "subseq xs (arrivals [ev])" "rb_frames q @ xs = taken rs1 @ rb_frames v"
    by blast
  from Cons.IH [OF r(1) first(1,2)] obtain ys where rest: "rb_wf q'" "ms_output_queue s' = []"
    "counted rs2 (ms_stats u) (ms_stats s')" "subseq ys (arrivals evs)" "rb_frames v @ ys = taken rs2 @ rb_frames q'"
    by blast
  have "arrivals (ev # evs) = arrivals [ev] @ arrivals evs" by (cases ev) simp_all
  with first(4) rest(4) have "subseq (xs @ ys) (arrivals (ev # evs))" by (simp add: list_emb_append_mono)
  moreover have "rb_frames q @ xs @ ys = taken (rs1 @ rs2) @ rb_frames q'"
    using first(5) rest(5) by (metis append_assoc taken_append)
  ultimately show ?case using rest first(3) r(2) counted_append by blast
qed auto

section \<open>What reaches the client\<close>

lemma tcp_send_loop_result:
  "tcp_send_loop data as = Some (ok, out, as') \<Longrightarrow> prefix out data \<and> (ok \<longrightarrow> out = data)
     \<and> (\<exists>used. as = used @ as' \<and> (\<not> ok \<longrightarrow> (\<exists>a \<in> set used. refused a)))"
proof (induction data as arbitrary: ok out rule: tcp_send_loop.induct)
  case (2 data a as)
  show ?case
  proof (cases "data = []")
    case False
    show ?thesis
    proof (cases a)
      case (Sent n)
      obtain out2 where l: "tcp_send_loop (drop n data) as = Some (ok, out2, as')" "out = take n data @ out2"
        using False Sent "2.prems" by (auto split: option.splits)
      note ih = "2.IH"(1) [OF False Sent l(1)]
      have "prefix (take n data @ out2) data" using ih by (metis append_take_drop_id same_prefix_prefix)
      moreover obtain used where "as = used @ as'" "\<not> ok \<longrightarrow> (\<exists>a \<in> set used. refused a)" using ih by blast
      ultimately show ?thesis using l(2) ih by (auto intro!: exI [of _ "a # used"])
    next
      case Interrupted
      with False "2.prems" have "tcp_send_loop data as = Some (ok, out, as')" by simp
      from "2.IH"(2) [OF False Interrupted this] show ?thesis by (metis append_Cons list.set_intros(2))
    next
      case SendFailed
      with False "2.prems" show ?thesis by (auto simp: refused_def intro: exI [of _ "[SendFailed]"])
    next
      case WouldBlock
      with False "2.prems" show ?thesis by (auto simp: refused_def intro: exI [of _ "[WouldBlock]"])
    qed
  qed (use "2.prems" in auto)
qed (auto split: if_splits)

interpretation tcp: blocking_writer tcp_send_loop
  using tcp_send_loop_result by unfold_locales blast+

text \<open>The client the bytes go to, and the loop that writes them.\<close>

definition client_of :: "playout_sink \<Rightarrow> nat option" where
  "client_of s =
     (case (if uds_mode s then ms_ts_output_sink s else None) of
        Some u \<Rightarrow> if us_client_connected u then us_client_fd u else None
      | None \<Rightarrow> if ms_client_connected s then ms_client_fd s else None)"

definition writer_of :: "playout_sink \<Rightarrow> writer" where
  "writer_of s = (if uds_mode s \<and> ms_ts_output_sink s \<noteq> None then uds_send_loop else tcp_send_loop)"

lemma writer_of_delivers:
  "write_list (writer_of s) datas as = Some (ok, out, as')
     \<Longrightarrow> prefix out (concat datas) \<and> (ok \<longrightarrow> out = concat datas)
       \<and> (\<exists>used. as = used @ as' \<and> (\<not> ok \<longrightarrow> (\<exists>a \<in> set used. refused a)))"
  using uds.write_list_delivers tcp.write_list_delivers by (simp add: writer_of_def split: if_splits)

lemma client_of_cases:
  obtains (uds) u where "(if uds_mode s then ms_ts_output_sink s else None) = Some u"
      "client_of s = (if us_client_connected u then us_client_fd u else None)" "writer_of s = uds_send_loop"
    | (tcp) "(if uds_mode s then ms_ts_output_sink s else None) = None"
      "client_of s = (if ms_client_connected s then ms_client_fd s else None)" "writer_of s = tcp_send_loop"
  by (cases "uds_mode s"; cases "ms_ts_output_sink s"; simp add: client_of_def writer_of_def)

lemma client_writer_upd:
  "(if uds_mode s then ms_ts_output_sink s else None) = Some u \<Longrightarrow>
     client_of (s\<lparr>ms_ts_output_sink := Some v\<rparr>) = (if us_client_connected v then us_client_fd v else None)
     \<and> writer_of (s\<lparr>ms_ts_output_sink := Some v\<rparr>) = writer_of s"
  "(if uds_mode s then ms_ts_output_sink s else None) = None \<Longrightarrow>
     client_of (s\<lparr>ms_client_connected := False\<rparr>) = None
     \<and> client_of (s\<lparr>ms_client_connected := False, ms_client_fd := None\<rparr>) = None"
  by (simp_all add: client_of_def writer_of_def uds_mode_def split: if_splits)

lemma callback_no_client:
  assumes "client_of s = None" "writePacketCallback buf as s = Some (n, ds, as', s')"
  shows "client_of s' = None \<and> ds = [] \<and> as' = as"
proof (cases rule: client_of_cases [of s])
  case (uds u)
  have "ms_ts_output_sink s = Some u" using uds(1) by (simp split: if_splits)
  then have same: "s\<lparr>ms_ts_output_sink := Some u\<rparr> = s" by (cases s) simp
  have "\<not> us_client_connected u \<or> us_client_fd u = None"
    using assms(1) unfolding uds(2) by (simp split: if_splits)
  then have "writeAllBlocking buf as s = Some (- 1, [], as, s)"
    unfolding writeAllBlocking_def uds(1) by (auto simp: Us_IsClientConnected_def Us_Write_def same)
  then have "ds = [] \<and> as' = as \<and> s' = s"
    using assms(2) unfolding writePacketCallback_def by auto
  with assms(1) show ?thesis by simp
next
  case tcp
  have "\<not> ms_client_connected s \<or> ms_client_fd s = None"
    using assms(1) unfolding tcp(2) by (simp split: if_splits)
  then have "writeAllBlocking buf as s
      = Some (- 1, [], as, if ms_client_connected s then s\<lparr>ms_client_connected := False\<rparr> else s)"
    unfolding writeAllBlocking_def tcp(1) by auto
  then have "ds = [] \<and> as' = as \<and> s' = (if ms_client_connected s then s\<lparr>ms_client_connected := False\<rparr> else s)"
    using assms(2) unfolding writePacketCallback_def by auto
  with assms(1) client_writer_upd(2) [OF tcp(1)] show ?thesis by simp
qed

lemma callback_client:
  assumes "client_of s = Some fd" "writePacketCallback buf as s = Some (n, ds, as', s')"
  shows "\<exists>ok out. writer_of s buf as = Some (ok, out, as') \<and> ds = [(fd, out)]
    \<and> client_of s' = (if ok then Some fd else None) \<and> (ok \<longrightarrow> writer_of s' = writer_of s)"
proof -
  obtain m where w: "writeAllBlocking buf as s = Some (m, ds, as', s')"
    using assms(2) by (auto simp: writePacketCallback_def split: option.splits)
  show ?thesis
  proof (cases rule: client_of_cases [of s])
    case (uds u)
    then have u: "us_client_connected u" "us_client_fd u = Some fd" using assms(1) by (simp_all split: if_splits)
    obtain ok out where o: "uds_send_loop buf as = Some (ok, out, as')" "ds = [(fd, out)]"
        "s' = s\<lparr>ms_ts_output_sink := Some (if ok then u else Us_HandleClientDisconnect u)\<rparr>"
      using w unfolding writeAllBlocking_def uds(1)
      by (auto simp: u Us_IsClientConnected_def Us_Write_def split: option.splits bool.splits)
    from client_writer_upd(1) [OF uds(1), of "if ok then u else Us_HandleClientDisconnect u"] o uds(3) u show ?thesis
      by (cases ok) (auto simp: Us_HandleClientDisconnect_def)
  next
    case tcp
    then have c: "ms_client_connected s" "ms_client_fd s = Some fd" using assms(1) by (simp_all split: if_splits)
    obtain ok out where o: "tcp_send_loop buf as = Some (ok, out, as')" "ds = [(fd, out)]"
        "s' = (if ok then s else s\<lparr>ms_client_connected := False, ms_client_fd := None\<rparr>)"
      using w unfolding writeAllBlocking_def tcp(1)
      by (auto simp: c split: option.splits bool.splits)
    from client_writer_upd(2) [OF tcp(1)] o tcp(3) assms(1) show ?thesis
      by (intro exI [of _ ok] exI [of _ out]) simp
  qed
qed

lemma deliver_no_client:
  "client_of s = None \<Longrightarrow> deliver bufs as s = Some (ds, as', s') \<Longrightarrow> client_of s' = None \<and> ds = []"
proof (induction bufs arbitrary: s as ds)
  case (Cons buf bufs)
  obtain n ds1 as1 u ds2 where w: "writePacketCallback buf as s = Some (n, ds1, as1, u)"
      "deliver bufs as1 u = Some (ds2, as', s')" "ds = ds1 @ ds2"
    using Cons.prems(2) by (auto split: option.splits)
  from callback_no_client [OF Cons.prems(1) w(1)] Cons.IH [OF _ w(2)] w(3) show ?case by simp
qed simp

lemma deliver_client:
  "client_of s = Some fd \<Longrightarrow> deliver bufs as s = Some (ds, as', s')
     \<Longrightarrow> \<exists>ok out as2. write_list (writer_of s) bufs as = Some (ok, out, as2) \<and> out = concat (map snd ds)
        \<and> (\<forall>d \<in> set ds. fst d = fd) \<and> client_of s' = (if ok then Some fd else None)"
proof (induction bufs arbitrary: s as ds)
  case (Cons buf bufs)
  obtain n ds1 as1 u ds2 where w: "writePacketCallback buf as s = Some (n, ds1, as1, u)"
      "deliver bufs as1 u = Some (ds2, as', s')" "ds = ds1 @ ds2"
    using Cons.prems(2) by (auto split: option.splits)
  obtain ok out where o: "writer_of s buf as = Some (ok, out, as1)" "ds1 = [(fd, out)]"
      "client_of u = (if ok then Some fd else None)" "ok \<longrightarrow> writer_of u = writer_of s"
    using callback_client [OF Cons.prems(1) w(1)] by blast
  show ?case
  proof (cases ok)
    case True
    with Cons.IH [of u as1 ds2] w(2) o obtain ok2 out2 as2 where
      "write_list (writer_of s) bufs as1 = Some (ok2, out2, as2)" "out2 = concat (map snd ds2)"
      "\<forall>d \<in> set ds2. fst d = fd" "client_of s' = (if ok2 then Some fd else None)" by auto
    with True o w(3) show ?thesis by simp
  next
    case False
    with deliver_no_client [OF _ w(2)] o have "client_of s' = None" "ds2 = []" by auto
    with False o w(3) show ?thesis by auto
  qed
qed auto

text \<open>A sink that has just been started without a client, and a quiet environment for its passes.\<close>

definition no_client :: client_env where
  "no_client = \<lparr>cl_accept = \<lparr>ac_accept = None, ac_get_flags = True, ac_set_blocking = True\<rparr>, cl_close = quiet_close,
     cl_open = good_open, cl_sends = []\<rparr>"

definition quiet_pass :: "time_us \<Rightarrow> worker_env" where
  "quiet_pass now = \<lparr>wv_now_us = now, wv_client = no_client, wv_queue_sends = [], wv_encode = good_encode []\<rparr>"

definition good_uds :: uds_env where
  "good_uds = \<lparr>ue_path_exists = False, ue_unlink = True, ue_dir_missing = False, ue_create_directories = True,
     ue_socket = True, ue_fcntl = True, ue_bind = True, ue_listen = True\<rparr>"

definition good_tcp :: tcp_env where
  "good_tcp = \<lparr>te_socket = True, te_reuse = True, te_fcntl = True, te_inet_pton = True, te_bind = True, te_listen = True\<rparr>"

definition started_sink :: playout_sink where
  "started_sink = snd (Ms_start good_uds good_tcp (MpegTSPlayoutSink MpegTSPlayoutSinkConfig))"

definition frame_at :: "int \<Rightarrow> frame" where
  "frame_at pts = small_frame\<lparr>fr_metadata := (fr_metadata small_frame)\<lparr>md_pts := pts\<rparr>\<rparr>"

lemmas quiet_defs = no_client_def quiet_pass_def good_uds_def good_tcp_def started_sink_def MpegTSPlayoutSink_def
  MpegTSPlayoutSink_with_def MpegTSPlayoutSinkConfig_def uds_mode_def Ms_start_def start_socket_def initializeSocket_def

lemma started_sink_fields:
  "\<not> uds_mode started_sink" "ms_client_connected started_sink = False" "ms_output_queue started_sink = []"
  "ms_sink_start_time_recorded started_sink = False" "ms_config started_sink = MpegTSPlayoutSinkConfig"
  "ms_stats started_sink = SinkStats" "ms_running started_sink" "\<not> ms_stop_requested started_sink"
  "ms_worker_thread started_sink" "ms_internal_state started_sink = Running" "ms_accept_thread started_sink"
  "ms_listening started_sink"
  by (simp_all add: quiet_defs)

text \<open>Without a client a pass only moves frames.\<close>

lemma quiet_pass_step:
  assumes "\<not> uds_mode s" "\<not> ms_client_connected s" "ms_output_queue s = []"
    "0 < sc_output_queue_high_water_mark (ms_config s)" "rb_wf q"
  shows "\<exists>r s' q'. workerLoop_pass rescale_q (quiet_pass now) s q = Some (r, [], s', q')"
proof -
  have p: "poll_client rescale_q no_client s = Some ([], [], s)"
    using assms by (simp add: poll_client_def Ms_tryAcceptClient_def no_client_def)
  have "\<exists>r s' q'. frame_step rescale_q (quiet_pass now) [] s q = Some (r, [], s', q')"
    using assms by (auto simp: frame_step_def decide_frame_def Let_def processFrame_def count_def
      split: option.splits prod.splits frame_decision.splits if_splits)
  then show ?thesis
    using p assms by (auto simp: workerLoop_pass_def quiet_pass_def drainOutputQueue_empty)
qed

section \<open>Properties\<close>

text \<open>C6. A pass of the worker loop decides by the clock alone. Once the start time is known a frame more than
  5 ms early stays in the ring and the loop waits until half a millisecond before it is due; one more than
  50 ms late is dropped; any other is sent. The first frame fixes the start time and is sent at once, unless
  its time stamp is between 50 ms and one second behind the clock itself.\<close>

theorem sink_timing:
  assumes "workerLoop_pass rescale_q wv s q = Some (r, ds, s', q')" "rb_wf q" "ms_output_queue s = []"
    "0 < sc_output_queue_high_water_mark (ms_config s)"
  shows "case rb_frames q of
      [] \<Rightarrow> r = Underrun \<and> rb_frames q' = []
    | f # rest \<Rightarrow>
        if ms_sink_start_time_recorded s
        then (if wv_now_us wv < due_time s f - 5000 then r = Early (due_time s f - 500) \<and> rb_frames q' = f # rest
              else rb_frames q' = rest
                \<and> r = (if due_time s f + 50000 < wv_now_us wv then Dropped f else Emitted f (wv_now_us wv - due_time s f)))
          \<and> ms_sink_start_time_recorded s' \<and> due_time s' f = due_time s f
        else rb_frames q' = rest
          \<and> (if 50000 < wv_now_us wv - md_pts (fr_metadata f) \<and> wv_now_us wv - md_pts (fr_metadata f) < 1000000
             then r = Dropped f \<and> \<not> ms_sink_start_time_recorded s'
             else r = Emitted f 0 \<and> ms_sink_start_time_recorded s' \<and> due_time s' f = wv_now_us wv)"
proof -
  note pass = workerLoop_pass_result [OF assms(1-3)]
  then have r: "outcome_ok (wv_now_us wv) s s' (rb_frames q) r" "same_start s s'"
    "rb_frames q = taken [r] @ rb_frames q'" "r \<noteq> Throttled" using assms(4) by blast+
  show ?thesis
  proof (cases "rb_frames q")
    case Nil
    with r show ?thesis by (cases r) (auto simp: outcome_ok_def)
  next
    case (Cons f rest)
    then show ?thesis
      using r by (cases r) (auto simp: outcome_ok_def same_start_def due_time_def split: if_splits)
  qed
qed

theorem sink_timing_witness:
  "\<exists>r ds s' q'. workerLoop_pass same_time (quiet_pass 3000000) started_sink (snd (Push (FrameRingBuffer 2) (frame_at 40000)))
      = Some (r, ds, s', q')
    \<and> r = Emitted (frame_at 40000) 0 \<and> ms_sink_start_time_recorded s' \<and> due_time s' (frame_at 40000) = 3000000"
proof -
  have wf: "rb_wf (FrameRingBuffer 2)" "rb_frames (FrameRingBuffer 2) = []" "rb_room (FrameRingBuffer 2) = 2"
    using FrameRingBuffer_wf [of 2] by simp_all
  have room: "length (rb_frames (FrameRingBuffer 2)) < rb_room (FrameRingBuffer 2)" by (simp add: wf)
  obtain q where "Push (FrameRingBuffer 2) (frame_at 40000) = (True, q)" "rb_wf q"
    "rb_frames q = rb_frames (FrameRingBuffer 2) @ [frame_at 40000]"
    using Push_room [OF wf(1) room] by blast
  then have q: "snd (Push (FrameRingBuffer 2) (frame_at 40000)) = q" "rb_wf q" "rb_frames q = [frame_at 40000]"
    by (simp_all add: wf(2))
  have s: "0 < sc_output_queue_high_water_mark (ms_config started_sink)"
    by (simp add: started_sink_fields MpegTSPlayoutSinkConfig_def)
  obtain r s' q' where p: "workerLoop_pass same_time (quiet_pass 3000000) started_sink q = Some (r, [], s', q')"
    using quiet_pass_step [OF started_sink_fields(1) _ started_sink_fields(3) s q(2)] started_sink_fields(2) by blast
  have now: "wv_now_us (quiet_pass 3000000) = 3000000" "md_pts (fr_metadata (frame_at 40000)) = 40000"
    by (simp_all add: quiet_pass_def frame_at_def)
  have "r = Emitted (frame_at 40000) 0 \<and> ms_sink_start_time_recorded s' \<and> due_time s' (frame_at 40000) = 3000000"
    using sink_timing [OF p q(2) started_sink_fields(3) s] by (simp add: q(3) now started_sink_fields(4))
  with p q(1) show ?thesis by blast
qed

end
