(* ===== verification/Sink_Session.thy ===== *)
theory Sink_Session
  imports MpegTSPlayoutSink
begin

text \<open>
  Whole lives of the playout sink of \<open>MpegTSPlayoutSink\<close>: starting, the steps of its threads in any order,
  and stopping, as a relation of the states a sink and its ring can reach; what every such state satisfies;
  the frames and counters of a run; and the bytes a client receives.
\<close>

section \<open>Reachable states\<close>

text \<open>
  A sink starts from its constructor. After a request to stop the worker drains its queue, and once the
  threads have been joined \<open>stop\<close> goes on.
\<close>

inductive sink_reach :: "rescale \<Rightarrow> sink_config \<Rightarrow> playout_sink \<Rightarrow> ring_buffer \<Rightarrow> bool"
  for rescale_q config where
  created: "rb_wf q \<Longrightarrow> sink_reach rescale_q config (MpegTSPlayoutSink config) q"
| started: "sink_reach rescale_q config s q \<Longrightarrow> sink_reach rescale_q config (snd (Ms_start ue te s)) q"
| stepped: "sink_reach rescale_q config s q \<Longrightarrow> sink_step rescale_q ev (s, q) = Some (rs, ds, s', q')
    \<Longrightarrow> sink_reach rescale_q config s' q'"
| drained: "sink_reach rescale_q config s q \<Longrightarrow> ms_stop_requested s \<Longrightarrow> workerLoop_end as s = Some (ds, s')
    \<Longrightarrow> sink_reach rescale_q config s' q"
| stopped: "sink_reach rescale_q config s q \<Longrightarrow> ms_stop_requested s \<Longrightarrow> Ms_stop_finish rescale_q ce as s = Some (ds, s')
    \<Longrightarrow> sink_reach rescale_q config s' q"

section \<open>The encoder and the sockets of a sink\<close>

text \<open>Bytes wait for the rest of their packet only in an encoder that is open, and that has a callback.\<close>

definition encoder_clean :: "encoder \<Rightarrow> bool" where
  "encoder_clean e \<longleftrightarrow>
     (if ep_initialized e \<and> \<not> sc_stub_mode (ep_config e) then tt_avio_callback e else tt_alignment_buffer e = [])"

lemma Ep_close_clean:
  assumes "Ep_close rescale_q ce e = Some (ps, calls, e')" "encoder_clean e"
  shows "tt_alignment_buffer e' = []"
proof (cases "ep_initialized e \<and> \<not> sc_stub_mode (ep_config e)")
  case True
  with Ep_close_open [OF assms(1)] show ?thesis by (simp add: no_handles_def)
next
  case False
  with assms show ?thesis by (auto simp: encoder_clean_def Ep_close_def split: if_splits)
qed

lemma Ep_open_clean:
  assumes "Ep_open rescale_q ce oe config True True e = Some (ok, e')" "\<not> ep_initialized e" "encoder_clean e"
  shows "tt_alignment_buffer e' = [] \<and> (ep_initialized e' \<and> \<not> sc_stub_mode config \<longrightarrow> tt_avio_callback e')"
  using assms by (simp add: encoder_clean_def Ep_open_def open_codec_def open_failed_eq Let_def split: if_splits) auto

lemma Ep_encodeFrame_clean:
  assumes "Ep_encodeFrame rescale_q en f pts90k e = (out, e')" "encoder_clean e"
  shows "encoder_clean e'"
proof (cases "ep_initialized e \<and> \<not> sc_stub_mode (ep_config e)")
  case True
  then show ?thesis using Ep_encodeFrame_emits [OF assms(1)] assms(2) by (simp add: encoder_clean_def core_def)
next
  case False
  with assms show ?thesis by (auto simp: Ep_encodeFrame_def split: if_splits)
qed

text \<open>The encoder of the sink is one its own configuration could have led to; the sink has a socket of one kind.\<close>

definition parts_ok :: "playout_sink \<Rightarrow> bool" where
  "parts_ok s \<longleftrightarrow> encoder_wf (ms_encoder s) \<and> encoder_clean (ms_encoder s) \<and> ep_config (ms_encoder s) = ms_config s
     \<and> (uds_mode s \<longrightarrow> ms_client_fd s = None \<and> \<not> ms_listening s) \<and> (\<not> uds_mode s \<longrightarrow> ms_ts_output_sink s = None)"

lemma parts_ok_upd:
  "parts_ok (s\<lparr>ms_client_connected := c\<rparr>) = parts_ok s"
  "parts_ok (s\<lparr>ms_output_queue := qs\<rparr>) = parts_ok s"
  "parts_ok (count f s) = parts_ok s"
  by (auto simp: parts_ok_def uds_mode_def count_def)

lemma callback_parts:
  assumes "writePacketCallback buf as s = Some (n, ds, as', s')" "parts_ok s"
  shows "parts_ok s'"
proof -
  obtain m where w: "writeAllBlocking buf as s = Some (m, ds, as', s')"
    using assms(1) by (auto simp: writePacketCallback_def split: option.splits)
  have "parts_ok (s\<lparr>ms_client_connected := False, ms_client_fd := None\<rparr>)"
    "uds_mode s \<Longrightarrow> parts_ok (s\<lparr>ms_ts_output_sink := u\<rparr>)" for u
    using assms(2) by (simp_all add: parts_ok_def uds_mode_def)
  then show ?thesis
    using w assms(2) by (auto simp: writeAllBlocking_def parts_ok_upd split: option.splits if_splits bool.splits)
qed

lemma deliver_parts: "deliver bufs as s = Some (ds, as', s') \<Longrightarrow> parts_ok s \<Longrightarrow> parts_ok s'"
proof (induction bufs arbitrary: as s ds)
  case (Cons buf bufs)
  then obtain n d as1 u ds2 where w: "writePacketCallback buf as s = Some (n, d, as1, u)"
      "deliver bufs as1 u = Some (ds2, as', s')"
    by (auto split: option.splits)
  from Cons.IH [OF w(2) callback_parts [OF w(1) Cons.prems(2)]] show ?case .
qed simp

lemma encoder_parts:
  "parts_ok s \<Longrightarrow> encoder_wf e \<Longrightarrow> encoder_clean e \<Longrightarrow> ep_config e = ep_config (ms_encoder s) \<Longrightarrow> parts_ok (s\<lparr>ms_encoder := e\<rparr>)"
  by (simp add: parts_ok_def uds_mode_def)

text \<open>A closed encoder stays closed while its last bytes go out.\<close>

lemma callback_encoder: "writePacketCallback buf as s = Some (n, ds, as', s') \<Longrightarrow> ms_encoder s' = ms_encoder s"
  by (auto simp: writePacketCallback_def writeAllBlocking_def split: option.splits if_splits bool.splits)

lemma deliver_encoder: "deliver bufs as s = Some (ds, as', s') \<Longrightarrow> ms_encoder s' = ms_encoder s"
proof (induction bufs arbitrary: as s ds)
  case (Cons buf bufs)
  then obtain n d as1 u ds2 where w: "writePacketCallback buf as s = Some (n, d, as1, u)"
      "deliver bufs as1 u = Some (ds2, as', s')"
    by (auto split: option.splits)
  from Cons.IH [OF w(2)] callback_encoder [OF w(1)] show ?case by simp
qed simp

lemma close_encoder_parts:
  assumes "close_encoder rescale_q ce as s = Some (ds, as', s')" "parts_ok s"
  shows "parts_ok s' \<and> \<not> ep_initialized (ms_encoder s')"
proof -
  obtain ps calls e where e: "Ep_close rescale_q ce (ms_encoder s) = Some (ps, calls, e)"
      "deliver calls as (s\<lparr>ms_encoder := e\<rparr>) = Some (ds, as', s')"
    using assms(1) by (auto simp: close_encoder_def split: option.splits)
  from Ep_close_step [OF e(1)] have "\<not> ep_initialized e" "ep_config e = ep_config (ms_encoder s)" by blast+
  moreover have "tt_alignment_buffer e = []" using Ep_close_clean [OF e(1)] assms(2) by (simp add: parts_ok_def)
  ultimately have "parts_ok (s\<lparr>ms_encoder := e\<rparr>)" "\<not> ep_initialized e"
    by (intro encoder_parts assms(2), simp_all add: encoder_wf_def encoder_clean_def)
  then show ?thesis using deliver_parts [OF e(2)] deliver_encoder [OF e(2)] by simp
qed

lemma initialize_parts:
  assumes "initializeEncoderForClient rescale_q ce oe as s = Some (ok, ds, as', s')" "parts_ok s"
  shows "parts_ok s'"
proof -
  obtain u e where u: "close_encoder rescale_q ce as s = Some (ds, as', u)"
      "Ep_open rescale_q ce oe (ms_config u) True True (ms_encoder u) = Some (ok, e)" "s' = u\<lparr>ms_encoder := e\<rparr>"
    using assms(1) by (auto simp: initializeEncoderForClient_def split: option.splits)
  have p: "parts_ok u" "\<not> ep_initialized (ms_encoder u)" using close_encoder_parts [OF u(1) assms(2)] by simp_all
  then have c: "ms_config u = ep_config (ms_encoder u)" by (simp add: parts_ok_def)
  note opened = Ep_open_step [OF u(2) [unfolded c]]
  moreover have "encoder_clean e"
    using Ep_open_clean [OF u(2) p(2)] opened p(1) by (simp add: encoder_clean_def parts_ok_def)
  ultimately show ?thesis
    using p(1) unfolding u(3) by (intro encoder_parts) (simp_all add: parts_ok_def)
qed

lemma disconnect_parts:
  assumes "handleClientDisconnect rescale_q ce as s = Some (ds, as', s')" "parts_ok s"
  shows "parts_ok s'"
proof -
  have "parts_ok (s\<lparr>ms_client_fd := None, ms_client_connected := False, ms_output_queue := []\<rparr>)"
    using assms(2) by (simp add: parts_ok_def uds_mode_def)
  then show ?thesis
    using assms close_encoder_parts by (auto simp: handleClientDisconnect_def split: if_splits)
qed

lemma accept_parts:
  assumes "Ms_tryAcceptClient rescale_q cl s = Some (ok, ds, as, s')" "parts_ok s"
  shows "parts_ok s'"
proof -
  let ?u = "\<lambda>fd. s\<lparr>ms_client_fd := Some fd, ms_client_connected := True\<rparr>"
  have "parts_ok (?u fd)" if "\<not> uds_mode s" for fd
    using assms(2) that by (simp add: parts_ok_def uds_mode_def)
  then have opened: "parts_ok v"
    if "initializeEncoderForClient rescale_q (cl_close cl) (cl_open cl) (cl_sends cl) (?u fd) = Some (ok1, ds1, as1, v)"
      "\<not> uds_mode s" for fd ok1 ds1 as1 v
    using initialize_parts [OF that(1)] that(2) by blast
  show ?thesis
    using assms by (auto simp: Ms_tryAcceptClient_def split: if_splits option.splits bool.splits
      intro: opened disconnect_parts [OF _ opened])
qed

lemma poll_parts:
  assumes "poll_client rescale_q cl s = Some (ds, as, s')" "parts_ok s"
  shows "parts_ok s'"
proof -
  have "parts_ok v"
    if "initializeEncoderForClient rescale_q (cl_close cl) (cl_open cl) (cl_sends cl) (s\<lparr>ms_client_connected := True\<rparr>)
      = Some (ok1, ds1, as1, v)" for ok1 ds1 as1 v
    using initialize_parts [OF that] assms(2) by (simp add: parts_ok_upd)
  then show ?thesis
    using assms by (auto simp: poll_client_def parts_ok_upd split: if_splits option.splits
      intro: disconnect_parts accept_parts)
qed

lemma processFrame_parts:
  assumes "processFrame rescale_q en f pts90k as s = Some (ds, s')" "parts_ok s"
  shows "parts_ok s'"
proof (cases "ms_client_connected s")
  case False
  with assms show ?thesis by (simp add: processFrame_def)
next
  case True
  obtain out e where e: "Ep_encodeFrame rescale_q en f pts90k (ms_encoder s) = (out, e)" by fastforce
  from Ep_encodeFrame_emits [OF e] encoder_wf_cong [of e "ms_encoder s"] assms(2)
  have "encoder_wf e" "ep_config e = ep_config (ms_encoder s)" by (auto simp: parts_ok_def core_def)
  moreover have "encoder_clean e" using Ep_encodeFrame_clean [OF e] assms(2) by (simp add: parts_ok_def)
  ultimately have p: "parts_ok (s\<lparr>ms_encoder := e\<rparr>)" by (intro encoder_parts assms(2))
  show ?thesis using assms(1) True e deliver_parts [OF _ p]
    by (auto simp: processFrame_def parts_ok_upd split: option.splits encode_result.splits if_splits)
qed

section \<open>The invariant\<close>

text \<open>
  Running, the state and the threads agree; the queue of packets is never used; a stopped sink holds no
  socket and no open encoder; one that was never started has no client.
\<close>

definition sink_wf :: "playout_sink \<Rightarrow> bool" where
  "sink_wf s \<longleftrightarrow> parts_ok s \<and> ms_output_queue s = [] \<and> ms_packets_dropped s = 0
     \<and> (ms_running s \<longleftrightarrow> ms_internal_state s = Running) \<and> ms_internal_state s \<noteq> WaitingForClient
     \<and> (ms_worker_thread s \<longleftrightarrow> ms_running s) \<and> (ms_accept_thread s \<longleftrightarrow> ms_running s \<and> \<not> uds_mode s)
     \<and> (ms_stop_requested s \<longrightarrow> ms_internal_state s \<in> {Running, Stopped})
     \<and> (ms_internal_state s \<in> {Idle, Error, Stopped} \<longrightarrow>
          \<not> ms_listening s \<and> \<not> ep_initialized (ms_encoder s) \<and> ms_client_fd s = None
          \<and> (ms_client_connected s \<longrightarrow> uds_mode s \<and> ms_internal_state s = Stopped))
     \<and> (ms_internal_state s = Stopped \<longrightarrow> ms_ts_output_sink s = None)"

definition life :: "playout_sink \<Rightarrow> internal_state \<times> bool \<times> bool \<times> bool \<times> bool \<times> bool \<times> nat" where
  "life s = (ms_internal_state s, ms_running s, ms_stop_requested s, ms_worker_thread s, ms_accept_thread s,
     uds_mode s, ms_packets_dropped s)"

lemma keeps_loop_life: "keeps_loop s s' \<Longrightarrow> life s' = life s"
  by (simp add: life_def keeps_loop_fields)

lemma life_count [simp]: "life (count f s) = life s"
  by (simp add: life_def count_def uds_mode_def)

lemma MpegTSPlayoutSink_wf: "sink_wf (MpegTSPlayoutSink config)"
  using EncoderPipeline_start [of config]
  by (auto simp: sink_wf_def parts_ok_def MpegTSPlayoutSink_def MpegTSPlayoutSink_with_def uds_mode_def
      EncoderPipeline_def encoder_clean_def)

lemma decide_frame_keeps:
  assumes "decide_frame now pts s = (d, u)"
  shows "life u = life s \<and> (parts_ok s \<longrightarrow> parts_ok u) \<and> ms_output_queue u = ms_output_queue s"
  using assms by (auto simp: decide_frame_def Let_def life_def parts_ok_def uds_mode_def split: if_splits)

lemma processFrame_life: "processFrame rescale_q en f pts90k as s = Some (ds, s') \<Longrightarrow> life s' = life s"
  using processFrame_keeps keeps_loop_life by fastforce

lemma frame_step_keeps:
  assumes "frame_step rescale_q wv as s q = Some (r, ds, s', q')"
  shows "life s' = life s \<and> (parts_ok s \<longrightarrow> parts_ok s')"
proof (cases "Peek q")
  case None
  with assms show ?thesis by (auto simp: frame_step_def handleBufferUnderflow_def parts_ok_upd)
next
  case (Some x)
  obtain d u where d: "decide_frame (wv_now_us wv) (md_pts (fr_metadata x)) s = (d, u)" by fastforce
  obtain p q1 where p: "Pop q = (p, q1)" by fastforce
  have u: "life u = life s" "parts_ok s \<longrightarrow> parts_ok u" using decide_frame_keeps [OF d] by blast+
  show ?thesis
  proof (cases "\<exists>gap f. d = SendNow gap \<and> p = Some f")
    case False
    then have "s' = u \<or> s' = count_late_drop u"
      using assms Some d p
      by (cases d; cases p) (auto simp: frame_step_def split: option.splits)
    with u show ?thesis by (auto simp: count_late_drop_def parts_ok_upd)
  next
    case True
    then obtain gap f where g: "d = SendNow gap" "p = Some f" by blast
    define v where "v = (if 0 < gap then count (\<lambda>st. st\<lparr>st_late_frames := st_late_frames st + 1\<rparr>) u else u)"
    obtain ds' w where w: "processFrame rescale_q (wv_encode wv) f ((md_pts (fr_metadata x) * 90000) sdiv 1000000) as v
        = Some (ds', w)" "s' = count (\<lambda>st. st\<lparr>st_frames_sent := st_frames_sent st + 1\<rparr>) w"
      using assms Some d p g by (auto simp: frame_step_def Let_def v_def [symmetric] split: option.splits)
    have "life v = life u" "parts_ok v = parts_ok u" by (simp_all add: v_def parts_ok_upd)
    with processFrame_life [OF w(1)] processFrame_parts [OF w(1)] u show ?thesis unfolding w(2) by (simp add: parts_ok_upd)
  qed
qed

lemma workerLoop_pass_keeps:
  assumes "workerLoop_pass rescale_q wv s q = Some (r, ds, s', q')" "parts_ok s" "ms_output_queue s = []"
  shows "life s' = life s \<and> parts_ok s'"
proof -
  obtain ds1 as u where u: "poll_client rescale_q (wv_client wv) s = Some (ds1, as, u)"
    using assms(1) by (auto simp: workerLoop_pass_def split: option.splits)
  note kept = poll_client_keeps [OF u]
  have drained: "drainOutputQueue (wv_queue_sends wv) u = Some (0, [], wv_queue_sends wv, u)"
    using keeps_loop_fields(12) [OF kept assms(3)] by (simp add: drainOutputQueue_empty)
  have "s' = u \<or> (\<exists>ds2. frame_step rescale_q wv as u q = Some (r, ds2, s', q'))"
    using assms(1) u drained by (auto simp: workerLoop_pass_def split: option.splits if_splits)
  then show ?thesis
    using keeps_loop_life [OF kept] poll_parts [OF u assms(2)] frame_step_keeps by metis
qed

text \<open>Only a running sink changes in a step; what is asked of it elsewhere leaves it as it is.\<close>

lemma running_step_wf:
  assumes "sink_wf s" "parts_ok s'" "life s' = life s" "ms_output_queue s' = []" "ms_running s"
  shows "sink_wf s'"
  using assms by (simp add: sink_wf_def life_def)

lemma sink_step_wf:
  assumes "sink_step rescale_q ev (s, q) = Some (rs, ds, s', q')" "sink_wf s" "rb_wf q"
  shows "sink_wf s' \<and> rb_wf q'"
proof -
  have wf: "parts_ok s" "ms_output_queue s = []" using assms(2) by (simp_all add: sink_wf_def)
  note result = sink_step_result [OF assms(1,3) wf(2)]
  have "sink_wf s'"
  proof (cases ev)
    case (WorkerPass wv)
    show ?thesis
    proof (cases "ms_worker_thread s \<and> ms_running s \<and> \<not> ms_stop_requested s")
      case True
      then obtain r where "workerLoop_pass rescale_q wv s q = Some (r, ds, s', q')"
        using assms(1) WorkerPass by (auto split: option.splits)
      from running_step_wf [OF assms(2)] workerLoop_pass_keeps [OF this wf] result True show ?thesis by blast
    next
      case False
      with assms WorkerPass show ?thesis by auto
    qed
  next
    case (AcceptRound cl)
    show ?thesis
    proof (cases "ms_accept_thread s \<and> ms_running s \<and> \<not> ms_stop_requested s")
      case True
      then obtain ok as where a: "Ms_tryAcceptClient rescale_q cl s = Some (ok, ds, as, s')"
        using assms(1) AcceptRound by (auto split: option.splits)
      from running_step_wf [OF assms(2) accept_parts [OF a wf(1)] keeps_loop_life [OF Ms_tryAcceptClient_keeps [OF a]]]
        result True show ?thesis by blast
    next
      case False
      with assms AcceptRound show ?thesis by auto
    qed
  next
    case (UdsAccept ac)
    then have s': "s' = s\<lparr>ms_ts_output_sink := map_option (Us_AcceptThread_pass ac) (ms_ts_output_sink s)\<rparr>"
      using assms(1) by simp
    show ?thesis using assms(2) unfolding s' by (simp add: sink_wf_def parts_ok_def uds_mode_def)
  next
    case StopRequested
    then have s': "s' = Ms_stop_request s" using assms(1) by simp
    show ?thesis using assms(2) unfolding s' Ms_stop_request_def stops_def
      by (auto simp: sink_wf_def parts_ok_def uds_mode_def)
  qed (use assms in auto)
  with result show ?thesis by blast
qed

lemma start_socket_keeps:
  assumes "start_socket ue te s = (ok, u)" "sink_wf s" "ms_internal_state s = Idle"
  shows "life u = life s \<and> parts_ok u \<and> ms_output_queue u = [] \<and> \<not> ep_initialized (ms_encoder u)
    \<and> ms_client_fd u = None \<and> \<not> ms_client_connected u \<and> (\<not> ok \<longrightarrow> \<not> ms_listening u)"
proof (cases "uds_mode s")
  case True
  then obtain v where u: "u = s\<lparr>ms_ts_output_sink := Some v\<rparr>"
    using assms(1) by (auto simp: start_socket_def Let_def split: if_splits prod.splits)
  show ?thesis using assms(2,3) True unfolding u by (simp add: sink_wf_def parts_ok_def life_def uds_mode_def)
next
  case False
  then have u: "u = s\<lparr>ms_listening := ok\<rparr>"
    using assms(1) by (auto simp: start_socket_def initializeSocket_def Let_def split: if_splits)
  show ?thesis using assms(2,3) False unfolding u by (simp add: sink_wf_def parts_ok_def life_def uds_mode_def)
qed

lemma Ms_start_idle:
  assumes "sink_wf s" "ms_internal_state s = Idle" "start_socket ue te s = (ok, u)" "Ms_start ue te s = (ok', s')"
  shows "sink_wf s' \<and> ok' = ok \<and> ms_internal_state s' = (if ok then Running else Error)"
proof -
  have idle: "\<not> ms_running s" using assms(1,2) by (simp add: sink_wf_def)
  note u = start_socket_keeps [OF assms(3,1,2)]
  have st: "s' = (if ok then u\<lparr>ms_internal_state := Running, ms_sink_start_time_recorded := False,
        ms_stop_requested := False, ms_running := True, ms_accept_thread := \<not> uds_mode u, ms_worker_thread := True\<rparr>
      else u\<lparr>ms_internal_state := Error\<rparr>) \<and> ok' = ok"
    using assms(2-4) idle by (auto simp: Ms_start_def uds_mode_def)
  have life: "life u = life s" "ms_packets_dropped s = 0" "\<not> ms_stop_requested s" "\<not> ms_worker_thread s" "\<not> ms_accept_thread s"
    using u assms(1,2) idle by (auto simp: sink_wf_def)
  show ?thesis
  proof (cases ok)
    case True
    with st u life show ?thesis by (simp add: sink_wf_def parts_ok_def life_def uds_mode_def)
  next
    case False
    with st u life idle show ?thesis by (simp add: sink_wf_def parts_ok_def life_def uds_mode_def)
  qed
qed

lemma Ms_start_refused: "sink_wf s \<Longrightarrow> ms_internal_state s \<noteq> Idle \<Longrightarrow> Ms_start ue te s = (False, s)"
  by (simp add: Ms_start_def)

lemma workerLoop_end_idle: "ms_output_queue s = [] \<Longrightarrow> workerLoop_end as s = Some ([], s)"
  by (simp add: workerLoop_end_def max_flush_iterations_def numeral_eq_Suc drainOutputQueue_empty)

lemma Ms_stop_finish_result:
  assumes "Ms_stop_finish rescale_q ce as s = Some (ds, s')" "sink_wf s"
  shows "sink_wf s' \<and> ms_internal_state s' = (if stops s then Stopped else ms_internal_state s)
    \<and> (\<not> stops s \<longrightarrow> s' = s \<and> ds = [])"
proof (cases "stops s")
  case False
  with assms show ?thesis by (simp add: Ms_stop_finish_def)
next
  case True
  let ?s = "s\<lparr>ms_worker_thread := False, ms_accept_thread := False\<rparr>"
  obtain ds1 as1 u where u: "close_encoder rescale_q ce as ?s = Some (ds1, as1, u)"
    using assms(1) True by (auto simp: Ms_stop_finish_def Let_def split: option.splits)
  have s': "s' = (case ms_ts_output_sink u of Some v \<Rightarrow> u\<lparr>ms_ts_output_sink := None\<rparr> | None \<Rightarrow> cleanupSocket u)
      \<lparr>ms_running := False, ms_internal_state := Stopped\<rparr>"
    using assms(1) True u by (auto simp: Ms_stop_finish_def Let_def split: option.splits)
  have p: "parts_ok ?s" using assms(2) by (simp add: sink_wf_def parts_ok_def uds_mode_def)
  note closed = close_encoder_parts [OF u p]
  note kept = keeps_loop_fields [OF close_encoder_keeps [OF u]]
  have "ms_output_queue u = []" "ms_packets_dropped u = 0" "\<not> ms_worker_thread u" "\<not> ms_accept_thread u"
    using kept assms(2) by (simp_all add: sink_wf_def)
  then have "sink_wf s'"
    using closed unfolding s'
    by (cases "ms_ts_output_sink u") (auto simp: sink_wf_def parts_ok_def cleanupSocket_def uds_mode_def)
  then show ?thesis using True s' by simp
qed

lemma sink_reach_wf: "sink_reach rescale_q config s q \<Longrightarrow> sink_wf s \<and> rb_wf q"
proof (induction rule: sink_reach.induct)
  case (created q)
  then show ?case by (simp add: MpegTSPlayoutSink_wf)
next
  case (started s q ue te)
  obtain ok u where "start_socket ue te s = (ok, u)" by fastforce
  moreover obtain ok' s' where "Ms_start ue te s = (ok', s')" by fastforce
  ultimately show ?case
    using started.IH Ms_start_idle [of s ue te ok u ok' s'] Ms_start_refused [of s ue te]
    by (cases "ms_internal_state s = Idle") auto
next
  case (stepped s q ev rs ds s' q')
  then show ?case using sink_step_wf by blast
next
  case (drained s q as ds s')
  then show ?case using workerLoop_end_idle [of s as] by (simp add: sink_wf_def)
next
  case (stopped s q ce as ds s')
  then show ?case using Ms_stop_finish_result by blast
qed

lemma whole_packets_concat: "whole_packets bufs \<Longrightarrow> ts_packet_size dvd length (concat bufs)"
  by (induction bufs) auto

section \<open>Properties\<close>

text \<open>C7. Whatever happens to a playout sink, its state, its running flag and its threads agree, and a sink that is
  not running has no socket, no client and no open encoder. Starting succeeds exactly on a sink never
  started whose socket can be set up; if the socket fails the sink is in the error state for good.
  Stopping ends a running sink, changes no other, and a stopped sink does not start again.\<close>

theorem sink_session:
  assumes "sink_reach rescale_q config s q"
  shows "sink_wf s \<and> rb_wf q
    \<and> (Ms_state s = Idle \<longrightarrow> fst (Ms_start ue te s) = fst (start_socket ue te s)
         \<and> Ms_state (snd (Ms_start ue te s)) = (if fst (start_socket ue te s) then Running else Error))
    \<and> (Ms_state s \<noteq> Idle \<longrightarrow> Ms_start ue te s = (False, s))
    \<and> (Ms_stop_finish rescale_q ce as (Ms_stop_request s) = Some (ds, s') \<longrightarrow>
         sink_wf s' \<and> \<not> Ms_isRunning s' \<and> Ms_state s' = (if Ms_state s = Running then Stopped else Ms_state s)
         \<and> (Ms_state s \<noteq> Running \<longrightarrow> s' = s \<and> ds = [])
         \<and> Ms_stop_finish rescale_q ce' as' (Ms_stop_request s') = Some ([], s'))"
proof -
  from sink_reach_wf [OF assms] have wf: "sink_wf s" "rb_wf q" by blast+
  obtain ok u where u: "start_socket ue te s = (ok, u)" by fastforce
  obtain ok' s1 where s1: "Ms_start ue te s = (ok', s1)" by fastforce
  have request: "sink_wf (Ms_stop_request s)" "stops (Ms_stop_request s) \<longleftrightarrow> Ms_state s = Running"
      "Ms_state (Ms_stop_request s) = Ms_state s" "Ms_state s \<noteq> Running \<Longrightarrow> Ms_stop_request s = s"
    using sink_step_wf [of rescale_q StopRequested s q "[]" "[]" "Ms_stop_request s" q] wf
    by (auto simp: Ms_stop_request_def stops_def Ms_state_def sink_wf_def)
  have "sink_wf s' \<and> \<not> Ms_isRunning s' \<and> Ms_state s' = (if Ms_state s = Running then Stopped else Ms_state s)
      \<and> (Ms_state s \<noteq> Running \<longrightarrow> s' = s \<and> ds = []) \<and> Ms_stop_finish rescale_q ce' as' (Ms_stop_request s') = Some ([], s')"
    if f: "Ms_stop_finish rescale_q ce as (Ms_stop_request s) = Some (ds, s')"
  proof -
    from Ms_stop_finish_result [OF f request(1)] request(2-4)
    have r: "sink_wf s'" "Ms_state s' = (if Ms_state s = Running then Stopped else Ms_state s)"
      "Ms_state s \<noteq> Running \<longrightarrow> s' = s \<and> ds = []" by (auto simp: Ms_state_def)
    from this(1,2) have "\<not> ms_running s'" by (auto simp: sink_wf_def Ms_state_def split: if_splits)
    with r show ?thesis by (auto simp: Ms_isRunning_def Ms_stop_finish_def Ms_stop_request_def stops_def)
  qed
  then show ?thesis
    using wf Ms_start_idle [OF wf(1) _ u s1] Ms_start_refused [OF wf(1)] u s1 by (auto simp: Ms_state_def)
qed

theorem sink_session_witness:
  "sink_reach same_time MpegTSPlayoutSinkConfig started_sink (FrameRingBuffer 2)
   \<and> Ms_start good_uds good_tcp started_sink = (False, started_sink)
   \<and> (\<exists>s'. Ms_stop_finish same_time quiet_close [] (Ms_stop_request started_sink) = Some ([], s')
        \<and> Ms_state s' = Stopped \<and> \<not> Ms_isRunning s'
        \<and> Ms_stop_finish same_time quiet_close [] (Ms_stop_request s') = Some ([], s'))"
proof -
  have "rb_wf (FrameRingBuffer 2)" using FrameRingBuffer_wf [of 2] by simp
  from sink_reach.started [OF sink_reach.created [OF this]]
  have r: "sink_reach same_time MpegTSPlayoutSinkConfig started_sink (FrameRingBuffer 2)"
    unfolding started_sink_def .
  have stop: "\<exists>s'. Ms_stop_finish same_time quiet_close [] (Ms_stop_request started_sink) = Some ([], s')"
    by (simp add: quiet_defs Ms_stop_request_def stops_def Ms_stop_finish_def close_encoder_def Ep_close_def EncoderPipeline_def)
  then obtain s' where s': "Ms_stop_finish same_time quiet_close [] (Ms_stop_request started_sink) = Some ([], s')" by blast
  have run: "Ms_state started_sink = Running" by (simp add: Ms_state_def started_sink_fields)
  show ?thesis
    using sink_session [OF r, of good_uds good_tcp quiet_close "[]" "[]" s' quiet_close "[]"] s' run r by auto
qed



text \<open>C18. When a frame is encoded, everything the encoder hands out is whole packets and goes to the one client
  connected at that time, in order and without gaps: all of it if the client is still connected
  afterwards, which is then a whole number of packets; a beginning of it if the socket refused to take
  more, and then the client is gone. Without a client nothing is sent.\<close>

theorem sink_delivery:
  assumes "processFrame rescale_q en f pts90k as s = Some (ds, s')"
  shows "let handed = eo_calls (fst (Ep_encodeFrame rescale_q en f pts90k (ms_encoder s)));
             received = concat (map snd ds)
    in if ms_client_connected s
       then whole_packets handed
         \<and> (case client_of s of
              None \<Rightarrow> ds = [] \<and> client_of s' = None
            | Some fd \<Rightarrow> (\<forall>d \<in> set ds. fst d = fd)
                \<and> (client_of s' = Some fd \<and> received = concat handed \<and> ts_packet_size dvd length received
                   \<or> client_of s' = None \<and> prefix received (concat handed) \<and> (\<exists>a \<in> set as. refused a)))
       else ds = [] \<and> s' = s"
proof (cases "ms_client_connected s")
  case False
  with assms show ?thesis by (simp add: processFrame_def)
next
  case True
  obtain out e where e: "Ep_encodeFrame rescale_q en f pts90k (ms_encoder s) = (out, e)" by fastforce
  have whole: "whole_packets (eo_calls out)" using Ep_encodeFrame_emits [OF e] by (simp add: emits_def)
  obtain as' u where u: "deliver (eo_calls out) as (s\<lparr>ms_encoder := e\<rparr>) = Some (ds, as', u)"
      "client_of s' = client_of u"
    using assms True e by (auto simp: processFrame_def client_of_def count_def uds_mode_def
      split: option.splits encode_result.splits if_splits)
  have same: "client_of (s\<lparr>ms_encoder := e\<rparr>) = client_of s"
    by (simp add: client_of_def uds_mode_def split: option.splits)
  show ?thesis
  proof (cases "client_of s")
    case None
    with deliver_no_client [OF _ u(1)] same u(2) True e whole show ?thesis by (simp add: Let_def)
  next
    case (Some fd)
    with deliver_client [OF _ u(1)] same obtain ok out2 as2 where d:
      "write_list (writer_of (s\<lparr>ms_encoder := e\<rparr>)) (eo_calls out) as = Some (ok, out2, as2)"
      "out2 = concat (map snd ds)" "\<forall>d \<in> set ds. fst d = fd" "client_of u = (if ok then Some fd else None)"
      by metis
    have "ts_packet_size dvd length (concat (eo_calls out))"
      using whole by (rule whole_packets_concat)
    with writer_of_delivers [OF d(1)] d(2-4) u(2) Some True e whole show ?thesis by (cases ok) (auto simp: Let_def)
  qed
qed

text \<open>The header of one null packet, given to an encoder that has just been opened.\<close>

lemma null_packet_facts: "ExtractPID null_packet = 0x1FFF" "ExtractContinuityCounter null_packet = 0"
  "ExtractPCR null_packet = None" "hd null_packet = 0x47" "null_packet \<noteq> []" "length null_packet = 188"
  by (simp_all add: null_packet_def ExtractPID_def ExtractContinuityCounter_def ExtractPCR_def)

lemma ProcessTSPackets_null:
  "ProcessTSPackets clk k null_packet t = (null_packet, observe_packet 0x1FFF 0 t)"
proof -
  have "ProcessTSPackets clk n [] u = ([], u)" for n and u :: "'a ts_tracker_scheme"
    by (subst ProcessTSPackets.simps) (simp add: ts_packet_size_def)
  then show ?thesis
    by (subst ProcessTSPackets.simps)
      (simp add: ts_packet_size_def process_packet_def null_packet_facts is_null_packet_def track_pcr_def)
qed

lemma receive_loop_again: "en_receive en i = ReceiveAgain \<Longrightarrow> receive_loop rescale_q en den n i e = (True, [], [], e)"
  by (cases n) auto

definition header_env :: encode_env where
  "header_env = (good_encode [])\<lparr>en_header_blocks := [null_packet]\<rparr>"

lemma header_handed:
  "\<exists>e. Ep_open same_time quiet_close good_open MpegTSPlayoutSinkConfig True True
        (EncoderPipeline MpegTSPlayoutSinkConfig) = Some (True, e)
    \<and> eo_calls (fst (Ep_encodeFrame same_time header_env small_frame 0 e)) = [null_packet]
    \<and> eo_result (fst (Ep_encodeFrame same_time header_env small_frame 0 e)) = Encoded True"
  by (simp add: session_simps header_env_def receive_loop_again HandleAVIOWrite_def WriteWithAlignment_def
    drop_oldest_def complete_packets_def null_packet_facts ts_packet_size_def max_buffer_size_def
    ProcessTSPackets_null observe_packet_def state_at_def ContinuityState_def)

theorem sink_delivery_witness:
  "\<exists>e s'. let s = started_sink\<lparr>ms_client_fd := Some 7, ms_client_connected := True, ms_encoder := e\<rparr>
     in processFrame same_time header_env small_frame 0 [Sent 100, Interrupted, Sent 88] s = Some ([(7, null_packet)], s')
       \<and> client_of s' = Some 7 \<and> ts_packet_size dvd length null_packet"
proof -
  obtain e where e: "eo_calls (fst (Ep_encodeFrame same_time header_env small_frame 0 e)) = [null_packet]"
      "eo_result (fst (Ep_encodeFrame same_time header_env small_frame 0 e)) = Encoded True"
    using header_handed by blast
  define s where "s = started_sink\<lparr>ms_client_fd := Some 7, ms_client_connected := True, ms_encoder := e\<rparr>"
  have s: "\<not> uds_mode s" "ms_client_connected s" "ms_client_fd s = Some 7" "ms_encoder s = e"
    using started_sink_fields(1) by (simp_all add: s_def uds_mode_def)
  obtain out e' where o: "Ep_encodeFrame same_time header_env small_frame 0 e = (out, e')" by fastforce
  have "deliver [null_packet] [Sent 100, Interrupted, Sent 88] (s\<lparr>ms_encoder := e'\<rparr>)
      = Some ([(7, null_packet)], [], s\<lparr>ms_encoder := e'\<rparr>)"
    using s by (simp add: writePacketCallback_def writeAllBlocking_def uds_mode_def null_packet_facts)
  then have p: "processFrame same_time header_env small_frame 0 [Sent 100, Interrupted, Sent 88] s
      = Some ([(7, null_packet)], s\<lparr>ms_encoder := e'\<rparr>)"
    using s e o by (simp add: processFrame_def)
  have c: "client_of s = Some 7" "client_of (s\<lparr>ms_encoder := e'\<rparr>) = Some 7"
    using s by (simp_all add: client_of_def uds_mode_def)
  from sink_delivery [OF p] have "ts_packet_size dvd length null_packet" using s c by (simp add: Let_def)
  with p c(2) show ?thesis unfolding s_def [symmetric] Let_def by (metis s_def)
qed

end
