(* ===== verification/Client_Stream.thy ===== *)
theory Client_Stream
  imports Sink_Session
begin

text \<open>
  What one client of the playout sink receives, from the muxer to the socket: the muxer's blocks go through
  \<open>HandleAVIOWrite\<close> and the counter correction (\<open>TransportStream\<close>), come out of the encoder's loops as calls
  of the write callback (\<open>EncoderPipeline\<close>) and are sent to the client by the worker (\<open>MpegTSPlayoutSink\<close>).
  The pieces are joined over all the passes the client is connected for.
\<close>

section \<open>A stream in pieces\<close>

text \<open>
  \<open>feeds e bufs calls e'\<close>: from \<open>e\<close> to \<open>e'\<close> the muxer wrote the blocks \<open>bufs\<close> and the callback was called
  with \<open>calls\<close>; whenever what was waiting and the blocks make up whole packets and a rest, the calls carry
  those packets with the counters due, and the rest is waiting.
\<close>

definition piped :: "encoder \<Rightarrow> bool" where
  "piped e \<longleftrightarrow> ep_custom_avio_ctx e \<and> tt_avio_callback e \<and> length (tt_alignment_buffer e) < ts_packet_size"

definition pieces :: "bytes \<Rightarrow> bytes list \<Rightarrow> bytes \<Rightarrow> bool" where
  "pieces stream ps rest \<longleftrightarrow> stream = concat ps @ rest \<and> (\<forall>p \<in> set ps. ts_packet p) \<and> length rest < ts_packet_size"

definition feeds :: "encoder \<Rightarrow> bytes list \<Rightarrow> bytes list \<Rightarrow> encoder \<Rightarrow> bool" where
  "feeds e bufs calls e' \<longleftrightarrow> (\<forall>ps rest.
     piped e \<and> (\<forall>buf \<in> set bufs. block_ok buf) \<and> pieces (tt_alignment_buffer e @ concat bufs) ps rest \<longrightarrow>
       concat calls = concat (restamp (counters_seen e) ps) \<and> piped e'
       \<and> tt_alignment_buffer e' = rest \<and> counters_seen e' = seen_after (counters_seen e) ps)"

lemma pieces_short: "pieces xs ps rest \<Longrightarrow> length xs < ts_packet_size \<Longrightarrow> ps = [] \<and> rest = xs"
  by (cases ps) (auto simp: pieces_def ts_packet_def)

lemma pieces_split:
  "pieces (xs @ ys) ps rest
     \<Longrightarrow> \<exists>ps1 ps2 r. ps = ps1 @ ps2 \<and> pieces xs ps1 r \<and> pieces (r @ ys) ps2 rest"
  using split_stream [of xs ys ps rest] by (fastforce simp: pieces_def)

lemma feeds_append:
  assumes "feeds e bufs calls u" "feeds u bufs' calls' e'"
  shows "feeds e (bufs @ bufs') (calls @ calls') e'"
  unfolding feeds_def
proof (intro allI impI)
  fix ps rest
  assume a: "piped e \<and> (\<forall>buf \<in> set (bufs @ bufs'). block_ok buf)
    \<and> pieces (tt_alignment_buffer e @ concat (bufs @ bufs')) ps rest"
  then have "pieces ((tt_alignment_buffer e @ concat bufs) @ concat bufs') ps rest" by simp
  from pieces_split [OF this] obtain ps1 ps2 r where s:
    "ps = ps1 @ ps2" "pieces (tt_alignment_buffer e @ concat bufs) ps1 r" "pieces (r @ concat bufs') ps2 rest" by blast
  from a have ok: "piped e" "\<forall>buf \<in> set bufs. block_ok buf" "\<forall>buf \<in> set bufs'. block_ok buf" by auto
  from assms(1) ok(1,2) s(2) have first: "concat calls = concat (restamp (counters_seen e) ps1)" "piped u"
      "tt_alignment_buffer u = r" "counters_seen u = seen_after (counters_seen e) ps1"
    unfolding feeds_def by blast+
  have "pieces (tt_alignment_buffer u @ concat bufs') ps2 rest" using s(3) first(3) by simp
  with assms(2) ok(3) first(2) have "concat calls' = concat (restamp (counters_seen u) ps2)" "piped e'"
      "tt_alignment_buffer e' = rest" "counters_seen e' = seen_after (counters_seen u) ps2"
    unfolding feeds_def by blast+
  with first s(1) show "concat (calls @ calls') = concat (restamp (counters_seen e) ps) \<and> piped e'
      \<and> tt_alignment_buffer e' = rest \<and> counters_seen e' = seen_after (counters_seen e) ps"
    by (simp add: restamp_append seen_after_append)
qed

text \<open>Nothing of the stream changes.\<close>

definition same_pipe :: "encoder \<Rightarrow> encoder \<Rightarrow> bool" where
  "same_pipe e e' \<longleftrightarrow> tt_continuity_counters e' = tt_continuity_counters e
     \<and> tt_alignment_buffer e' = tt_alignment_buffer e \<and> ep_custom_avio_ctx e' = ep_custom_avio_ctx e
     \<and> tt_avio_write_callback e' = tt_avio_write_callback e \<and> tt_avio_opaque e' = tt_avio_opaque e"

lemma same_pipe_feeds: "same_pipe e e' \<Longrightarrow> feeds e [] [] e'"
  by (auto simp: feeds_def same_pipe_def piped_def dest: pieces_short)

lemma feeds_refl [simp]: "feeds e [] [] e"
  by (simp add: same_pipe_feeds same_pipe_def)

lemma feeds_same: "same_pipe e u \<Longrightarrow> feeds u bufs calls e' \<Longrightarrow> feeds e bufs calls e'"
  "feeds e bufs calls u \<Longrightarrow> same_pipe u e' \<Longrightarrow> feeds e bufs calls e'"
  using feeds_append [OF same_pipe_feeds] feeds_append [OF _ same_pipe_feeds] by force+

lemma mux_blocks_feeds:
  assumes "mux_blocks clk now bufs e = (calls, e')"
  shows "feeds e bufs calls e'"
  unfolding feeds_def
proof (intro allI impI)
  fix ps rest
  assume a: "piped e \<and> (\<forall>buf \<in> set bufs. block_ok buf) \<and> pieces (tt_alignment_buffer e @ concat bufs) ps rest"
  then have w: "write_blocks clk now bufs e = (calls, e')" using assms by (simp add: mux_blocks_def piped_def)
  have "ep_custom_avio_ctx e' = ep_custom_avio_ctx e" "tt_avio_callback e' = tt_avio_callback e"
    using same_rest_fields [of e e'] mux_blocks_keeps [OF assms] by simp_all
  with a write_blocks_aligned [OF _ _ _ _ _ _ w, of ps rest]
  show "concat calls = concat (restamp (counters_seen e) ps) \<and> piped e'
      \<and> tt_alignment_buffer e' = rest \<and> counters_seen e' = seen_after (counters_seen e) ps"
    by (simp add: pieces_def piped_def)
qed

section \<open>What the muxer writes for a frame\<close>

text \<open>
  The blocks written while a frame is encoded: the header with the first frame, those of the packets
  drained from a full encoder, those of the packets received.
\<close>

fun received_blocks :: "encode_env \<Rightarrow> nat \<Rightarrow> nat \<Rightarrow> bytes list" where
  "received_blocks en 0 i = []"
| "received_blocks en (Suc left) i =
     (case en_receive en i of
        Received ev \<Rightarrow> pe_blocks ev @ (if pe_write ev = AvAgain then [] else received_blocks en left (Suc i))
      | _ \<Rightarrow> [])"

fun drained_blocks :: "encode_env \<Rightarrow> nat \<Rightarrow> nat \<Rightarrow> bytes list" where
  "drained_blocks en 0 i = []"
| "drained_blocks en (Suc left) i =
     (case en_drain en i of
        Received ev \<Rightarrow> pe_blocks ev @ (if pe_write ev = AvAgain then [] else drained_blocks en left (Suc i))
      | _ \<Rightarrow> [])"

definition sent_blocks :: "encode_env \<Rightarrow> bytes list" where
  "sent_blocks en =
     (if en_send en = AvOk then received_blocks en max_packets_per_frame 0
      else if en_send en = AvAgain
      then drained_blocks en max_drain_attempts 0
        @ (if en_resend en = AvOk then received_blocks en max_packets_per_frame 0 else [])
      else [])"

definition plane_blocks :: "encode_env \<Rightarrow> frame \<Rightarrow> bool \<Rightarrow> bytes list" where
  "plane_blocks en f planes =
     (let (y_size, uv_size) = frame_sizes f
      in if length (fr_data f) < y_size + 2 * uv_size \<or> (\<not> planes \<and> 0 < fr_height f) then [] else sent_blocks en)"

definition frame_blocks :: "encode_env \<Rightarrow> frame \<Rightarrow> encoder \<Rightarrow> bytes list" where
  "frame_blocks en f e =
     (if \<not> ep_initialized e \<or> sc_stub_mode (ep_config e) then []
      else case ep_codec_ctx e of
        None \<Rightarrow> []
      | Some cx \<Rightarrow>
          if \<not> needs_codec cx f then plane_blocks en f (ep_planes e \<noteq> None)
          else if \<not> (en_copy_parameters en \<and> en_find_encoder en \<and> en_open_codec en \<and> en_image_alloc en) then []
          else if ep_header_written e then plane_blocks en f True
          else en_header_blocks en @ (if en_write_header en = AvOk then plane_blocks en f True else []))"

lemma stamp_packet_pipe: "stamp_packet p e = (p', e') \<Longrightarrow> same_pipe e e'"
  by (auto simp: stamp_packet_def enforce_pts_def enforce_dts_def same_pipe_def Let_def split: option.splits prod.splits)

lemma drain_loop_feeds:
  "drain_loop rescale_q en den left i e = (ps, calls, e') \<Longrightarrow> feeds e (drained_blocks en left i) calls e'"
proof (induction left arbitrary: i e ps calls)
  case (Suc left)
  show ?case
  proof (cases "en_drain en i")
    case (Received ev)
    obtain cs u where m: "mux_blocks (en_pcr_clk en) (en_clk en i) (pe_blocks ev) e = (cs, u)" by fastforce
    show ?thesis
    proof (cases "pe_write ev = AvAgain")
      case True
      with Suc.prems Received m mux_blocks_feeds [OF m] show ?thesis by simp
    next
      case False
      obtain qs later where l: "drain_loop rescale_q en den left (Suc i) u = (qs, later, e')" "calls = cs @ later"
        using Suc.prems Received m False by (auto split: prod.splits)
      from feeds_append [OF mux_blocks_feeds [OF m] Suc.IH [OF l(1)]] Received False l(2) show ?thesis by simp
    qed
  qed (use Suc.prems in simp_all)
qed simp

lemma receive_loop_feeds:
  "receive_loop rescale_q en den left i e = (ok, ps, calls, e') \<Longrightarrow> feeds e (received_blocks en left i) calls e'"
proof (induction left arbitrary: i e ok ps calls)
  case (Suc left)
  show ?case
  proof (cases "en_receive en i")
    case (Received ev)
    obtain p u where p: "stamp_packet (rescale_packet rescale_q den (pe_packet ev)) e = (p, u)" by fastforce
    let ?u = "u\<lparr>ep_last_packet_time_us := en_clk en i\<rparr>"
    obtain cs v where m: "mux_blocks (en_pcr_clk en) (en_clk en i) (pe_blocks ev) ?u = (cs, v)" by fastforce
    have "same_pipe e ?u" using stamp_packet_pipe [OF p] by (simp add: same_pipe_def)
    from feeds_same(1) [OF this mux_blocks_feeds [OF m]] have here: "feeds e (pe_blocks ev) cs v" .
    show ?thesis
    proof (cases "pe_write ev = AvAgain")
      case True
      with Suc.prems Received p m here show ?thesis by simp
    next
      case False
      obtain qs later where l: "receive_loop rescale_q en den left (Suc i) v = (ok, qs, later, e')" "calls = cs @ later"
        using Suc.prems Received p m False by (auto split: prod.splits)
      from feeds_append [OF here Suc.IH [OF l(1)]] Received False l(2) show ?thesis by simp
    qed
  qed (use Suc.prems in simp_all)
qed simp

lemma send_frame_feeds:
  assumes "send_frame rescale_q en den e = (out, e')"
  shows "feeds e (sent_blocks en) (eo_calls out) e'"
proof -
  obtain ok ps calls u where r: "receive_loop rescale_q en den max_packets_per_frame 0 e = (ok, ps, calls, u)"
    by (metis prod_cases4)
  obtain drained dcalls v where d: "drain_loop rescale_q en den max_drain_attempts 0 e = (drained, dcalls, v)"
    by (metis prod_cases3)
  obtain ok' ps' calls' w where r': "receive_loop rescale_q en den max_packets_per_frame 0 v = (ok', ps', calls', w)"
    by (metis prod_cases4)
  note facts = receive_loop_feeds [OF r] drain_loop_feeds [OF d]
    feeds_append [OF drain_loop_feeds [OF d] receive_loop_feeds [OF r']]
  show ?thesis
    using assms facts by (auto simp: send_frame_def r d r' encode_output_of_def sent_blocks_def split: if_splits)
qed

lemma not_piped_feeds: "\<not> piped e \<Longrightarrow> feeds e bufs calls e'"
  by (simp add: feeds_def)

lemma write_header_feeds:
  assumes "write_header en e = (ok, calls, e')"
  shows "feeds e (if ep_header_written e then [] else en_header_blocks en) calls e'
    \<and> (piped e \<longrightarrow> ok = (ep_header_written e \<or> en_write_header en = AvOk))"
proof (cases "piped e \<and> \<not> ep_header_written e")
  case False
  then show ?thesis
    using assms not_piped_feeds by (cases "ep_header_written e") (auto simp: write_header_def)
next
  case True
  obtain cs v where m: "mux_blocks (en_pcr_clk en) (en_clk en 0) (en_header_blocks en) e = (cs, v)" by fastforce
  have eq: "(ok, calls, e') = (if en_write_header en \<noteq> AvOk then (False, cs, v) else (True, cs, v\<lparr>ep_header_written := True\<rparr>))"
    unfolding assms [symmetric] write_header_def using True m by (simp add: piped_def)
  have "same_pipe v (v\<lparr>ep_header_written := True\<rparr>)" by (simp add: same_pipe_def)
  then have "feeds e (en_header_blocks en) cs (v\<lparr>ep_header_written := True\<rparr>)"
    using feeds_same(2) [OF mux_blocks_feeds [OF m]] by blast
  with eq mux_blocks_feeds [OF m] True show ?thesis by (auto split: if_splits)
qed

lemma prepare_codec_feeds:
  assumes "prepare_codec en f cx e = (ok, calls, e')"
  shows "feeds e (if \<not> (en_copy_parameters en \<and> en_find_encoder en \<and> en_open_codec en \<and> en_image_alloc en)
        \<or> ep_header_written e then [] else en_header_blocks en) calls e'
    \<and> (piped e \<longrightarrow> ok = (en_copy_parameters en \<and> en_find_encoder en \<and> en_open_codec en \<and> en_image_alloc en
        \<and> (ep_header_written e \<or> en_write_header en = AvOk)))"
proof -
  define u where "u = close_codec cx e"
  define cx1 where "cx1 = (if 0 < cx_width cx \<and> 0 < cx_height cx then cx\<lparr>cx_open := False\<rparr> else cx)\<lparr>cx_width := fr_width f, cx_height := fr_height f\<rparr>"
  define v where "v = u\<lparr>ep_codec_ctx := Some cx1, ep_frame_width := fr_width f, ep_frame_height := fr_height f\<rparr>"
  define w where "w = v\<lparr>ep_codec_ctx := Some (cx1\<lparr>cx_open := True\<rparr>)\<rparr>"
  define x where "x = w\<lparr>ep_planes := Some [], ep_sws_ctx := False\<rparr>"
  have pipes: "same_pipe e v" "same_pipe e w" "same_pipe e x"
    by (simp_all add: u_def v_def w_def x_def close_codec_def same_pipe_def Let_def)
  have x: "piped x = piped e" "ep_header_written x = ep_header_written e"
    using pipes(3) by (simp_all add: piped_def same_pipe_def x_def w_def v_def u_def close_codec_def Let_def)
  have "(ok, calls, e') = (if \<not> en_copy_parameters en then (False, [], v)
      else if \<not> en_find_encoder en then (False, [], v) else if \<not> en_open_codec en then (False, [], v)
      else if \<not> en_image_alloc en then (False, [], w) else write_header en x)"
    unfolding assms [symmetric] prepare_codec_def Let_def x_def w_def v_def u_def cx1_def by (rule refl)
  then consider
      "\<not> (en_copy_parameters en \<and> en_find_encoder en \<and> en_open_codec en \<and> en_image_alloc en)"
      "\<not> ok" "calls = []" "e' = v \<or> e' = w"
    | "en_copy_parameters en \<and> en_find_encoder en \<and> en_open_codec en \<and> en_image_alloc en"
      "write_header en x = (ok, calls, e')"
    by (auto split: if_splits)
  then show ?thesis
  proof cases
    case 1
    with pipes same_pipe_feeds show ?thesis by auto
  next
    case 2
    from write_header_feeds [OF 2(2)] feeds_same(1) [OF pipes(3)] 2(1) x show ?thesis by auto
  qed
qed

lemma encode_planes_feeds:
  assumes "encode_planes rescale_q en f pts90k calls e = (out, e')" "ep_codec_ctx e \<noteq> None"
  shows "\<exists>more. eo_calls out = calls @ more \<and> feeds e (plane_blocks en f (ep_planes e \<noteq> None)) more e'"
proof -
  obtain y_size uv_size where sizes: "frame_sizes f = (y_size, uv_size)" by fastforce
  obtain cx where cx: "ep_codec_ctx e = Some cx" using assms(2) by blast
  show ?thesis
  proof (cases "length (fr_data f) < y_size + 2 * uv_size \<or> ep_planes e = None \<and> 0 < fr_height f")
    case True
    with assms(1) cx have "e' = e \<and> eo_calls out = calls"
      by (auto simp: encode_planes_def sizes encode_output_of_def split: if_splits)
    with True show ?thesis by (auto simp: plane_blocks_def sizes)
  next
    case False
    let ?u = "e\<lparr>ep_planes := map_option (\<lambda>_. copy_planes f) (ep_planes e),
                ep_frame_pts := rescale_q pts90k (1, 90000) (1, cx_time_base_den cx)\<rparr>"
    obtain o2 v where s: "send_frame rescale_q en (cx_time_base_den cx) ?u = (o2, v)" by fastforce
    have "out = o2\<lparr>eo_calls := calls @ eo_calls o2\<rparr> \<and> e' = v"
      using assms(1) False cx s by (auto simp: encode_planes_def sizes)
    moreover have "same_pipe e ?u" by (simp add: same_pipe_def)
    ultimately show ?thesis
      using feeds_same(1) [OF _ send_frame_feeds [OF s]] False by (auto simp: plane_blocks_def sizes)
  qed
qed

lemma Ep_encodeFrame_feeds:
  assumes "Ep_encodeFrame rescale_q en f pts90k e = (out, e')"
  shows "feeds e (frame_blocks en f e) (eo_calls out) e'"
proof (cases "ep_initialized e \<and> \<not> sc_stub_mode (ep_config e) \<and> ep_codec_ctx e \<noteq> None \<and> piped e")
  case False
  with assms not_piped_feeds show ?thesis
    by (auto simp: Ep_encodeFrame_def encode_output_of_def frame_blocks_def split: if_splits)
next
  case True
  then obtain cx where cx: "ep_codec_ctx e = Some cx" by blast
  show ?thesis
  proof (cases "needs_codec cx f")
    case needed: True
    obtain ok calls u where p: "prepare_codec en f cx e = (ok, calls, u)" by (metis prod_cases3)
    note here = prepare_codec_feeds [OF p]
    show ?thesis
    proof (cases ok)
      case False
      with assms True cx needed p have "eo_calls out = calls \<and> e' = u"
        by (auto simp: Ep_encodeFrame_def encode_output_of_def)
      with here False True cx needed show ?thesis by (auto simp: frame_blocks_def split: if_splits)
    next
      case True': True
      with assms True cx needed p have "encode_planes rescale_q en f pts90k calls u = (out, e')"
        by (simp add: Ep_encodeFrame_def)
      moreover from prepare_codec_emits [OF p] True' have "ep_codec_ctx u \<noteq> None" "ep_planes u \<noteq> None" by auto
      ultimately obtain more where "eo_calls out = calls @ more" "feeds u (plane_blocks en f True) more e'"
        using encode_planes_feeds by fastforce
      with feeds_append [OF conjunct1 [OF here]] here True' True cx needed show ?thesis
        by (auto simp: frame_blocks_def split: if_splits)
    qed
  next
    case False
    with assms True cx have "encode_planes rescale_q en f pts90k [] e = (out, e')" by (simp add: Ep_encodeFrame_def)
    with encode_planes_feeds [OF this] cx False True show ?thesis by (auto simp: frame_blocks_def)
  qed
qed

section \<open>A client connects\<close>

lemma Ep_open_pipe:
  assumes "Ep_open rescale_q ce oe config True True e = Some (True, e')" "\<not> ep_initialized e" "\<not> sc_stub_mode config"
  shows "ep_custom_avio_ctx e' \<and> tt_avio_callback e' \<and> counters_seen e' = Map.empty"
proof -
  have "known Map.empty = Map.empty" by (simp add: known_def)
  with assms show ?thesis
    by (simp add: Ep_open_def open_codec_def open_failed_eq Let_def split: if_splits) auto
qed

definition fresh_stream :: "encoder \<Rightarrow> bool" where
  "fresh_stream e \<longleftrightarrow> piped e \<and> counters_seen e = Map.empty \<and> tt_alignment_buffer e = []"

lemma initialize_cases:
  assumes "initializeEncoderForClient rescale_q ce oe as s = Some (ok, ds, as', s')"
  obtains u e where "close_encoder rescale_q ce as s = Some (ds, as', u)"
    "Ep_open rescale_q ce oe (ms_config u) True True (ms_encoder u) = Some (ok, e)" "s' = u\<lparr>ms_encoder := e\<rparr>"
  using assms by (auto simp: initializeEncoderForClient_def split: option.splits)

lemma initialize_fresh:
  assumes "initializeEncoderForClient rescale_q ce oe as s = Some (True, ds, as', s')" "parts_ok s"
    "\<not> sc_stub_mode (ms_config s)"
  shows "fresh_stream (ms_encoder s')"
proof -
  obtain u e where u: "close_encoder rescale_q ce as s = Some (ds, as', u)"
      "Ep_open rescale_q ce oe (ms_config u) True True (ms_encoder u) = Some (True, e)" "s' = u\<lparr>ms_encoder := e\<rparr>"
    using assms(1) by (rule initialize_cases)
  have p: "parts_ok u" "\<not> ep_initialized (ms_encoder u)" using close_encoder_parts [OF u(1) assms(2)] by simp_all
  have "\<not> sc_stub_mode (ms_config u)" using keeps_loop_fields(1) [OF close_encoder_keeps [OF u(1)]] assms(3) by simp
  moreover have "tt_alignment_buffer e = []"
    using Ep_open_clean [OF u(2) p(2)] p(1) by (simp add: parts_ok_def)
  ultimately show ?thesis
    using Ep_open_pipe [OF u(2) p(2)] u(3) by (simp add: fresh_stream_def piped_def)
qed

text \<open>Who is taken for gone stays gone until the next client is accepted.\<close>

lemma deliver_stays: "deliver bufs as s = Some (ds, as', s') \<Longrightarrow> \<not> ms_client_connected s \<Longrightarrow> \<not> ms_client_connected s'"
proof (induction bufs arbitrary: as s ds)
  case (Cons buf bufs)
  then obtain n ds1 as1 u ds2 where w: "writePacketCallback buf as s = Some (n, ds1, as1, u)"
      "deliver bufs as1 u = Some (ds2, as', s')" by (auto split: option.splits)
  have "\<not> ms_client_connected u"
    using w(1) Cons.prems(2) by (auto simp: writePacketCallback_def writeAllBlocking_def split: option.splits if_splits)
  from Cons.IH [OF w(2) this] show ?case .
qed simp

lemma disconnect_stays: "handleClientDisconnect rescale_q ce as s = Some (ds, as', s') \<Longrightarrow> \<not> ms_client_connected s'"
  using deliver_stays by (fastforce simp: handleClientDisconnect_def close_encoder_def split: if_splits option.splits)

lemma accepted_client:
  assumes "poll_client rescale_q cl s = Some (ds, as, s')" "\<not> uds_mode s" "\<not> ms_client_connected s" "ms_client_connected s'"
  shows "\<exists>fd. ac_accept (cl_accept cl) = Some fd \<and> initializeEncoderForClient rescale_q (cl_close cl) (cl_open cl)
    (cl_sends cl) (s\<lparr>ms_client_fd := Some fd, ms_client_connected := True\<rparr>) = Some (True, ds, as, s')"
proof -
  obtain r where r: "Ms_tryAcceptClient rescale_q cl s = Some (r, ds, as, s')"
    using assms(1,2) by (auto simp: poll_client_def split: option.splits)
  with assms(2-4) obtain fd where fd: "ac_accept (cl_accept cl) = Some fd"
    by (auto simp: Ms_tryAcceptClient_def split: if_splits option.splits)
  obtain ok ds1 as1 u where u: "initializeEncoderForClient rescale_q (cl_close cl) (cl_open cl) (cl_sends cl)
      (s\<lparr>ms_client_fd := Some fd, ms_client_connected := True\<rparr>) = Some (ok, ds1, as1, u)"
    using r assms(2-4) fd by (auto simp: Ms_tryAcceptClient_def split: if_splits option.splits)
  have "ok \<and> (r, ds, as, s') = (True, ds1, as1, u)"
  proof (cases ok)
    case True
    with r u assms(2-4) fd show ?thesis by (auto simp: Ms_tryAcceptClient_def split: if_splits)
  next
    case False
    with r u assms(2-4) fd obtain ds2 where "handleClientDisconnect rescale_q (cl_close cl) as1 u = Some (ds2, as, s')"
      by (auto simp: Ms_tryAcceptClient_def split: if_splits option.splits)
    with assms(4) disconnect_stays show ?thesis by blast
  qed
  with u fd show ?thesis by simp
qed

lemma connected_fresh:
  assumes "poll_client rescale_q cl s = Some (ds, as, s')" "\<not> ms_client_connected s" "ms_client_connected s'"
    "parts_ok s" "\<not> sc_stub_mode (ms_config s)"
  shows "fresh_stream (ms_encoder s')"
proof (cases "uds_mode s")
  case True
  have p: "parts_ok (s\<lparr>ms_client_connected := True\<rparr>)" using assms(4) by (simp add: parts_ok_upd)
  obtain ok v where "initializeEncoderForClient rescale_q (cl_close cl) (cl_open cl) (cl_sends cl)
      (s\<lparr>ms_client_connected := True\<rparr>) = Some (ok, ds, as, v)" "s' = (if ok then v else v\<lparr>ms_client_connected := False\<rparr>)"
    using assms(1-3) True by (auto simp: poll_client_def split: if_splits option.splits)
  with initialize_fresh [OF _ p] assms(3,5) show ?thesis by (cases ok) auto
next
  case False
  then have p: "parts_ok (s\<lparr>ms_client_fd := Some fd, ms_client_connected := True\<rparr>)" for fd
    using assms(4) by (simp add: parts_ok_def uds_mode_def)
  from accepted_client [OF assms(1) False assms(2,3)] obtain fd where
    "initializeEncoderForClient rescale_q (cl_close cl) (cl_open cl)
      (cl_sends cl) (s\<lparr>ms_client_fd := Some fd, ms_client_connected := True\<rparr>) = Some (True, ds, as, s')" by blast
  from initialize_fresh [OF this p] assms(5) show ?thesis by simp
qed

section \<open>While the client is connected\<close>

definition on_air :: "nat \<Rightarrow> playout_sink \<Rightarrow> bool" where
  "on_air fd s \<longleftrightarrow> ms_client_connected s \<and> client_of s = Some fd \<and> (uds_mode s \<longrightarrow> ms_ts_output_sink s \<noteq> None)"

text \<open>\<open>reaches fd calls ds s\<close>: of the calls the deliveries \<open>ds\<close> are all, or, if the client is gone, a beginning.\<close>

definition reaches :: "nat \<Rightarrow> bytes list \<Rightarrow> delivery list \<Rightarrow> playout_sink \<Rightarrow> bool" where
  "reaches fd calls ds s \<longleftrightarrow> (\<forall>d \<in> set ds. fst d = fd)
     \<and> (client_of s = Some fd \<and> concat (map snd ds) = concat calls
        \<or> client_of s = None \<and> prefix (concat (map snd ds)) (concat calls))"

lemma on_air_poll: "on_air fd s \<Longrightarrow> poll_client rescale_q cl s = Some ([], cl_sends cl, s)"
  by (cases "uds_mode s")
    (auto simp: on_air_def poll_client_def Ms_tryAcceptClient_def Us_IsClientConnected_def client_of_def
      split: option.splits if_splits)

lemma same_client:
  assumes "ms_config s' = ms_config s" "ms_ts_output_sink s' = ms_ts_output_sink s"
    "ms_client_connected s' = ms_client_connected s" "ms_client_fd s' = ms_client_fd s"
  shows "client_of s' = client_of s \<and> on_air fd s' = on_air fd s"
  unfolding on_air_def client_of_def uds_mode_def assms by simp

lemma client_count [simp]:
  "client_of (count g s) = client_of s" "on_air fd (count g s) = on_air fd s" "ms_encoder (count g s) = ms_encoder s"
  using same_client [of "count g s" s] by (simp_all add: count_def)

lemma processFrame_on_air:
  assumes "processFrame rescale_q en f pts90k as s = Some (ds, s')" "on_air fd s"
  shows "\<exists>calls. feeds (ms_encoder s) (frame_blocks en f (ms_encoder s)) calls (ms_encoder s') \<and> reaches fd calls ds s'"
proof -
  obtain out e where e: "Ep_encodeFrame rescale_q en f pts90k (ms_encoder s) = (out, e)" by fastforce
  obtain as' u where u: "deliver (eo_calls out) as (s\<lparr>ms_encoder := e\<rparr>) = Some (ds, as', u)"
      "client_of s' = client_of u" "ms_encoder s' = ms_encoder u"
    using assms e by (auto simp: processFrame_def on_air_def split: option.splits encode_result.splits if_splits)
  have "client_of (s\<lparr>ms_encoder := e\<rparr>) = Some fd"
    using assms(2) same_client [of "s\<lparr>ms_encoder := e\<rparr>" s] by (simp add: on_air_def)
  from deliver_client [OF this u(1)] obtain ok out2 as2 where d:
    "write_list (writer_of (s\<lparr>ms_encoder := e\<rparr>)) (eo_calls out) as = Some (ok, out2, as2)"
    "out2 = concat (map snd ds)" "\<forall>d \<in> set ds. fst d = fd" "client_of u = (if ok then Some fd else None)" by metis
  have "reaches fd (eo_calls out) ds s'"
    using writer_of_delivers [OF d(1)] d(2-4) u(2) by (cases ok) (simp_all add: reaches_def)
  moreover have "ms_encoder s' = e" using deliver_encoder [OF u(1)] u(3) by simp
  ultimately show ?thesis using Ep_encodeFrame_feeds [OF e] by blast
qed

lemma still_on_air: "client_of s = Some fd \<Longrightarrow> reaches fd [] [] s"
  by (simp add: reaches_def)

lemma frame_step_on_air:
  assumes "frame_step rescale_q wv as s q = Some (r, ds, s', q')" "on_air fd s"
  shows "\<exists>calls. feeds (ms_encoder s) (case r of Emitted f _ \<Rightarrow> frame_blocks (wv_encode wv) f (ms_encoder s) | _ \<Rightarrow> [])
      calls (ms_encoder s') \<and> reaches fd calls ds s'"
proof (cases "Peek q")
  case None
  then have "r = Underrun" "ds = []" "s' = handleBufferUnderflow s" using assms(1) by (simp_all add: frame_step_def)
  then show ?thesis using assms(2)
    by (auto simp: handleBufferUnderflow_def on_air_def intro!: exI [of _ "[]"] still_on_air)
next
  case (Some x)
  obtain d u where d: "decide_frame (wv_now_us wv) (md_pts (fr_metadata x)) s = (d, u)" by fastforce
  have "ms_encoder u = ms_encoder s \<and> ms_config u = ms_config s \<and> ms_ts_output_sink u = ms_ts_output_sink s
      \<and> ms_client_connected u = ms_client_connected s \<and> ms_client_fd u = ms_client_fd s"
    using d by (auto simp: decide_frame_def Let_def split: if_splits)
  then have u: "ms_encoder u = ms_encoder s" "on_air fd u" using same_client [of u s] assms(2) by blast+
  obtain p q1 where p: "Pop q = (p, q1)" by fastforce
  show ?thesis
  proof (cases "\<exists>gap f. d = SendNow gap \<and> p = Some f")
    case False
    then have "ds = [] \<and> (\<forall>f g. r \<noteq> Emitted f g) \<and> (s' = u \<or> s' = count_late_drop u)"
      using assms(1) Some d p by (cases d; cases p) (auto simp: frame_step_def split: option.splits)
    then show ?thesis using u
      by (cases r) (auto simp: count_late_drop_def on_air_def intro!: exI [of _ "[]"] still_on_air)
  next
    case True
    then obtain gap f where g: "d = SendNow gap" "p = Some f" by blast
    define v where "v = (if 0 < gap then count (\<lambda>st. st\<lparr>st_late_frames := st_late_frames st + 1\<rparr>) u else u)"
    obtain ds' w where w: "processFrame rescale_q (wv_encode wv) f ((md_pts (fr_metadata x) * 90000) sdiv 1000000) as v
        = Some (ds', w)" "ds = ds'" "r = Emitted f gap" "s' = count (\<lambda>st. st\<lparr>st_frames_sent := st_frames_sent st + 1\<rparr>) w"
      using assms(1) Some d p g by (auto simp: frame_step_def Let_def v_def [symmetric] split: option.splits)
    have "on_air fd v" "ms_encoder v = ms_encoder s" using u by (simp_all add: v_def)
    with processFrame_on_air [OF w(1)] w(2-4) show ?thesis by (simp add: reaches_def)
  qed
qed

text \<open>The blocks the muxer writes in a step and over a run.\<close>

definition muxer_step :: "rescale \<Rightarrow> sink_event \<Rightarrow> playout_sink \<times> ring_buffer \<Rightarrow> bytes list" where
  "muxer_step rescale_q ev sq =
     (case ev of
        WorkerPass wv \<Rightarrow>
          (case sink_step rescale_q ev sq of
             Some ([Emitted f _], _) \<Rightarrow> frame_blocks (wv_encode wv) f (ms_encoder (fst sq))
           | _ \<Rightarrow> [])
      | _ \<Rightarrow> [])"

fun muxer_run :: "rescale \<Rightarrow> sink_event list \<Rightarrow> playout_sink \<times> ring_buffer \<Rightarrow> bytes list" where
  "muxer_run rescale_q [] sq = []"
| "muxer_run rescale_q (ev # evs) sq =
     muxer_step rescale_q ev sq
     @ (case sink_step rescale_q ev sq of None \<Rightarrow> [] | Some (_, _, s, q) \<Rightarrow> muxer_run rescale_q evs (s, q))"

text \<open>The client is there before every step.\<close>

fun stays_on_air :: "rescale \<Rightarrow> nat \<Rightarrow> sink_event list \<Rightarrow> playout_sink \<times> ring_buffer \<Rightarrow> bool" where
  "stays_on_air rescale_q fd [] sq \<longleftrightarrow> True"
| "stays_on_air rescale_q fd (ev # evs) sq \<longleftrightarrow> on_air fd (fst sq)
     \<and> (case sink_step rescale_q ev sq of None \<Rightarrow> False | Some (_, _, s, q) \<Rightarrow> stays_on_air rescale_q fd evs (s, q))"

lemma idle_on_air:
  assumes "on_air fd s" "ms_encoder s' = ms_encoder s" "client_of s' = client_of s"
  shows "\<exists>calls. feeds (ms_encoder s) [] calls (ms_encoder s') \<and> reaches fd calls [] s'"
  unfolding assms(2) using assms(1,3) by (intro exI [of _ "[]"]) (simp add: on_air_def still_on_air)

lemma unchanged_on_air: "on_air fd s \<Longrightarrow> \<exists>calls. feeds (ms_encoder s) [] calls (ms_encoder s) \<and> reaches fd calls [] s"
  using idle_on_air [of fd s s] by simp

lemma sink_step_on_air:
  assumes "sink_step rescale_q ev (s, q) = Some (rs, ds, s', q')" "on_air fd s" "ms_output_queue s = []"
  shows "\<exists>calls. feeds (ms_encoder s) (muxer_step rescale_q ev (s, q)) calls (ms_encoder s') \<and> reaches fd calls ds s'"
proof (cases ev)
  case (FrameArrives f)
  with assms unchanged_on_air show ?thesis by (simp add: muxer_step_def)
next
  case (WorkerPass wv)
  show ?thesis
  proof (cases "ms_worker_thread s \<and> ms_running s \<and> \<not> ms_stop_requested s")
    case True
    then obtain r where r: "workerLoop_pass rescale_q wv s q = Some (r, ds, s', q')" "rs = [r]"
      using assms(1) WorkerPass by (auto split: option.splits)
    have m: "muxer_step rescale_q ev (s, q) = (case r of Emitted f _ \<Rightarrow> frame_blocks (wv_encode wv) f (ms_encoder s) | _ \<Rightarrow> [])"
      using r(1) True WorkerPass by (simp add: muxer_step_def split: worker_outcome.splits)
    note polled = on_air_poll [OF assms(2), of rescale_q "wv_client wv"] drainOutputQueue_empty [OF assms(3)]
    show ?thesis
    proof (cases "sc_output_queue_high_water_mark (ms_config s) \<le> length (ms_output_queue s)")
      case True
      then have "r = Throttled" "ds = []" "s' = s" using r(1) polled by (simp_all add: workerLoop_pass_def)
      then show ?thesis unfolding m using unchanged_on_air [OF assms(2)] by simp
    next
      case False
      then have "frame_step rescale_q wv (cl_sends (wv_client wv)) s q = Some (r, ds, s', q')"
        using r(1) polled by (simp add: workerLoop_pass_def split: option.splits prod.splits)
      then show ?thesis unfolding m by (rule frame_step_on_air [OF _ assms(2)])
    qed
  next
    case False
    with assms WorkerPass unchanged_on_air show ?thesis by (auto simp: muxer_step_def)
  qed
next
  case (AcceptRound cl)
  have "Ms_tryAcceptClient rescale_q cl s = Some (False, [], cl_sends cl, s)"
    using assms(2) by (simp add: Ms_tryAcceptClient_def on_air_def)
  then have "s' = s \<and> ds = []" using assms(1) AcceptRound by (auto split: if_splits)
  with unchanged_on_air [OF assms(2)] AcceptRound show ?thesis by (simp add: muxer_step_def)
next
  case (UdsAccept ac)
  then have s': "ds = []" "s' = s\<lparr>ms_ts_output_sink := map_option (Us_AcceptThread_pass ac) (ms_ts_output_sink s)\<rparr>"
    using assms(1) by simp_all
  have "client_of s' = client_of s"
    using assms(2) unfolding s'(2)
    by (auto simp: on_air_def client_of_def uds_mode_def Us_AcceptThread_pass_def Us_TryAcceptClient_def split: if_splits)
  moreover have "ms_encoder s' = ms_encoder s" unfolding s'(2) by simp
  ultimately have "\<exists>calls. feeds (ms_encoder s) [] calls (ms_encoder s') \<and> reaches fd calls [] s'"
    by (intro idle_on_air assms(2))
  then show ?thesis unfolding s'(1) UdsAccept by (simp add: muxer_step_def)
next
  case StopRequested
  then have s': "ds = []" "s' = Ms_stop_request s" using assms(1) by simp_all
  have "client_of s' = client_of s" "ms_encoder s' = ms_encoder s"
    unfolding s'(2) using same_client [of "Ms_stop_request s" s] by (simp_all add: Ms_stop_request_def)
  then have "\<exists>calls. feeds (ms_encoder s) [] calls (ms_encoder s') \<and> reaches fd calls [] s'"
    by (intro idle_on_air assms(2))
  then show ?thesis unfolding s'(1) StopRequested by (simp add: muxer_step_def)
qed

lemma reaches_append:
  assumes "reaches fd calls ds u" "on_air fd u" "reaches fd calls' ds' s'"
  shows "reaches fd (calls @ calls') (ds @ ds') s'"
  using assms by (auto simp: reaches_def on_air_def)

lemma sink_run_on_air:
  "sink_run rescale_q evs (s, q) = Some (rs, ds, s', q') \<Longrightarrow> stays_on_air rescale_q fd evs (s, q)
     \<Longrightarrow> evs \<noteq> [] \<Longrightarrow> rb_wf q \<Longrightarrow> ms_output_queue s = []
     \<Longrightarrow> \<exists>calls. feeds (ms_encoder s) (muxer_run rescale_q evs (s, q)) calls (ms_encoder s') \<and> reaches fd calls ds s'"
proof (induction evs arbitrary: s q rs ds)
  case (Cons ev evs)
  obtain rs1 ds1 u v where st: "sink_step rescale_q ev (s, q) = Some (rs1, ds1, u, v)"
    using Cons.prems(1) by (auto split: option.splits)
  then obtain rs2 ds2 where r: "sink_run rescale_q evs (u, v) = Some (rs2, ds2, s', q')" "ds = ds1 @ ds2"
    using Cons.prems(1) by (auto split: option.splits)
  have air: "on_air fd s" "stays_on_air rescale_q fd evs (u, v)" using Cons.prems(2) st by simp_all
  from sink_step_on_air [OF st air(1) Cons.prems(5)] obtain calls where first:
    "feeds (ms_encoder s) (muxer_step rescale_q ev (s, q)) calls (ms_encoder u)" "reaches fd calls ds1 u" by blast
  show ?case
  proof (cases "evs = []")
    case True
    with st first r show ?thesis by auto
  next
    case False
    then have "on_air fd u" using air(2) by (cases evs) simp_all
    moreover have "rb_wf v" "ms_output_queue u = []" using sink_step_result [OF st Cons.prems(4,5)] by simp_all
    with Cons.IH [OF r(1) air(2) False] obtain calls' where
      "feeds (ms_encoder u) (muxer_run rescale_q evs (u, v)) calls' (ms_encoder s')" "reaches fd calls' ds2 s'" by blast
    ultimately show ?thesis
      using feeds_append [OF first(1)] reaches_append [OF first(2)] st r(2) by fastforce
  qed
qed simp

section \<open>Properties\<close>

text \<open>C2. From the muxer to the client: once a client has connected to any reachable sink, whatever the muxer
  writes for the frames of all its passes, in blocks cut anywhere, as long as they join to transport stream
  packets, the client receives those packets in order, changed in nothing but the counters, with every
  counter the one a receiver that saw nothing before expects; if the connection breaks, a beginning of
  them. Bytes that do not fill a packet are not sent.\<close>

theorem client_stream:
  assumes "sink_reach rescale_q config s0 q" "\<not> sc_stub_mode (ms_config s0)"
    "\<not> ms_client_connected s0" "poll_client rescale_q cl s0 = Some (ds0, as, s)" "ms_client_connected s"
    "sink_run rescale_q evs (s, q) = Some (rs, ds, s', q')" "evs \<noteq> []" "stays_on_air rescale_q fd evs (s, q)"
    "\<forall>buf \<in> set (muxer_run rescale_q evs (s, q)). block_ok buf"
    "concat (muxer_run rescale_q evs (s, q)) = concat ps @ rest" "\<forall>p \<in> set ps. ts_packet p"
    "length rest < ts_packet_size"
  shows "\<exists>received. receiver_accepts Map.empty received
    \<and> map (\<lambda>p. set_counter p 0) received = map (\<lambda>p. set_counter p 0) ps
    \<and> (\<forall>d \<in> set ds. fst d = fd)
    \<and> (if client_of s' = Some fd then concat (map snd ds) = concat received
       else client_of s' = None \<and> prefix (concat (map snd ds)) (concat received))"
proof -
  have wf: "sink_wf s0" "rb_wf q" using sink_reach_wf [OF assms(1)] by blast+
  then have parts: "parts_ok s0" "ms_output_queue s0 = []" by (simp_all add: sink_wf_def)
  have queue: "ms_output_queue s = []" using keeps_loop_fields(12) [OF poll_client_keeps [OF assms(4)] parts(2)] .
  have fresh: "fresh_stream (ms_encoder s)" by (rule connected_fresh [OF assms(4,3,5) parts(1) assms(2)])
  from sink_run_on_air [OF assms(6,8,7) wf(2) queue] obtain calls where calls:
    "feeds (ms_encoder s) (muxer_run rescale_q evs (s, q)) calls (ms_encoder s')" "reaches fd calls ds s'" by blast
  have "pieces (tt_alignment_buffer (ms_encoder s) @ concat (muxer_run rescale_q evs (s, q))) ps rest"
    using fresh assms(10-12) by (simp add: pieces_def fresh_stream_def)
  with calls(1) fresh assms(9) have "concat calls = concat (restamp Map.empty ps)"
    unfolding feeds_def fresh_stream_def by metis
  then show ?thesis
    using calls(2) restamp_accepted [OF _ assms(11)] restamp_counters_only [OF _ assms(11)]
    by (intro exI [of _ "restamp Map.empty ps"]) (auto simp: reaches_def)
qed

definition one_client :: client_env where
  "one_client = no_client\<lparr>cl_accept := \<lparr>ac_accept = Some 7, ac_get_flags = True, ac_set_blocking = True\<rparr>,
     cl_sends := [Sent 100, Interrupted, Sent 88]\<rparr>"

definition one_client_pass :: worker_env where
  "one_client_pass = (quiet_pass 3000000)\<lparr>wv_client := one_client, wv_encode := header_env\<rparr>"

lemma one_client_connects:
  "\<exists>e. poll_client same_time one_client started_sink
      = Some ([], cl_sends one_client, started_sink\<lparr>ms_client_fd := Some 7, ms_client_connected := True, ms_encoder := e\<rparr>)
    \<and> Ep_open same_time quiet_close good_open MpegTSPlayoutSinkConfig True True (EncoderPipeline MpegTSPlayoutSinkConfig) = Some (True, e)"
proof -
  have enc: "ms_encoder started_sink = EncoderPipeline MpegTSPlayoutSinkConfig"
    by (simp add: quiet_defs EncoderPipeline_def)
  obtain e where e: "Ep_open same_time quiet_close good_open MpegTSPlayoutSinkConfig True True
      (EncoderPipeline MpegTSPlayoutSinkConfig) = Some (True, e)" using header_handed by blast
  let ?s = "started_sink\<lparr>ms_client_fd := Some 7, ms_client_connected := True\<rparr>"
  have closed: "close_encoder same_time quiet_close as ?s = Some ([], as, ?s)" for as
    using enc by (simp add: close_encoder_def Ep_close_def EncoderPipeline_def)
  have "initializeEncoderForClient same_time quiet_close good_open as ?s = Some (True, [], as, ?s\<lparr>ms_encoder := e\<rparr>)" for as
    using closed [of as] e enc by (simp add: initializeEncoderForClient_def started_sink_fields)
  with e show ?thesis
    using started_sink_fields
    by (auto simp: poll_client_def Ms_tryAcceptClient_def one_client_def no_client_def)
qed

lemma received_blocks_again: "en_receive en i = ReceiveAgain \<Longrightarrow> received_blocks en n i = []"
  by (cases n) auto

lemma header_sent:
  assumes "Ep_open same_time quiet_close good_open MpegTSPlayoutSinkConfig True True
      (EncoderPipeline MpegTSPlayoutSinkConfig) = Some (True, e)"
  shows "eo_calls (fst (Ep_encodeFrame same_time header_env (frame_at 40000) 3600 e)) = [null_packet]
    \<and> eo_result (fst (Ep_encodeFrame same_time header_env (frame_at 40000) 3600 e)) = Encoded True
    \<and> frame_blocks header_env (frame_at 40000) e = [null_packet]"
proof -
  have e: "e = snd (the (Ep_open same_time quiet_close good_open MpegTSPlayoutSinkConfig True True
      (EncoderPipeline MpegTSPlayoutSinkConfig)))" using assms by simp
  have "eo_calls (fst (Ep_encodeFrame same_time header_env (frame_at 40000) 3600 e)) = [null_packet]
    \<and> eo_result (fst (Ep_encodeFrame same_time header_env (frame_at 40000) 3600 e)) = Encoded True"
    unfolding e frame_at_def
    by (simp add: session_simps header_env_def receive_loop_again HandleAVIOWrite_def WriteWithAlignment_def
      drop_oldest_def complete_packets_def null_packet_facts ts_packet_size_def max_buffer_size_def
      ProcessTSPackets_null observe_packet_def state_at_def ContinuityState_def)
  moreover have "frame_blocks header_env (frame_at 40000) e = [null_packet]"
    unfolding e frame_at_def
    by (simp add: session_simps header_env_def frame_blocks_def plane_blocks_def sent_blocks_def received_blocks_again)
  ultimately show ?thesis by blast
qed

definition connected_sink :: "encoder \<Rightarrow> playout_sink" where
  "connected_sink e = started_sink\<lparr>ms_client_fd := Some 7, ms_client_connected := True, ms_encoder := e\<rparr>"

lemma connected_sink_fields:
  "\<not> uds_mode (connected_sink e)" "ms_client_connected (connected_sink e)" "ms_client_fd (connected_sink e) = Some 7"
  "ms_encoder (connected_sink e) = e" "on_air 7 (connected_sink e)" "ms_output_queue (connected_sink e) = []"
  "ms_sink_start_time_recorded (connected_sink e) = False" "ms_config (connected_sink e) = MpegTSPlayoutSinkConfig"
  "ms_worker_thread (connected_sink e)" "ms_running (connected_sink e)" "\<not> ms_stop_requested (connected_sink e)"
  "ms_listening (connected_sink e)" "ms_accept_thread (connected_sink e)"
  using started_sink_fields by (simp_all add: connected_sink_def uds_mode_def on_air_def client_of_def)

text \<open>A pass that sends the header to this client, whatever the socket answers.\<close>

lemma header_pass:
  assumes "Ep_open same_time quiet_close good_open MpegTSPlayoutSinkConfig True True (EncoderPipeline MpegTSPlayoutSinkConfig) = Some (True, e)"
    "wv_now_us wv = 3000000" "wv_encode wv = header_env" "Peek q = Some (frame_at 40000)" "Pop q = (Some (frame_at 40000), q1)"
  shows "\<exists>u. \<not> uds_mode u \<and> ms_client_connected u \<and> ms_client_fd u = Some 7 \<and> ms_listening u
    \<and> ms_config u = MpegTSPlayoutSinkConfig
    \<and> ms_encoder u = snd (Ep_encodeFrame same_time header_env (frame_at 40000) 3600 e)
    \<and> (\<forall>ds as v. deliver [null_packet] (cl_sends (wv_client wv)) u = Some (ds, as, v) \<longrightarrow>
         workerLoop_pass same_time wv (connected_sink e) q = Some (Emitted (frame_at 40000) 0, ds,
           count (\<lambda>st. st\<lparr>st_frames_sent := st_frames_sent st + 1\<rparr>) v, q1))"
proof -
  define u where "u = (connected_sink e)\<lparr>ms_sink_start_time_utc_us := 2960000, ms_sink_start_time_recorded := True\<rparr>"
  obtain out e' where o: "Ep_encodeFrame same_time header_env (frame_at 40000) 3600 e = (out, e')" by fastforce
  let ?u = "u\<lparr>ms_encoder := e'\<rparr>"
  note s = connected_sink_fields
  have u: "\<not> uds_mode ?u" "ms_client_connected ?u" "ms_client_fd ?u = Some 7" "ms_listening ?u"
      "ms_config ?u = MpegTSPlayoutSinkConfig" "ms_client_connected u" "ms_encoder u = e"
    using s by (simp_all add: u_def uds_mode_def)
  have d: "decide_frame 3000000 40000 (connected_sink e) = (SendNow 0, u)"
    using s(7) by (simp add: decide_frame_def timing_defs u_def)
  have out: "eo_calls out = [null_packet]" "eo_result out = Encoded True" using header_sent [OF assms(1)] o by simp_all
  have f: "md_pts (fr_metadata (frame_at 40000)) = 40000" by (simp add: frame_at_def)
  have pass: "workerLoop_pass same_time wv (connected_sink e) q = Some (Emitted (frame_at 40000) 0, ds,
           count (\<lambda>st. st\<lparr>st_frames_sent := st_frames_sent st + 1\<rparr>) v, q1)"
    if v: "deliver [null_packet] (cl_sends (wv_client wv)) ?u = Some (ds, as, v)" for ds as v
  proof -
    have "processFrame same_time header_env (frame_at 40000) 3600 (cl_sends (wv_client wv)) u = Some (ds, v)"
      using u(6,7) o out v by (simp add: processFrame_def del: deliver.simps)
    then have "frame_step same_time wv (cl_sends (wv_client wv)) (connected_sink e) q = Some (Emitted (frame_at 40000) 0, ds,
        count (\<lambda>st. st\<lparr>st_frames_sent := st_frames_sent st + 1\<rparr>) v, q1)"
      using assms(2-5) d by (simp add: frame_step_def f)
    then show ?thesis
      using on_air_poll [OF s(5), of same_time "wv_client wv"] s(6,8)
      by (simp add: workerLoop_pass_def drainOutputQueue_empty MpegTSPlayoutSinkConfig_def)
  qed
  have "ms_encoder ?u = snd (Ep_encodeFrame same_time header_env (frame_at 40000) 3600 e)" using o by simp
  with u(1-5) pass show ?thesis by (intro exI [of _ ?u]) blast
qed

lemma frame_in_ring:
  obtains q q1 where "Push (FrameRingBuffer 2) (frame_at 40000) = (True, q)" "rb_wf q"
    "Peek q = Some (frame_at 40000)" "Pop q = (Some (frame_at 40000), q1)"
proof -
  have wf: "rb_wf (FrameRingBuffer 2)" "rb_frames (FrameRingBuffer 2) = []" "rb_room (FrameRingBuffer 2) = 2"
    using FrameRingBuffer_wf [of 2] by simp_all
  have room: "length (rb_frames (FrameRingBuffer 2)) < rb_room (FrameRingBuffer 2)" by (simp add: wf)
  obtain q where q: "Push (FrameRingBuffer 2) (frame_at 40000) = (True, q)" "rb_wf q" "rb_frames q = [frame_at 40000]"
    using Push_room [OF wf(1) room, of "frame_at 40000"] wf(2) by (metis append_Nil)
  then have "Peek q = Some (frame_at 40000)" using Peek_eq [OF q(2)] by simp
  with Pop_Cons [OF q(2,3)] q(1,2) that show thesis by metis
qed

lemma started_sink_reach: "sink_reach same_time MpegTSPlayoutSinkConfig started_sink (FrameRingBuffer 2)"
proof -
  have "rb_wf (FrameRingBuffer 2)" using FrameRingBuffer_wf [of 2] by simp
  from sink_reach.started [OF sink_reach.created [OF this]] show ?thesis unfolding started_sink_def .
qed

theorem client_stream_witness:
  "\<exists>s ds s' q' received. poll_client same_time one_client started_sink = Some ([], cl_sends one_client, s)
    \<and> sink_run same_time [FrameArrives (frame_at 40000), WorkerPass one_client_pass] (s, FrameRingBuffer 2)
        = Some ([Emitted (frame_at 40000) 0], ds, s', q')
    \<and> receiver_accepts Map.empty received \<and> concat (map snd ds) = concat received
    \<and> map (\<lambda>p. set_counter p 0) received = map (\<lambda>p. set_counter p 0) [null_packet] \<and> (\<forall>d \<in> set ds. fst d = 7)"
proof -
  obtain q q1 where q: "Push (FrameRingBuffer 2) (frame_at 40000) = (True, q)" "rb_wf q"
      "Peek q = Some (frame_at 40000)" "Pop q = (Some (frame_at 40000), q1)" by (rule frame_in_ring)
  obtain e where e: "poll_client same_time one_client started_sink = Some ([], cl_sends one_client, connected_sink e)"
    "Ep_open same_time quiet_close good_open MpegTSPlayoutSinkConfig True True (EncoderPipeline MpegTSPlayoutSinkConfig) = Some (True, e)"
    using one_client_connects unfolding connected_sink_def by blast
  have env: "wv_now_us one_client_pass = 3000000" "wv_encode one_client_pass = header_env"
      "cl_sends (wv_client one_client_pass) = [Sent 100, Interrupted, Sent 88]"
    by (simp_all add: one_client_pass_def quiet_pass_def one_client_def)
  from header_pass [OF e(2) env(1,2) q(3,4)] obtain u where u: "\<not> uds_mode u" "ms_client_connected u" "ms_client_fd u = Some 7"
    "\<And>ds as v. deliver [null_packet] (cl_sends (wv_client one_client_pass)) u = Some (ds, as, v) \<Longrightarrow>
         workerLoop_pass same_time one_client_pass (connected_sink e) q = Some (Emitted (frame_at 40000) 0, ds,
           count (\<lambda>st. st\<lparr>st_frames_sent := st_frames_sent st + 1\<rparr>) v, q1)" by blast
  have "deliver [null_packet] (cl_sends (wv_client one_client_pass)) u = Some ([(7, null_packet)], [], u)"
    using u(1-3) env(3) by (simp add: writePacketCallback_def writeAllBlocking_def null_packet_facts)
  from u(4) [OF this] obtain s' where p: "workerLoop_pass same_time one_client_pass (connected_sink e) q
      = Some (Emitted (frame_at 40000) 0, [(7, null_packet)], s', q1)" "client_of s' = Some 7"
    using u(1-3) by (auto simp: client_of_def [of u] split: if_splits)
  note s = connected_sink_fields
  let ?evs = "[FrameArrives (frame_at 40000), WorkerPass one_client_pass]"
  have run: "sink_run same_time ?evs (connected_sink e, FrameRingBuffer 2)
      = Some ([Emitted (frame_at 40000) 0], [(7, null_packet)], s', q1)"
    using q(1) s p(1) by simp
  have air: "stays_on_air same_time 7 ?evs (connected_sink e, FrameRingBuffer 2)"
    using q(1) s p(1) by simp
  have blocks: "muxer_run same_time ?evs (connected_sink e, FrameRingBuffer 2) = [null_packet]"
    using q(1) s p(1) header_sent [OF e(2)] env(2) by (simp add: muxer_step_def)
  have packet: "ts_packet null_packet" "block_ok null_packet"
    by (simp_all add: ts_packet_def null_packet_def ts_packet_size_def block_ok_def max_buffer_size_def)
  have config: "\<not> sc_stub_mode (ms_config started_sink)" "\<not> ms_client_connected started_sink"
    by (simp_all add: started_sink_fields MpegTSPlayoutSinkConfig_def)
  note stream = client_stream [OF started_sink_reach config e(1) s(2) run _ air, of "[null_packet]" "[]", unfolded blocks]
  have "\<exists>received. receiver_accepts Map.empty received \<and> concat (map snd [(7 :: nat, null_packet)]) = concat received
      \<and> map (\<lambda>p. set_counter p 0) received = map (\<lambda>p. set_counter p 0) [null_packet]"
    using stream packet p(2) by (fastforce simp del: concat.simps list.map receiver_accepts.simps intro!: ts_packet_size_pos)
  then obtain received where "receiver_accepts Map.empty received" "concat (map snd [(7 :: nat, null_packet)]) = concat received"
    "map (\<lambda>p. set_counter p 0) received = map (\<lambda>p. set_counter p 0) [null_packet]" by blast
  moreover have "\<forall>d \<in> set [(7 :: nat, null_packet)]. fst d = 7" by simp
  ultimately show ?thesis using run e(1) by blast
qed








end
