(* ===== verification/Accept_Race.thy ===== *)
theory Accept_Race
  imports Prelude
begin

text \<open>
  The client socket of the playout sink under its two threads, load by load and store by store. In TCP mode
  the worker and the accept thread both call \<open>tryAcceptClient\<close>, and the worker writes
  (\<open>src/playout_sinks/mpegts/MpegTSPlayoutSink.cpp\<close>); \<open>client_fd_\<close> and \<open>client_connected_\<close> are shared
  without a lock. The other theories of the sink let threads interleave at whole passes.
\<close>

section \<open>State and steps\<close>

text \<open>\<open>sk_open\<close> are the client descriptors the process holds open.\<close>

record sink_sockets =
  sk_connected :: bool
  sk_client_fd :: "nat option"
  sk_open :: "nat list"

text \<open>Where a thread is: between calls; in \<open>tryAcceptClient\<close> after the check, after \<open>accept\<close>, after the store
  of the descriptor, in \<open>initializeEncoderForClient\<close>; in \<open>handleClientDisconnect\<close> before the check, after
  \<open>close\<close>, after the store of -1, in the \<open>close\<close> of the encoder; in \<open>writeAllBlocking\<close> after the check, in
  \<open>send\<close>, and on its failure path after the store and after \<open>close\<close>.\<close>

datatype sink_pc =
    Between
  | AcChecked | AcAccepted nat | AcStored | AcEncoder
  | DcEntered | DcClosed | DcStored | DcEncoder
  | WrChecked | WrSending nat | WrFailed nat | WrClosed

inductive accept_step :: "sink_sockets \<times> sink_pc \<Rightarrow> sink_sockets \<times> sink_pc \<Rightarrow> bool" where
  ac_check: "\<not> sk_connected s \<Longrightarrow> accept_step (s, Between) (s, AcChecked)"
| ac_nobody: "accept_step (s, AcChecked) (s, Between)"
| ac_accept: "fd \<notin> set (sk_open s) \<Longrightarrow> accept_step (s, AcChecked) (s\<lparr>sk_open := fd # sk_open s\<rparr>, AcAccepted fd)"
| ac_flags_fail: "accept_step (s, AcAccepted fd) (s\<lparr>sk_open := remove1 fd (sk_open s)\<rparr>, Between)"
| ac_store: "accept_step (s, AcAccepted fd) (s\<lparr>sk_client_fd := Some fd\<rparr>, AcStored)"
| ac_mark: "accept_step (s, AcStored) (s\<lparr>sk_connected := True\<rparr>, AcEncoder)"
| ac_ready: "accept_step (s, AcEncoder) (s, Between)"
| ac_encoder_fails: "accept_step (s, AcEncoder) (s, DcEntered)"
| dc_already: "\<not> sk_connected s \<Longrightarrow> accept_step (s, DcEntered) (s, Between)"
| dc_close: "sk_connected s \<Longrightarrow> sk_client_fd s = Some fd \<Longrightarrow>
    accept_step (s, DcEntered) (s\<lparr>sk_open := remove1 fd (sk_open s)\<rparr>, DcClosed)"
| dc_no_fd: "sk_connected s \<Longrightarrow> sk_client_fd s = None \<Longrightarrow> accept_step (s, DcEntered) (s, DcStored)"
| dc_store: "accept_step (s, DcClosed) (s\<lparr>sk_client_fd := None\<rparr>, DcStored)"
| dc_mark: "accept_step (s, DcStored) (s\<lparr>sk_connected := False\<rparr>, DcEncoder)"
| dc_encoder: "accept_step (s, DcEncoder) (s, Between)"

inductive write_step :: "sink_sockets \<times> sink_pc \<Rightarrow> sink_sockets \<times> sink_pc \<Rightarrow> bool" where
  wr_check: "sk_connected s \<Longrightarrow> write_step (s, Between) (s, WrChecked)"
| wr_no_fd: "sk_client_fd s = None \<Longrightarrow> write_step (s, WrChecked) (s\<lparr>sk_connected := False\<rparr>, Between)"
| wr_load: "sk_client_fd s = Some fd \<Longrightarrow> write_step (s, WrChecked) (s, WrSending fd)"
| wr_sent: "write_step (s, WrSending fd) (s, Between)"
| wr_fail: "write_step (s, WrSending fd) (s\<lparr>sk_connected := False\<rparr>, WrFailed fd)"
| wr_close: "write_step (s, WrFailed fd) (s\<lparr>sk_open := remove1 fd (sk_open s)\<rparr>, WrClosed)"
| wr_store: "write_step (s, WrClosed) (s\<lparr>sk_client_fd := None\<rparr>, Between)"

text \<open>The worker accepts and writes, the accept thread accepts.\<close>

inductive worker_step :: "sink_sockets \<times> sink_pc \<Rightarrow> sink_sockets \<times> sink_pc \<Rightarrow> bool" where
  "accept_step t t' \<Longrightarrow> worker_step t t'"
| "write_step t t' \<Longrightarrow> worker_step t t'"

inductive sockets_step :: "sink_sockets \<times> sink_pc \<times> sink_pc \<Rightarrow> sink_sockets \<times> sink_pc \<times> sink_pc \<Rightarrow> bool" where
  by_worker: "worker_step (s, w) (s', w') \<Longrightarrow> sockets_step (s, w, a) (s', w', a)"
| by_acceptor: "accept_step (s, a) (s', a') \<Longrightarrow> sockets_step (s, w, a) (s', w, a')"

definition no_sockets :: sink_sockets where
  "no_sockets = \<lparr>sk_connected = False, sk_client_fd = None, sk_open = []\<rparr>"

section \<open>One thread\<close>

text \<open>What holds of the sockets where a single thread is.\<close>

fun alone_ok :: "sink_sockets \<times> sink_pc \<Rightarrow> bool" where
  "alone_ok (s, pc) \<longleftrightarrow>
     (case pc of
        AcChecked \<Rightarrow> \<not> sk_connected s \<and> sk_client_fd s = None \<and> sk_open s = []
      | AcAccepted fd \<Rightarrow> \<not> sk_connected s \<and> sk_client_fd s = None \<and> sk_open s = [fd]
      | AcStored \<Rightarrow> \<not> sk_connected s \<and> (\<exists>fd. sk_client_fd s = Some fd \<and> sk_open s = [fd])
      | DcClosed \<Rightarrow> sk_connected s \<and> sk_open s = []
      | DcStored \<Rightarrow> sk_connected s \<and> sk_client_fd s = None \<and> sk_open s = []
      | DcEncoder \<Rightarrow> \<not> sk_connected s \<and> sk_client_fd s = None \<and> sk_open s = []
      | WrSending fd \<Rightarrow> sk_connected s \<and> sk_client_fd s = Some fd \<and> sk_open s = [fd]
      | WrFailed fd \<Rightarrow> \<not> sk_connected s \<and> sk_client_fd s = Some fd \<and> sk_open s = [fd]
      | WrClosed \<Rightarrow> \<not> sk_connected s \<and> sk_open s = []
      | _ \<Rightarrow> sk_connected s = (sk_client_fd s \<noteq> None) \<and> sk_open s = (case sk_client_fd s of None \<Rightarrow> [] | Some fd \<Rightarrow> [fd]))"

lemma accept_step_alone: "accept_step t t' \<Longrightarrow> alone_ok t \<Longrightarrow> alone_ok t'"
  by (induction rule: accept_step.induct) (auto split: option.splits)

lemma write_step_alone: "write_step t t' \<Longrightarrow> alone_ok t \<Longrightarrow> alone_ok t'"
  by (induction rule: write_step.induct) (auto split: option.splits)

lemma worker_alone: "worker_step\<^sup>*\<^sup>* (no_sockets, Between) t \<Longrightarrow> alone_ok t"
proof (induction rule: rtranclp_induct)
  case base
  then show ?case by (simp add: no_sockets_def)
next
  case (step t t')
  then show ?case by (meson accept_step_alone write_step_alone worker_step.cases)
qed

section \<open>Two threads\<close>

lemma worker_accepts:
  "accept_step (s, w) (s', w') \<Longrightarrow> sockets_step\<^sup>*\<^sup>* (s', w', a) t \<Longrightarrow> sockets_step\<^sup>*\<^sup>* (s, w, a) t"
  by (meson by_worker worker_step.intros converse_rtranclp_into_rtranclp)

lemma worker_writes:
  "write_step (s, w) (s', w') \<Longrightarrow> sockets_step\<^sup>*\<^sup>* (s', w', a) t \<Longrightarrow> sockets_step\<^sup>*\<^sup>* (s, w, a) t"
  by (meson by_worker worker_step.intros converse_rtranclp_into_rtranclp)

lemma acceptor_accepts:
  "accept_step (s, a) (s', a') \<Longrightarrow> sockets_step\<^sup>*\<^sup>* (s', w, a') t \<Longrightarrow> sockets_step\<^sup>*\<^sup>* (s, w, a) t"
  by (meson by_acceptor converse_rtranclp_into_rtranclp)

lemma alone_accepts: "accept_step t t' \<Longrightarrow> worker_step\<^sup>*\<^sup>* t' u \<Longrightarrow> worker_step\<^sup>*\<^sup>* t u"
  by (meson worker_step.intros converse_rtranclp_into_rtranclp)

lemma two_clients:
  "\<exists>s. sockets_step\<^sup>*\<^sup>* (no_sockets, Between, Between) (s, AcEncoder, AcEncoder) \<and> sk_client_fd s = Some 6 \<and> sk_open s = [6, 5]"
  by (intro exI conjI, rule worker_accepts, rule ac_check, simp add: no_sockets_def,
      rule acceptor_accepts, rule ac_check, simp add: no_sockets_def,
      rule worker_accepts, rule ac_accept [of 5], simp add: no_sockets_def, rule worker_accepts, rule ac_store,
      rule acceptor_accepts, rule ac_accept [of 6], simp add: no_sockets_def, rule acceptor_accepts, rule ac_store,
      rule worker_accepts, rule ac_mark, rule acceptor_accepts, rule ac_mark, rule rtranclp.rtrancl_refl)
    (simp_all add: no_sockets_def)

lemma client_forgotten:
  "\<exists>s. sockets_step\<^sup>*\<^sup>* (no_sockets, Between, Between) (s, Between, Between)
     \<and> sk_connected s \<and> sk_client_fd s = None \<and> sk_open s = [6]"
  by (intro exI conjI, rule worker_accepts, rule ac_check, simp add: no_sockets_def,
      rule worker_accepts, rule ac_accept [of 5], simp add: no_sockets_def, rule worker_accepts, rule ac_store,
      rule worker_accepts, rule ac_mark, rule worker_accepts, rule ac_ready,
      rule worker_writes, rule wr_check, simp, rule worker_writes, rule wr_load, simp, rule worker_writes, rule wr_fail,
      rule acceptor_accepts, rule ac_check, simp, rule acceptor_accepts, rule ac_accept [of 6], simp add: no_sockets_def,
      rule acceptor_accepts, rule ac_store, rule acceptor_accepts, rule ac_mark, rule acceptor_accepts, rule ac_ready,
      rule worker_writes, rule wr_close, rule worker_writes, rule wr_store, rule rtranclp.rtrancl_refl)
    (simp_all add: no_sockets_def)

section \<open>Property\<close>

text \<open>
  C19. With one thread the client socket is in order: between calls a client is marked as connected exactly
  when its descriptor is stored, and no other descriptor is open. The two threads the sink has break this:
  both can accept a client and open the encoder at the same time, the first descriptor being lost; and a
  client accepted while the worker is giving up a broken one is forgotten, marked as connected, with its
  descriptor open and nowhere stored.
\<close>

theorem accept_race:
  assumes "worker_step\<^sup>*\<^sup>* (no_sockets, Between) (s, Between)"
  shows "sk_connected s = (sk_client_fd s \<noteq> None) \<and> sk_open s = (case sk_client_fd s of None \<Rightarrow> [] | Some fd \<Rightarrow> [fd])
    \<and> (\<exists>s. sockets_step\<^sup>*\<^sup>* (no_sockets, Between, Between) (s, AcEncoder, AcEncoder)
         \<and> sk_client_fd s = Some 6 \<and> sk_open s = [6, 5])
    \<and> (\<exists>s. sockets_step\<^sup>*\<^sup>* (no_sockets, Between, Between) (s, Between, Between)
         \<and> sk_connected s \<and> sk_client_fd s = None \<and> sk_open s = [6])"
  using worker_alone [OF assms] two_clients client_forgotten by simp

theorem accept_race_witness:
  "\<exists>s. worker_step\<^sup>*\<^sup>* (no_sockets, Between) (s, Between) \<and> sk_client_fd s = Some 5 \<and> sk_open s = [5]"
proof -
  let ?s = "no_sockets\<lparr>sk_open := [5], sk_client_fd := Some 5, sk_connected := True\<rparr>"
  have "worker_step\<^sup>*\<^sup>* (no_sockets, Between) (?s, Between)"
    by (rule alone_accepts, rule ac_check, simp add: no_sockets_def,
        rule alone_accepts, rule ac_accept [of 5], simp add: no_sockets_def, rule alone_accepts, rule ac_store,
        rule alone_accepts, rule ac_mark, rule alone_accepts, rule ac_ready) (simp add: no_sockets_def)
  with accept_race [OF this] show ?thesis by (intro exI [of _ ?s]) (simp add: no_sockets_def)
qed

end
