(* ===== verification/Machine_Time.thy ===== *)
theory Machine_Time
  imports MpegTSPlayoutSink PTSController
begin

text \<open>
  The time arithmetic of the playout sink and of the PTS controller as \<open>int64_t\<close> computes it. The other
  theories take time stamps as integers; here every sum, difference and product must fit in 64 bits, and
  \<open>None\<close> is an overflow, which has no defined result in C++. The theorems give the exact range in which the
  two agree.
\<close>

section \<open>Signed 64-bit arithmetic\<close>

definition fits :: "int \<Rightarrow> bool" where
  "fits x \<longleftrightarrow> - 9223372036854775808 \<le> x \<and> x \<le> 9223372036854775807"

definition i64 :: "int \<Rightarrow> int option" where
  "i64 x = (if fits x then Some x else None)"

lemma fits_signed: "fits x \<longleftrightarrow> sint (word_of_int x :: 64 word) = x"
proof -
  have "sint (word_of_int x :: 64 word) = signed_take_bit 63 x" by (simp add: sint_sbintrunc')
  then show ?thesis by (auto simp: fits_def signed_take_bit_int_eq_self_iff)
qed

lemma i64_Some [simp]: "fits x \<Longrightarrow> i64 x = Some x"
  by (simp add: i64_def)

section \<open>The sink\<close>

definition classify_i64 :: "time_us \<Rightarrow> time_us \<Rightarrow> frame_decision option" where
  "classify_i64 now_us target_time_us =
     Option.bind (i64 (now_us - target_time_us)) (\<lambda>gap_us.
       if gap_us < - kSoftWaitThresholdUs then map_option WaitUntil (i64 (target_time_us - kWaitFudgeUs))
       else if kMaxLateToleranceUs < gap_us then Some DropLate
       else Some (SendNow gap_us))"

definition decide_frame_i64 :: "time_us \<Rightarrow> int \<Rightarrow> playout_sink \<Rightarrow> (frame_decision \<times> playout_sink) option" where
  "decide_frame_i64 now_us pts_usec s =
     (if ms_sink_start_time_recorded s
      then Option.bind (i64 (ms_sink_start_time_utc_us s + pts_usec)) (\<lambda>target_time_us.
             map_option (\<lambda>d. (d, s)) (classify_i64 now_us target_time_us))
      else Option.bind (i64 (now_us - pts_usec)) (\<lambda>pts_age_us.
             if 0 < pts_age_us \<and> pts_age_us < kSameTimebaseThresholdUs \<and> kMaxLateToleranceUs < pts_age_us
             then Some (DropLate, s)
             else let s = s\<lparr>ms_sink_start_time_utc_us := pts_age_us, ms_sink_start_time_recorded := True\<rparr>
                  in Option.bind (i64 (ms_sink_start_time_utc_us s + pts_usec)) (\<lambda>target_time_us.
                       map_option (\<lambda>d. (d, s)) (classify_i64 now_us target_time_us))))"

definition pts90k_i64 :: "int \<Rightarrow> int option" where
  "pts90k_i64 pts_usec = map_option (\<lambda>p. p sdiv 1000000) (i64 (pts_usec * 90000))"

text \<open>The outer \<open>None\<close> is an overflow; the inner one, as in \<open>frame_step\<close>, a send that never returns.\<close>

definition frame_step_i64 :: "rescale \<Rightarrow> worker_env \<Rightarrow> send_result list \<Rightarrow> playout_sink \<Rightarrow> ring_buffer
    \<Rightarrow> (worker_outcome \<times> delivery list \<times> playout_sink \<times> ring_buffer) option option" where
  "frame_step_i64 rescale_q wv as s q =
     (case Peek q of
        None \<Rightarrow> Some (Some (Underrun, [], handleBufferUnderflow s, q))
      | Some next_frame \<Rightarrow>
          let pts_usec = md_pts (fr_metadata next_frame)
          in Option.bind (decide_frame_i64 (wv_now_us wv) pts_usec s) (\<lambda>(decision, s).
             case decision of
               WaitUntil t \<Rightarrow> Some (Some (Early t, [], s, q))
             | DropLate \<Rightarrow>
                 (case Pop q of
                    (None, q) \<Rightarrow> Some (Some (NoFrame, [], s, q))
                  | (Some f, q) \<Rightarrow> Some (Some (Dropped f, [], count_late_drop s, q)))
             | SendNow gap_us \<Rightarrow>
                 (case Pop q of
                    (None, q) \<Rightarrow> Some (Some (NoFrame, [], s, q))
                  | (Some f, q) \<Rightarrow>
                      let s = (if 0 < gap_us then count (\<lambda>st. st\<lparr>st_late_frames := st_late_frames st + 1\<rparr>) s else s)
                      in map_option (\<lambda>pts90k.
                           case processFrame rescale_q (wv_encode wv) f pts90k as s of
                             None \<Rightarrow> None
                           | Some (ds, s) \<Rightarrow> Some (Emitted f gap_us, ds,
                               count (\<lambda>st. st\<lparr>st_frames_sent := st_frames_sent st + 1\<rparr>) s, q))
                         (pts90k_i64 pts_usec))))"

section \<open>The controller\<close>

definition ptsForFrameWallclock_i64 :: "time_us \<Rightarrow> pts_controller \<Rightarrow> (int \<times> pts_controller) option" where
  "ptsForFrameWallclock_i64 frame_wallclock_us c =
     (if \<not> pc_initialized c then Some (0, c)
      else Option.bind (i64 (frame_wallclock_us - pc_first_frame_wallclock_us c)) (\<lambda>delta_us.
           Option.bind (i64 (delta_us * 90)) (\<lambda>scaled.
           Option.bind (i64 (pc_pts_base_90k c + scaled sdiv 1000)) (\<lambda>pts_90k.
           Option.bind (if pts_90k \<le> pc_last_pts_90k c then i64 (pc_last_pts_90k c + 1) else Some pts_90k) (\<lambda>pts_90k.
           Some (pts_90k, c\<lparr>pc_last_pts_90k := pts_90k\<rparr>))))))"

section \<open>Where the two agree\<close>

text \<open>
  The ranges: clock readings up to \<open>2 ^ 61\<close> microseconds, more than seventy thousand years, and stamps of
  at most half that, early or late. A start time is the difference of the two.
\<close>

definition clock_in_range :: "time_us \<Rightarrow> bool" where
  "clock_in_range now_us \<longleftrightarrow> 0 \<le> now_us \<and> now_us \<le> 2 ^ 61"

definition stamp_in_range :: "int \<Rightarrow> bool" where
  "stamp_in_range pts_usec \<longleftrightarrow> \<bar>pts_usec\<bar> \<le> 2 ^ 60"

definition start_in_range :: "playout_sink \<Rightarrow> bool" where
  "start_in_range s \<longleftrightarrow> (ms_sink_start_time_recorded s \<longrightarrow> \<bar>ms_sink_start_time_utc_us s\<bar> \<le> 2 ^ 61 + 2 ^ 60)"

lemmas range_defs = start_in_range_def clock_in_range_def stamp_in_range_def fits_def

text \<open>The largest stamp whose product with 90000 fits, about three years and three months in microseconds.\<close>

definition max_pts_usec :: int where "max_pts_usec = 102481911520608"

lemma pts90k_range:
  "pts90k_i64 pts_usec = (if \<bar>pts_usec\<bar> \<le> max_pts_usec then Some ((pts_usec * 90000) sdiv 1000000) else None)"
  by (auto simp: pts90k_i64_def i64_def fits_def max_pts_usec_def)

lemma classify_range:
  assumes "clock_in_range now_us" "\<bar>target\<bar> \<le> 2 ^ 62"
  shows "classify_i64 now_us target = Some (classify now_us target)"
proof -
  have "fits (now_us - target)" "fits (target - kWaitFudgeUs)" using assms by (auto simp: range_defs kWaitFudgeUs_def)
  then show ?thesis by (simp add: classify_i64_def classify_def Let_def)
qed

lemma decide_frame_range:
  assumes "clock_in_range now_us" "stamp_in_range pts_usec" "start_in_range s"
  shows "decide_frame_i64 now_us pts_usec s = Some (decide_frame now_us pts_usec s)
    \<and> start_in_range (snd (decide_frame now_us pts_usec s))"
proof (cases "ms_sink_start_time_recorded s")
  case True
  then have "\<bar>ms_sink_start_time_utc_us s + pts_usec\<bar> \<le> 2 ^ 62" using assms by (auto simp: range_defs)
  moreover from this have "fits (ms_sink_start_time_utc_us s + pts_usec)" by (auto simp: range_defs)
  ultimately show ?thesis
    using True classify_range [OF assms(1)] assms(3) by (simp add: decide_frame_i64_def decide_frame_def)
next
  case False
  have "fits (now_us - pts_usec)" "fits now_us" "\<bar>now_us\<bar> \<le> 2 ^ 62" "\<bar>now_us - pts_usec\<bar> \<le> 2 ^ 61 + 2 ^ 60"
    using assms(1,2) by (auto simp: range_defs)
  then show ?thesis
    using False classify_range [OF assms(1), of now_us] assms(3)
    by (simp add: decide_frame_i64_def decide_frame_def Let_def start_in_range_def)
qed

definition sends :: "frame_decision \<Rightarrow> bool" where
  "sends d \<longleftrightarrow> (case d of SendNow _ \<Rightarrow> True | _ \<Rightarrow> False)"

text \<open>The controller.\<close>

lemma controller_range:
  assumes "\<bar>w\<bar> \<le> 2 ^ 55" "\<bar>pc_first_frame_wallclock_us c\<bar> \<le> 2 ^ 55"
    "\<bar>pc_pts_base_90k c\<bar> \<le> 2 ^ 60" "\<bar>pc_last_pts_90k c\<bar> \<le> 2 ^ 61"
  shows "ptsForFrameWallclock_i64 w c = Some (ptsForFrameWallclock w c)"
proof -
  let ?d = "w - pc_first_frame_wallclock_us c"
  have d: "\<bar>?d\<bar> \<le> 2 ^ 56" using assms(1,2) by auto
  then have "fits ?d" "fits (?d * 90)" by (auto simp: fits_def)
  moreover have "\<bar>(?d * 90) sdiv 1000\<bar> \<le> 2 ^ 60"
    using d by (auto simp: signed_divide_int_def sgn_if abs_if split: if_splits)
  then have "fits (pc_pts_base_90k c + (?d * 90) sdiv 1000)" "fits (pc_last_pts_90k c + 1)"
    using assms(3,4) by (auto simp: fits_def)
  ultimately show ?thesis by (simp add: ptsForFrameWallclock_i64_def ptsForFrameWallclock_def Let_def)
qed

section \<open>Property\<close>

text \<open>C23. With a clock and stamps in any realistic range every sum and difference a pass computes fits in 64
  bits, and the pass does what it does with unbounded integers, except for the one product: a frame that
  is to be sent and whose stamp is more than 102481911520608 microseconds from zero overflows when it is
  converted to 90 kHz. That is three years and three months: stamps counted from the start of a file stay
  below it, stamps in the time base of the clock, which the pass allows for, passed it in 1973.\<close>

theorem sink_time_arithmetic:
  assumes "rb_wf q" "rb_frames q = f # rest" "clock_in_range (wv_now_us wv)" "stamp_in_range (md_pts (fr_metadata f))"
    "start_in_range s"
  shows "frame_step_i64 rescale_q wv as s q =
      (if sends (fst (decide_frame (wv_now_us wv) (md_pts (fr_metadata f)) s)) \<and> max_pts_usec < \<bar>md_pts (fr_metadata f)\<bar>
       then None else Some (frame_step rescale_q wv as s q))
    \<and> (\<forall>r ds s' q'. frame_step rescale_q wv as s q = Some (r, ds, s', q') \<longrightarrow> start_in_range s')"
proof -
  let ?pts = "md_pts (fr_metadata f)"
  obtain d u where d: "decide_frame (wv_now_us wv) ?pts s = (d, u)" by fastforce
  note range = decide_frame_range [OF assms(3-5), unfolded d]
  have peek: "Peek q = Some f" using Peek_eq [OF assms(1)] assms(2) by simp
  obtain q1 where pop: "Pop q = (Some f, q1)" using Pop_Cons [OF assms(1,2)] by metis
  have same: "start_in_range (count g v) = start_in_range v" for g v by (simp add: count_def start_in_range_def)
  have process: "start_in_range w" if w: "processFrame rescale_q en f p as v = Some (ds, w)" "start_in_range v" for en p v ds w
  proof -
    obtain x n where x: "keeps_loop v x" "w = count (\<lambda>st. st\<lparr>st_encoding_errors := st_encoding_errors st + n\<rparr>) x"
      using processFrame_keeps [OF w(1)] by blast
    from keeps_loop_fields(3,4) [OF x(1)] w(2) show ?thesis unfolding x(2) same by (simp add: start_in_range_def)
  qed
  show ?thesis
  proof (cases d)
    case (SendNow gap)
    define v where "v = (if 0 < gap then count (\<lambda>st. st\<lparr>st_late_frames := st_late_frames st + 1\<rparr>) u else u)"
    have v: "start_in_range v" using range by (simp add: v_def same)
    have i64: "frame_step_i64 rescale_q wv as s q = map_option (\<lambda>pts90k.
        case processFrame rescale_q (wv_encode wv) f pts90k as v of None \<Rightarrow> None
        | Some (ds, s) \<Rightarrow> Some (Emitted f gap, ds, count (\<lambda>st. st\<lparr>st_frames_sent := st_frames_sent st + 1\<rparr>) s, q1))
        (pts90k_i64 ?pts)"
      using range peek pop SendNow by (simp add: frame_step_i64_def v_def)
    have plain: "frame_step rescale_q wv as s q = (case processFrame rescale_q (wv_encode wv) f ((?pts * 90000) sdiv 1000000) as v of
        None \<Rightarrow> None
        | Some (ds, s) \<Rightarrow> Some (Emitted f gap, ds, count (\<lambda>st. st\<lparr>st_frames_sent := st_frames_sent st + 1\<rparr>) s, q1))"
      using peek pop d SendNow by (simp add: frame_step_def v_def Let_def)
    show ?thesis
      unfolding i64 plain d SendNow pts90k_range
      using process [OF _ v] by (auto simp: sends_def same split: option.splits)
  next
    case (WaitUntil t)
    with range peek pop d show ?thesis by (simp add: frame_step_i64_def frame_step_def sends_def)
  next
    case DropLate
    with range peek pop d show ?thesis
      by (simp add: frame_step_i64_def frame_step_def sends_def count_late_drop_def same)
  qed
qed

theorem sink_time_arithmetic_witness:
  "\<exists>q q'. Push (FrameRingBuffer 2) (frame_at 1700000000000000) = (True, q)
     \<and> frame_step_i64 same_time (quiet_pass 1700000000000000) [] started_sink q = None
     \<and> Push (FrameRingBuffer 2) (frame_at 40000) = (True, q')
     \<and> frame_step_i64 same_time (quiet_pass 1700000000000000) [] started_sink q'
       = Some (frame_step same_time (quiet_pass 1700000000000000) [] started_sink q')"
proof -
  have wf: "rb_wf (FrameRingBuffer 2)" "rb_frames (FrameRingBuffer 2) = []" "rb_room (FrameRingBuffer 2) = 2"
    using FrameRingBuffer_wf [of 2] by simp_all
  have room: "length (rb_frames (FrameRingBuffer 2)) < rb_room (FrameRingBuffer 2)" by (simp add: wf)
  have one: "\<exists>q. Push (FrameRingBuffer 2) x = (True, q) \<and> rb_wf q \<and> rb_frames q = [x]" for x
    using Push_room [OF wf(1) room, of x] wf(2) by (metis append_Nil)
  obtain q where q: "Push (FrameRingBuffer 2) (frame_at 1700000000000000) = (True, q)" "rb_wf q"
    "rb_frames q = [frame_at 1700000000000000]" using one by blast
  obtain q' where q': "Push (FrameRingBuffer 2) (frame_at 40000) = (True, q')" "rb_wf q'"
    "rb_frames q' = [frame_at 40000]" using one by blast
  have pts: "md_pts (fr_metadata (frame_at t)) = t" "wv_now_us (quiet_pass t) = t" for t
    by (simp_all add: frame_at_def quiet_pass_def)
  have s: "start_in_range started_sink" by (simp add: start_in_range_def started_sink_fields)
  have d: "fst (decide_frame 1700000000000000 t started_sink) = SendNow 0" if "t = 1700000000000000 \<or> t = 40000" for t
    using that by (auto simp: decide_frame_def started_sink_fields timing_defs)
  show ?thesis
    using sink_time_arithmetic [OF q(2,3) _ _ s, of "quiet_pass 1700000000000000" same_time "[]"]
      sink_time_arithmetic [OF q'(2,3) _ _ s, of "quiet_pass 1700000000000000" same_time "[]"] q(1) q'(1)
    by (simp add: pts d sends_def max_pts_usec_def clock_in_range_def stamp_in_range_def)
qed

end
