(* ===== verification/Legacy_Session.thy ===== *)
theory Legacy_Session
  imports LegacySink
begin

text \<open>
  The first sink (\<open>src/sinks/mpegts/MpegTSPlayoutSink.cpp\<close>) under its threads: the thread that starts and stops it,
  the accept thread call by call, the worker one pass at a time, and a producer that pushes frames. The
  accept thread has its own \<open>errno\<close>. What the sockets and the encoder answer is an input of each step.
\<close>

section \<open>Start and stop in steps\<close>

text \<open>\<open>start\<close> up to the wait for a client, and from there on.\<close>

definition Ls_start_begin :: "legacy_env \<Rightarrow> legacy_sink \<Rightarrow> bool \<times> legacy_sink" where
  "Ls_start_begin li s =
     (let (ok, s) = Ls_InitializeSocket li s
      in if \<not> ok then (False, s)
      else let s = s\<lparr>ls_stop_requested := False\<rparr>
      in (True, if \<not> sg_stub_mode (ls_config s) then s\<lparr>ls_accept_thread := True\<rparr> else s\<lparr>ls_client_connected := True\<rparr>))"

definition Ls_start_finish :: "legacy_env \<Rightarrow> legacy_sink \<Rightarrow> bool \<times> legacy_sink" where
  "Ls_start_finish li s =
     (let (ok, s) = Ls_InitializeEncoder li s
      in if \<not> ok then (False, s)
      else let (ok, s) = Ls_InitializeMuxer li s
      in if \<not> ok then (False, s)
      else (True, s\<lparr>ls_is_running := True, ls_worker_thread := True\<rparr>))"

lemma Ls_start_in_steps:
  "Ls_start li s =
     (if ls_is_running s then Some (False, s)
      else let (ok, s) = Ls_start_begin li s
      in if \<not> ok then Some (False, s)
      else if \<not> sg_stub_mode (ls_config s) \<and> li_client li = None then None
      else let s = (if sg_stub_mode (ls_config s) then s
                    else s\<lparr>ls_client_fd := li_client li, ls_client_connected := True\<rparr>);
               (ok, s) = Ls_start_finish li s
           in if ok then Some (True, s) else None)"
  by (auto simp: Ls_start_def Ls_start_begin_def Ls_start_finish_def Ls_connect_def Ls_InitializeSocket_def Let_def
      split: prod.split option.split)

text \<open>\<open>stop\<close> after the worker was joined, and after the accept thread was.\<close>

definition Ls_stop_cleanup :: "legacy_sink \<Rightarrow> legacy_sink" where
  "Ls_stop_cleanup s = Ls_CleanupSocket (Ls_CleanupEncoder (Ls_CleanupMuxer (s\<lparr>ls_worker_thread := False\<rparr>)))"

definition Ls_stop_end :: "legacy_sink \<Rightarrow> legacy_sink" where
  "Ls_stop_end s = s\<lparr>ls_accept_thread := False, ls_is_running := False, ls_client_connected := False\<rparr>"

lemma Ls_stop_in_steps:
  "ls_is_running s \<or> ls_client_connected s \<Longrightarrow> Ls_stop_finish s = Ls_stop_end (Ls_stop_cleanup s)"
  by (auto simp: Ls_stop_finish_def Ls_stop_end_def Ls_stop_cleanup_def Let_def)

section \<open>The threads\<close>

datatype legacy_errno = Errno_none | Errno_again | Errno_other

datatype accept_pc = AcceptNone | Accepting | Serving | Leaving | AcceptExited

text \<open>The control thread: between calls, waiting in \<open>start\<close> for a client, in \<open>stop\<close> before either join, or
  waiting for the lock it holds.\<close>

datatype control_pc = Idle | Starting | JoiningWorker | JoiningAccept | Deadlocked

record legacy_run =
  lg_sink :: legacy_sink
  lg_q :: ring_buffer
  lg_control :: control_pc
  lg_accept :: accept_pc
  lg_errno :: legacy_errno
  lg_working :: bool
  lg_wire :: bytes
  lg_pushed :: "frame list"
  lg_taken :: "frame list"

datatype accept_answer = AcceptedClient nat | AcceptAgain | AcceptError

datatype recv_answer = RecvByte | RecvClosed | RecvAgain | RecvError

text \<open>The head of the accept loop and \<open>accept\<close>.\<close>

definition Ls_AcceptThread_accept :: "accept_answer \<Rightarrow> legacy_run \<Rightarrow> legacy_run" where
  "Ls_AcceptThread_accept answer v =
     (let s = lg_sink v in
      if ls_stop_requested s \<or> \<not> ls_listening s then v\<lparr>lg_accept := AcceptExited\<rparr>
      else case answer of
        AcceptedClient fd \<Rightarrow> v\<lparr>lg_sink := s\<lparr>ls_client_fd := Some fd, ls_client_connected := True\<rparr>, lg_accept := Serving\<rparr>
      | AcceptAgain \<Rightarrow> v\<lparr>lg_sink := s\<lparr>ls_client_fd := None\<rparr>, lg_errno := Errno_again\<rparr>
      | AcceptError \<Rightarrow> v\<lparr>lg_sink := s\<lparr>ls_client_fd := None\<rparr>, lg_errno := Errno_other, lg_accept := AcceptExited\<rparr>)"

text \<open>The loop that watches the client. A \<open>recv\<close> that returns 0 sets no \<open>errno\<close>, and the loop looks at
  whatever the last failing call left there.\<close>

definition Ls_AcceptThread_watch :: "recv_answer \<Rightarrow> legacy_run \<Rightarrow> legacy_run" where
  "Ls_AcceptThread_watch answer v =
     (let s = lg_sink v in
      if \<not> ls_client_connected s \<or> ls_stop_requested s then v\<lparr>lg_accept := Leaving\<rparr>
      else case answer of
        RecvByte \<Rightarrow> v
      | RecvClosed \<Rightarrow> if lg_errno v \<noteq> Errno_again then v\<lparr>lg_accept := Leaving\<rparr> else v
      | RecvAgain \<Rightarrow> v\<lparr>lg_errno := Errno_again\<rparr>
      | RecvError \<Rightarrow> v\<lparr>lg_errno := Errno_other, lg_accept := Leaving\<rparr>)"

definition Ls_AcceptThread_leave :: "legacy_run \<Rightarrow> legacy_run" where
  "Ls_AcceptThread_leave v = v\<lparr>lg_sink := Ls_client_gone (lg_sink v), lg_accept := Accepting\<rparr>"

text \<open>One turn of the worker.\<close>

definition took :: "legacy_outcome \<Rightarrow> frame list" where
  "took outcome = (case outcome of Took late popped \<Rightarrow> late @ (case popped of None \<Rightarrow> [] | Some f \<Rightarrow> [f]) | _ \<Rightarrow> [])"

definition Ls_worker_turn :: "time_us \<Rightarrow> send_result \<Rightarrow> legacy_run \<Rightarrow> legacy_run" where
  "Ls_worker_turn now_us answer v =
     (if ls_stop_requested (lg_sink v) then v\<lparr>lg_working := False\<rparr>
      else let (outcome, out, s, q) = Ls_WorkerLoop_pass now_us answer (lg_sink v) (lg_q v)
           in v\<lparr>lg_sink := s, lg_q := q, lg_wire := lg_wire v @ out, lg_taken := lg_taken v @ took outcome\<rparr>)"

inductive legacy_step :: "legacy_run \<Rightarrow> legacy_run \<Rightarrow> bool" where
  start: "lg_control v = Idle \<Longrightarrow> \<not> ls_is_running (lg_sink v) \<Longrightarrow> Ls_start_begin li (lg_sink v) = (ok, s)
    \<Longrightarrow> legacy_step v (v\<lparr>lg_sink := s, lg_control := if ok then Starting else Idle,
           lg_accept := if ok \<and> \<not> sg_stub_mode (ls_config s) then Accepting else lg_accept v, lg_errno := Errno_none\<rparr>)"
| timeout: "lg_control v = Starting \<Longrightarrow> \<not> ls_client_connected (lg_sink v)
    \<Longrightarrow> legacy_step v (v\<lparr>lg_control := Deadlocked\<rparr>)"
| started: "lg_control v = Starting \<Longrightarrow> ls_client_connected (lg_sink v) \<Longrightarrow> Ls_start_finish li (lg_sink v) = (ok, s)
    \<Longrightarrow> legacy_step v (v\<lparr>lg_sink := s, lg_control := if ok then Idle else Deadlocked, lg_working := ok\<rparr>)"
| stop: "lg_control v = Idle \<Longrightarrow> ls_is_running (lg_sink v) \<or> ls_client_connected (lg_sink v)
    \<Longrightarrow> legacy_step v (v\<lparr>lg_sink := Ls_stop_request (lg_sink v), lg_control := JoiningWorker\<rparr>)"
| worker_joined: "lg_control v = JoiningWorker \<Longrightarrow> \<not> lg_working v
    \<Longrightarrow> legacy_step v (v\<lparr>lg_sink := Ls_stop_cleanup (lg_sink v), lg_control := JoiningAccept\<rparr>)"
| accept_joined: "lg_control v = JoiningAccept \<Longrightarrow> lg_accept v = AcceptNone \<or> lg_accept v = AcceptExited
    \<Longrightarrow> legacy_step v (v\<lparr>lg_sink := Ls_stop_end (lg_sink v), lg_control := Idle, lg_accept := AcceptNone\<rparr>)"
| accept: "lg_accept v = Accepting \<Longrightarrow> legacy_step v (Ls_AcceptThread_accept a v)"
| watch: "lg_accept v = Serving \<Longrightarrow> legacy_step v (Ls_AcceptThread_watch r v)"
| leave: "lg_accept v = Leaving \<Longrightarrow> legacy_step v (Ls_AcceptThread_leave v)"
| worker: "lg_working v \<Longrightarrow> legacy_step v (Ls_worker_turn now_us answer v)"
| push: "Push (lg_q v) f = (ok, q) \<Longrightarrow> legacy_step v (v\<lparr>lg_q := q, lg_pushed := lg_pushed v @ (if ok then [f] else [])\<rparr>)"

definition legacy_begin :: "legacy_config \<Rightarrow> usize \<Rightarrow> legacy_run" where
  "legacy_begin config capacity =
     \<lparr>lg_sink = LegacySink config, lg_q = FrameRingBuffer capacity, lg_control = Idle, lg_accept = AcceptNone,
      lg_errno = Errno_none, lg_working = False, lg_wire = [], lg_pushed = [], lg_taken = []\<rparr>"

section \<open>The books of a session\<close>

lemma Ls_ProcessFrame_effect:
  "ls_config (Ls_ProcessFrame s) = ls_config s"
  "ls_last_encoded_frame (Ls_ProcessFrame s) = ls_last_encoded_frame s"
  "ls_late_frames (Ls_ProcessFrame s) = ls_late_frames s"
  "ls_frames_dropped (Ls_ProcessFrame s) = ls_frames_dropped s"
  "ls_network_errors (Ls_ProcessFrame s) = ls_network_errors s"
  "ls_frames_sent (Ls_ProcessFrame s) + ls_encoding_errors (Ls_ProcessFrame s)
     = ls_frames_sent s + ls_encoding_errors s + 1"
  "sg_stub_mode (ls_config s) \<Longrightarrow> ls_encoding_errors (Ls_ProcessFrame s) = ls_encoding_errors s"
  by (simp_all add: Ls_ProcessFrame_def)

lemma Ls_underflow_effect:
  "ls_last_encoded_frame s = [] \<Longrightarrow>
     Ls_HandleBufferUnderflow answer s = ([], s\<lparr>ls_buffer_empty_count := ls_buffer_empty_count s + 1\<rparr>)"
  by (simp add: Ls_HandleBufferUnderflow_def Let_def split: underflow_policy.split)

text \<open>What has been counted, and what stands in the way of sending anything.\<close>

definition legacy_books :: "legacy_sink \<Rightarrow> nat \<Rightarrow> bool" where
  "legacy_books s n \<longleftrightarrow> ls_last_encoded_frame s = [] \<and> ls_network_errors s = 0
     \<and> ls_late_frames s = ls_frames_dropped s
     \<and> ls_frames_sent s + ls_frames_dropped s + ls_encoding_errors s = n
     \<and> (sg_stub_mode (ls_config s) \<longrightarrow> ls_encoding_errors s = 0)"

lemma Ls_ProcessFrame_books: "legacy_books s n \<Longrightarrow> legacy_books (Ls_ProcessFrame s) (Suc n)"
  using Ls_ProcessFrame_effect [of s] by (simp add: legacy_books_def)

lemma pass_keeps_books:
  assumes "rb_wf q" "legacy_books s n" "Ls_WorkerLoop_pass now answer s q = (outcome, out, s', q')"
  shows "out = [] \<and> rb_wf q' \<and> rb_frames q = took outcome @ rb_frames q' \<and> ls_config s' = ls_config s
    \<and> legacy_books s' (n + length (took outcome))"
proof (cases "ls_client_connected s \<and> (\<exists>f. Peek q = Some f \<and> md_pts (fr_metadata f) \<le> now)")
  case False
  have "ls_last_encoded_frame s = []" using assms(2) by (simp add: legacy_books_def)
  with False assms show ?thesis
    by (auto simp: Ls_WorkerLoop_pass_def Ls_underflow_effect took_def legacy_books_def Let_def
        split: if_splits option.splits)
next
  case True
  then obtain f where f: "ls_client_connected s" "Peek q = Some f" "md_pts (fr_metadata f) \<le> now" by blast
  let ?late = "takeWhile (is_late now) (rb_frames q)"
  define u where "u = s\<lparr>ls_late_frames := ls_late_frames s + length ?late,
      ls_frames_dropped := ls_frames_dropped s + length ?late\<rparr>"
  obtain q1 where q1: "Ls_HandleBufferOverflow now s q = (?late, u, q1)"
    "rb_frames q1 = dropWhile (is_late now) (rb_frames q)" "rb_wf q1"
    using overflow_result [OF assms(1), of now s] unfolding u_def by blast
  have u: "legacy_books u (n + length ?late)" "ls_config u = ls_config s"
    using assms(2) by (auto simp: legacy_books_def u_def)
  obtain popped q2 where p: "Pop q1 = (popped, q2)" by (cases "Pop q1")
  with f q1(1) assms(3) have res: "outcome = Took ?late popped" "out = []" "q' = q2"
    "s' = (case popped of None \<Rightarrow> u | Some _ \<Rightarrow> Ls_ProcessFrame u)"
    by (simp_all add: Ls_WorkerLoop_pass_def Let_def)
  have pop: "rb_frames q1 = (case popped of None \<Rightarrow> [] | Some g \<Rightarrow> [g]) @ rb_frames q2 \<and> rb_wf q2"
  proof (cases "rb_frames q1")
    case Nil
    with Pop_empty [OF q1(3)] p q1(3) show ?thesis by simp
  next
    case (Cons g gs)
    obtain q3 where "Pop q1 = (Some g, q3)" "rb_frames q3 = gs" "rb_wf q3" using Pop_Cons [OF q1(3) Cons] by metis
    with p Cons show ?thesis by auto
  qed
  have "legacy_books s' (n + length (took outcome))"
    using u(1) Ls_ProcessFrame_books [OF u(1)] by (cases popped) (simp_all add: res(1,4) took_def)
  moreover have "rb_frames q = took outcome @ rb_frames q'"
  proof -
    have "rb_frames q = ?late @ rb_frames q1" by (simp add: q1(2))
    with pop show ?thesis by (simp add: res took_def)
  qed
  moreover have "ls_config s' = ls_config s"
    by (cases popped) (simp_all add: res(4) u(2) Ls_ProcessFrame_effect(1))
  moreover have "out = []" "rb_wf q'" using pop res(2,3) by simp_all
  ultimately show ?thesis by blast
qed

definition legacy_inv :: "legacy_config \<Rightarrow> legacy_run \<Rightarrow> bool" where
  "legacy_inv config v \<longleftrightarrow> ls_config (lg_sink v) = config \<and> lg_wire v = [] \<and> rb_wf (lg_q v)
     \<and> lg_pushed v = lg_taken v @ rb_frames (lg_q v) \<and> legacy_books (lg_sink v) (length (lg_taken v))"

text \<open>Steps that touch neither the counters nor the frames.\<close>

definition same_books :: "legacy_sink \<Rightarrow> legacy_sink \<Rightarrow> bool" where
  "same_books s s' \<longleftrightarrow> ls_config s' = ls_config s \<and> ls_last_encoded_frame s' = ls_last_encoded_frame s
     \<and> ls_network_errors s' = ls_network_errors s \<and> ls_late_frames s' = ls_late_frames s
     \<and> ls_frames_dropped s' = ls_frames_dropped s \<and> ls_frames_sent s' = ls_frames_sent s
     \<and> ls_encoding_errors s' = ls_encoding_errors s"

lemma same_books_refl [simp]: "same_books s s" by (simp add: same_books_def)

lemma same_books_inv:
  "legacy_inv config v \<Longrightarrow> same_books (lg_sink v) (lg_sink v') \<Longrightarrow> lg_wire v' = lg_wire v \<Longrightarrow> lg_q v' = lg_q v
   \<Longrightarrow> lg_pushed v' = lg_pushed v \<Longrightarrow> lg_taken v' = lg_taken v \<Longrightarrow> legacy_inv config v'"
  by (simp add: legacy_inv_def same_books_def legacy_books_def)

lemma calls_same_books:
  "Ls_start_begin li s = (ok, s') \<Longrightarrow> same_books s s'"
  "Ls_start_finish li s = (ok, s') \<Longrightarrow> same_books s s'"
  "same_books s (Ls_stop_request s)" "same_books s (Ls_stop_cleanup s)" "same_books s (Ls_stop_end s)"
  "same_books s (Ls_client_gone s)"
  by (auto simp: same_books_def Ls_start_begin_def Ls_start_finish_def Ls_InitializeSocket_def Ls_InitializeEncoder_def
      Ls_InitializeMuxer_def Ls_stop_request_def Ls_stop_cleanup_def Ls_stop_end_def Ls_client_gone_def
      Ls_CleanupMuxer_def Ls_CleanupEncoder_def Ls_CleanupSocket_def Let_def split: if_splits)

lemma legacy_inv_step:
  assumes "legacy_step v v'" "legacy_inv config v"
  shows "legacy_inv config v'"
  using assms(1)
proof cases
  case (worker now_us answer)
  obtain outcome out s q where p: "Ls_WorkerLoop_pass now_us answer (lg_sink v) (lg_q v) = (outcome, out, s, q)"
    by (rule prod_cases4)
  from assms(2) have "rb_wf (lg_q v)" "legacy_books (lg_sink v) (length (lg_taken v))" by (simp_all add: legacy_inv_def)
  from pass_keeps_books [OF this p] worker assms(2) p show ?thesis by (simp add: legacy_inv_def Ls_worker_turn_def)
next
  case (push f ok q)
  from assms(2) have wf: "rb_wf (lg_q v)" by (simp add: legacy_inv_def)
  have "rb_wf q \<and> rb_frames q = rb_frames (lg_q v) @ (if ok then [f] else [])"
    using Push_full [OF wf, of f] Push_room [OF wf, of f] rb_frames_bounded [OF wf] push(2) wf
    by (cases "length (rb_frames (lg_q v)) = rb_room (lg_q v)") auto
  with push(1) assms(2) show ?thesis by (simp add: legacy_inv_def)
qed (auto intro!: same_books_inv [OF assms(2)] simp: calls_same_books Ls_AcceptThread_accept_def
    Ls_AcceptThread_watch_def Ls_AcceptThread_leave_def Let_def split: accept_answer.split recv_answer.split,
    simp_all add: same_books_def)

lemma legacy_inv_begin: "unat capacity < 2 ^ 32 \<Longrightarrow> legacy_inv config (legacy_begin config capacity)"
  using FrameRingBuffer_wf [of capacity]
  by (simp add: legacy_inv_def legacy_begin_def LegacySink_def legacy_books_def)

section \<open>Threads that wait for ever\<close>

lemma deadlock_stays: "legacy_step v v' \<Longrightarrow> lg_control v = Deadlocked \<Longrightarrow> lg_control v' = Deadlocked"
  by (cases rule: legacy_step.cases)
    (auto simp: Ls_AcceptThread_accept_def Ls_AcceptThread_watch_def Ls_AcceptThread_leave_def Ls_worker_turn_def Let_def
      split: accept_answer.split recv_answer.split prod.split)

text \<open>After a round of the accept loop without a client, \<open>errno\<close> is \<open>EAGAIN\<close>, and a client that closes its
  connection in order goes unnoticed: the loop sees the same state again.\<close>

lemma orderly_close_unnoticed:
  assumes "ls_client_connected (lg_sink v)" "\<not> ls_stop_requested (lg_sink v)"
  shows "Ls_AcceptThread_watch RecvClosed v = (if lg_errno v = Errno_again then v else v\<lparr>lg_accept := Leaving\<rparr>)"
  using assms by (simp add: Ls_AcceptThread_watch_def)

text \<open>C40. In every session of the first sink, however its threads interleave and whatever the sockets and the encoder
  answer: not a byte has been sent; the frames pushed are those taken out of the ring and those in it, in order;
  every frame taken was counted once, as sent, as dropped or as an encoding error, the dropped ones
  also as late; in stub mode there is no encoding error.\<close>

theorem legacy_session:
  assumes "unat capacity < 2 ^ 32" "legacy_step\<^sup>*\<^sup>* (legacy_begin config capacity) v"
  shows "lg_wire v = [] \<and> lg_pushed v = lg_taken v @ rb_frames (lg_q v)
    \<and> ls_frames_sent (lg_sink v) + ls_frames_dropped (lg_sink v) + ls_encoding_errors (lg_sink v) = length (lg_taken v)
    \<and> ls_late_frames (lg_sink v) = ls_frames_dropped (lg_sink v) \<and> ls_network_errors (lg_sink v) = 0
    \<and> ls_encoding_errors (lg_sink v) \<le> (if sg_stub_mode config then 0 else length (lg_taken v))"
proof -
  from assms(2) have "legacy_inv config v"
    by (induction rule: rtranclp_induct) (auto intro: legacy_inv_begin [OF assms(1)] legacy_inv_step)
  then show ?thesis by (auto simp: legacy_inv_def legacy_books_def)
qed

definition legacy_answers :: legacy_env where
  "legacy_answers = \<lparr>li_socket = True, li_bind = True, li_listen = True, li_client = Some 7, li_find_encoder = True,
     li_alloc_codec = True, li_open_codec = True, li_alloc_output_context = True, li_new_stream = True\<rparr>"

text \<open>A client comes at the second round of the accept loop, and the worker is started.\<close>

definition legacy_client_on :: legacy_run where
  "legacy_client_on = (legacy_begin SinkConfig 4)\<lparr>lg_sink := (LegacySink SinkConfig)\<lparr>ls_listening := True,
       ls_accept_thread := True, ls_client_fd := Some 7, ls_client_connected := True, ls_encoder_state := Some True,
       ls_muxer_state := Some True, ls_is_running := True, ls_worker_thread := True\<rparr>,
     lg_accept := Serving, lg_errno := Errno_again, lg_working := True\<rparr>"

lemma legacy_client_on_reached: "legacy_step\<^sup>*\<^sup>* (legacy_begin SinkConfig 4) legacy_client_on"
proof -
  define v0 where "v0 = legacy_begin SinkConfig 4"
  define s1 where "s1 = (LegacySink SinkConfig)\<lparr>ls_listening := True, ls_accept_thread := True\<rparr>"
  note start_defs = v0_def legacy_begin_def LegacySink_def SinkConfig_def legacy_answers_def
  have s1: "Ls_start_begin legacy_answers (lg_sink v0) = (True, s1)"
    by (simp add: start_defs s1_def Ls_start_begin_def Ls_InitializeSocket_def)
  define v1 where "v1 = v0\<lparr>lg_sink := s1, lg_control := Starting, lg_accept := Accepting, lg_errno := Errno_none\<rparr>"
  define v2 where "v2 = Ls_AcceptThread_accept AcceptAgain v1"
  define v3 where "v3 = Ls_AcceptThread_accept (AcceptedClient 7) v2"
  have "legacy_step v0 v1"
    using legacy_step.start [OF _ _ s1] by (simp add: v1_def s1_def start_defs)
  moreover have "legacy_step v1 v2" unfolding v2_def by (rule legacy_step.accept) (simp add: v1_def)
  ultimately have r2: "legacy_step\<^sup>*\<^sup>* v0 v2" by (meson converse_rtranclp_into_rtranclp r_into_rtranclp)
  have v2: "v2 = v1\<lparr>lg_errno := Errno_again\<rparr>"
    by (simp add: v2_def Ls_AcceptThread_accept_def v1_def s1_def start_defs)
  have "legacy_step v2 v3" unfolding v3_def by (rule legacy_step.accept) (simp add: v2 v1_def)
  with r2 have r3: "legacy_step\<^sup>*\<^sup>* v0 v3" by (rule rtranclp.rtrancl_into_rtrancl)
  have v3: "v3 = v2\<lparr>lg_sink := s1\<lparr>ls_client_fd := Some 7, ls_client_connected := True\<rparr>, lg_accept := Serving\<rparr>"
    by (simp add: v3_def Ls_AcceptThread_accept_def v2 v1_def s1_def start_defs)
  have "Ls_start_finish legacy_answers (lg_sink v3) = (True, lg_sink legacy_client_on)"
    by (simp add: v3 s1_def start_defs legacy_client_on_def Ls_start_finish_def Ls_InitializeEncoder_def Ls_InitializeMuxer_def)
  from legacy_step.started [OF _ _ this] have "legacy_step v3 legacy_client_on"
    by (simp add: v3 v2 v1_def start_defs legacy_client_on_def)
  with r3 show ?thesis unfolding v0_def by (rule rtranclp.rtrancl_into_rtrancl)
qed

text \<open>A frame is taken, and the client closes its connection without being noticed.\<close>

lemma legacy_example:
  "\<exists>v. legacy_step\<^sup>*\<^sup>* (legacy_begin SinkConfig 4) v \<and> ls_frames_sent (lg_sink v) = 1 \<and> lg_taken v = [stamped_frame 0]
    \<and> Ls_AcceptThread_watch RecvClosed v = v"
proof -
  define v4 where "v4 = legacy_client_on"
  have on: "ls_client_connected (lg_sink v4)" "\<not> ls_stop_requested (lg_sink v4)" "ls_frames_sent (lg_sink v4) = 0"
    "ls_muxer_state (lg_sink v4) = Some True" "ls_encoder_state (lg_sink v4) = Some True"
    "\<not> sg_stub_mode (ls_config (lg_sink v4))" "lg_q v4 = FrameRingBuffer 4" "lg_taken v4 = []" "lg_working v4"
    "lg_errno v4 = Errno_again"
    by (simp_all add: v4_def legacy_client_on_def legacy_begin_def LegacySink_def SinkConfig_def)
  have frame: "\<not> is_late 0 (stamped_frame 0)" "md_pts (fr_metadata (stamped_frame 0)) = 0"
    by (simp_all add: is_late_def stamped_frame_def kLateThresholdUs_def)
  have wf: "rb_wf (FrameRingBuffer 4)" "rb_frames (FrameRingBuffer 4) = []" "rb_room (FrameRingBuffer 4) = 4"
    using FrameRingBuffer_wf [of 4] by simp_all
  then have "length (rb_frames (FrameRingBuffer 4)) < rb_room (FrameRingBuffer 4)" by simp
  from Push_room [OF wf(1) this] obtain q where q: "Push (FrameRingBuffer 4) (stamped_frame 0) = (True, q)"
    "rb_frames q = [stamped_frame 0]" "rb_wf q" using wf(2) by (metis append_Nil)
  define v5 where "v5 = v4\<lparr>lg_q := q, lg_pushed := lg_pushed v4 @ [stamped_frame 0]\<rparr>"
  define v6 where "v6 = Ls_worker_turn 0 WouldBlock v5"
  have "legacy_step v4 v5" using legacy_step.push [of v4 "stamped_frame 0" True q] q(1) on by (simp add: v5_def)
  moreover have "legacy_step v5 v6" unfolding v6_def by (rule legacy_step.worker) (simp add: v5_def on)
  ultimately have r6: "legacy_step\<^sup>*\<^sup>* (legacy_begin SinkConfig 4) v6"
    using legacy_client_on_reached unfolding v4_def by (meson rtranclp.rtrancl_into_rtrancl)
  obtain q1 where q1: "Ls_HandleBufferOverflow 0 (lg_sink v4) q = ([], lg_sink v4, q1)" "rb_frames q1 = [stamped_frame 0]" "rb_wf q1"
    using overflow_result [OF q(3), of 0 "lg_sink v4"] frame(1) by (auto simp: q(2))
  obtain q2 where q2: "Pop q1 = (Some (stamped_frame 0), q2)" using Pop_Cons [OF q1(3,2)] by metis
  have v6: "v6 = v5\<lparr>lg_sink := Ls_ProcessFrame (lg_sink v4), lg_q := q2, lg_taken := [stamped_frame 0]\<rparr>"
    using q(2,3) q1(1) q2 on frame by (simp add: v6_def Ls_worker_turn_def v5_def Ls_WorkerLoop_pass_def Peek_eq took_def)
  have "Ls_AcceptThread_watch RecvClosed v6 = v6"
    using on by (subst orderly_close_unnoticed) (simp_all add: v6 v5_def Ls_ProcessFrame_def)
  moreover have "ls_frames_sent (lg_sink v6) = 1" "lg_taken v6 = [stamped_frame 0]"
    using on by (simp_all add: v6 Ls_ProcessFrame_def)
  ultimately show ?thesis using r6 by blast
qed

theorem legacy_session_witness:
  "\<exists>v. legacy_step\<^sup>*\<^sup>* (legacy_begin SinkConfig 4) v \<and> ls_frames_sent (lg_sink v) = 1
    \<and> ls_encoding_errors (lg_sink v) = 0 \<and> lg_wire v = []"
proof -
  from legacy_example obtain v where v: "legacy_step\<^sup>*\<^sup>* (legacy_begin SinkConfig 4) v"
    "ls_frames_sent (lg_sink v) = 1" "lg_taken v = [stamped_frame 0]" by blast
  from legacy_session [OF _ v(1)] v show ?thesis by (intro exI [of _ v]) simp
qed

section \<open>Stopping\<close>


















end
