(* ===== verification/Preview_Window.thy ===== *)
theory Preview_Window
  imports FrameRenderer
begin

text \<open>
  The classes behind the frame renderer (\<open>src/renderer/FrameRenderer.cpp\<close>): the preview window call by call
  to SDL, the headless renderer, and the preview renderer of a build without SDL. SDL itself is outside:
  what its calls return is an input, and what it asks of its caller (objects alive, destroyed inside out,
  nothing left at \<open>SDL_Quit\<close>) is a machine that accepts or refuses the list of calls a thread made. The
  methods here refine \<open>Initialize\<close>, \<open>RenderFrame\<close> and \<open>Cleanup\<close> of \<open>FrameRenderer\<close>.
\<close>

section \<open>Calls to SDL\<close>

datatype sdl_event = SDL_QUIT | Other_event

record yuv_update =
  yu_y_plane :: int
  yu_y_pitch :: int
  yu_u_plane :: int
  yu_u_pitch :: int
  yu_v_plane :: int
  yu_v_pitch :: int

text \<open>Objects are numbers, \<open>None\<close> the null pointer; a call that returns something carries it as its last argument.\<close>

datatype sdl_call =
    SDL_Init bool
  | SDL_CreateWindow string int int "nat option"
  | SDL_CreateRenderer "nat option" bool "nat option"
  | SDL_CreateTexture "nat option" int int "nat option"
  | SDL_PollEvent "sdl_event option"
  | SDL_UpdateYUVTexture "nat option" yuv_update
  | SDL_RenderClear "nat option"
  | SDL_RenderCopy "nat option" "nat option"
  | SDL_RenderPresent "nat option"
  | SDL_DestroyTexture "nat option"
  | SDL_DestroyRenderer "nat option"
  | SDL_DestroyWindow "nat option"
  | SDL_Quit

record sdl_results =
  sr_init :: bool
  sr_window :: "nat option"
  sr_renderer :: "nat option"
  sr_texture :: "nat option"

section \<open>The preview renderer\<close>

text \<open>The opaque pointers \<open>window_\<close>, \<open>renderer_\<close> and \<open>texture_\<close>.\<close>

record preview_pointers =
  pp_window :: "nat option"
  pp_renderer :: "nat option"
  pp_texture :: "nat option"

definition PreviewRenderer :: preview_pointers where
  "PreviewRenderer = \<lparr>pp_window = None, pp_renderer = None, pp_texture = None\<rparr>"

definition Preview_Initialize :: "sdl_results \<Rightarrow> render_config \<Rightarrow> preview_pointers
    \<Rightarrow> bool \<times> preview_pointers \<times> sdl_call list" where
  "Preview_Initialize sr config p =
     (let calls = [SDL_Init (sr_init sr)]
      in if \<not> sr_init sr then (False, p, calls)
      else let window = sr_window sr;
               calls = calls @ [SDL_CreateWindow (rc_window_title config) (rc_window_width config) (rc_window_height config) window]
      in if window = None then (False, p, calls @ [SDL_Quit])
      else let p = p\<lparr>pp_window := window\<rparr>;
               renderer = sr_renderer sr;
               calls = calls @ [SDL_CreateRenderer window (rc_vsync_enabled config) renderer]
      in if renderer = None then (False, p, calls @ [SDL_DestroyWindow window, SDL_Quit])
      else let p = p\<lparr>pp_renderer := renderer\<rparr>;
               texture = sr_texture sr;
               calls = calls @ [SDL_CreateTexture renderer (rc_window_width config) (rc_window_height config) texture]
      in if texture = None then (False, p, calls @ [SDL_DestroyRenderer renderer, SDL_DestroyWindow window, SDL_Quit])
      else (True, p\<lparr>pp_texture := texture\<rparr>, calls))"

text \<open>The event loop ends with an empty queue or at the first \<open>SDL_QUIT\<close>.\<close>

fun poll_events :: "sdl_event list \<Rightarrow> bool \<times> sdl_call list" where
  "poll_events [] = (False, [SDL_PollEvent None])"
| "poll_events (event # events) =
     (if event = SDL_QUIT then (True, [SDL_PollEvent (Some event)])
      else let (quit, calls) = poll_events events in (quit, SDL_PollEvent (Some event) # calls))"

text \<open>The planes are offsets into the frame's data. The products are those of the source's \<open>int\<close>s
  while \<open>width * height\<close> fits in 32 bits.\<close>

definition yuv_planes :: "frame \<Rightarrow> yuv_update" where
  "yuv_planes f =
     (let y_size = fr_width f * fr_height f;
          uv_size = (fr_width f sdiv 2) * (fr_height f sdiv 2);
          y_plane = 0; u_plane = y_plane + y_size; v_plane = u_plane + uv_size
      in \<lparr>yu_y_plane = y_plane, yu_y_pitch = fr_width f, yu_u_plane = u_plane, yu_u_pitch = fr_width f sdiv 2,
          yu_v_plane = v_plane, yu_v_pitch = fr_width f sdiv 2\<rparr>)"

definition Preview_RenderFrame :: "sdl_event list \<Rightarrow> frame \<Rightarrow> preview_pointers \<Rightarrow> renderer \<Rightarrow> renderer \<times> sdl_call list" where
  "Preview_RenderFrame events f p r =
     (let (quit, calls) = poll_events events
      in if quit then (r\<lparr>re_stop_requested := True\<rparr>, calls)
         else (r, calls
                @ (if fr_data f \<noteq> [] then [SDL_UpdateYUVTexture (pp_texture p) (yuv_planes f)] else [])
                @ [SDL_RenderClear (pp_renderer p), SDL_RenderCopy (pp_renderer p) (pp_texture p),
                   SDL_RenderPresent (pp_renderer p)]))"

definition Preview_Cleanup :: "preview_pointers \<Rightarrow> preview_pointers \<times> sdl_call list" where
  "Preview_Cleanup p =
     (let calls = (if pp_texture p \<noteq> None then [SDL_DestroyTexture (pp_texture p)] else []);
          p = p\<lparr>pp_texture := None\<rparr>;
          calls = calls @ (if pp_renderer p \<noteq> None then [SDL_DestroyRenderer (pp_renderer p)] else []);
          p = p\<lparr>pp_renderer := None\<rparr>;
          calls = calls @ (if pp_window p \<noteq> None then [SDL_DestroyWindow (pp_window p)] else []);
          p = p\<lparr>pp_window := None\<rparr>
      in (p, calls @ [SDL_Quit]))"

section \<open>The other two renderers\<close>

definition Headless_Initialize :: "renderer \<Rightarrow> bool \<times> renderer" where
  "Headless_Initialize r = (True, r)"

definition Headless_RenderFrame :: "frame \<Rightarrow> renderer \<Rightarrow> renderer" where
  "Headless_RenderFrame f r = r"

definition Headless_Cleanup :: "renderer \<Rightarrow> renderer" where
  "Headless_Cleanup r = r"

text \<open>Without SDL the preview renderer never initializes; \<open>Create\<close> does not make one.\<close>

definition Stub_Initialize :: "preview_pointers \<Rightarrow> bool \<times> preview_pointers" where
  "Stub_Initialize p = (False, p)"

definition Stub_RenderFrame :: "frame \<Rightarrow> preview_pointers \<Rightarrow> preview_pointers" where
  "Stub_RenderFrame f p = p"

definition Stub_Cleanup :: "preview_pointers \<Rightarrow> preview_pointers" where
  "Stub_Cleanup p = p"

definition Re_IsRunning :: "renderer \<Rightarrow> bool" where
  "Re_IsRunning r = re_running r"

definition Re_GetStats :: "renderer \<Rightarrow> render_stats" where
  "Re_GetStats r = re_stats r"

text \<open>The producer reference is not kept.\<close>

definition setProducer :: "'producer \<Rightarrow> renderer \<Rightarrow> renderer" where
  "setProducer producer r = r"

lemma headless_methods:
  "\<not> re_preview r \<Longrightarrow> Initialize sdl r = Headless_Initialize r"
  "\<not> re_preview r \<Longrightarrow> RenderFrame inp f r = Headless_RenderFrame f r"
  "\<not> re_preview r \<Longrightarrow> Cleanup r = Headless_Cleanup r"
  by (simp_all add: Initialize_def Headless_Initialize_def RenderFrame_def Headless_RenderFrame_def Cleanup_def
      Headless_Cleanup_def)

section \<open>Refinement\<close>

text \<open>The renderer of \<open>FrameRenderer\<close> keeps of each pointer whether it is null, of SDL's results whether the
  call succeeded, and of the events whether one was \<open>SDL_QUIT\<close>.\<close>

definition sdl_outcomes :: "sdl_results \<Rightarrow> sdl_calls" where
  "sdl_outcomes sr = \<lparr>sdl_init = sr_init sr, sdl_create_window = (sr_window sr \<noteq> None),
     sdl_create_renderer = (sr_renderer sr \<noteq> None), sdl_create_texture = (sr_texture sr \<noteq> None)\<rparr>"

definition pointers_agree :: "preview_pointers \<Rightarrow> renderer \<Rightarrow> bool" where
  "pointers_agree p r \<longleftrightarrow> (pp_window p \<noteq> None) = re_window r \<and> (pp_renderer p \<noteq> None) = re_renderer r
     \<and> (pp_texture p \<noteq> None) = re_texture r"

lemma Preview_Initialize_refines:
  assumes "re_preview r" "pointers_agree p r" "Initialize (sdl_outcomes sr) r = (ok, r')"
    "Preview_Initialize sr (re_config r) p = (ok', p', calls)"
  shows "ok' = ok \<and> pointers_agree p' r'"
  using assms
  by (auto simp: Initialize_def Preview_Initialize_def sdl_outcomes_def pointers_agree_def Let_def split: if_splits)

lemma poll_events_quit: "fst (poll_events events) \<longleftrightarrow> SDL_QUIT \<in> set events"
  by (induction events) (auto split: prod.splits)

lemma Preview_RenderFrame_refines:
  "re_preview r \<Longrightarrow> in_quit inp = (SDL_QUIT \<in> set events)
   \<Longrightarrow> fst (Preview_RenderFrame events f p r) = RenderFrame inp f r"
  using poll_events_quit [of events]
  by (auto simp: Preview_RenderFrame_def RenderFrame_def split: prod.splits)

lemma Preview_Cleanup_refines:
  "re_preview r \<Longrightarrow> pointers_agree (fst (Preview_Cleanup p)) (Cleanup r)"
  by (simp add: Preview_Cleanup_def Cleanup_def pointers_agree_def Let_def)

section \<open>What SDL asks of its caller\<close>

record sdl_state =
  ss_video :: bool
  ss_windows :: "nat list"
  ss_renderers :: "(nat \<times> nat) list"
  ss_textures :: "(nat \<times> nat \<times> int \<times> int) list"

definition sdl_off :: sdl_state where
  "sdl_off = \<lparr>ss_video = False, ss_windows = [], ss_renderers = [], ss_textures = []\<rparr>"

text \<open>An object is used only while it exists, destroyed once and after what hangs on it; \<open>SDL_Quit\<close> comes when
  nothing is left. A new object is none of those that exist.\<close>

fun sdl_accepts :: "sdl_call \<Rightarrow> sdl_state \<Rightarrow> sdl_state option" where
  "sdl_accepts (SDL_Init ok) s = Some (if ok then s\<lparr>ss_video := True\<rparr> else s)"
| "sdl_accepts (SDL_CreateWindow title w h result) s =
     (if \<not> ss_video s then None
      else case result of
        None \<Rightarrow> Some s
      | Some i \<Rightarrow> if i \<in> set (ss_windows s) then None else Some (s\<lparr>ss_windows := i # ss_windows s\<rparr>))"
| "sdl_accepts (SDL_CreateRenderer window vsync result) s =
     (case window of
        None \<Rightarrow> None
      | Some i \<Rightarrow> if i \<notin> set (ss_windows s) then None
                  else case result of
                    None \<Rightarrow> Some s
                  | Some j \<Rightarrow> if j \<in> set (List.map fst (ss_renderers s)) then None
                              else Some (s\<lparr>ss_renderers := (j, i) # ss_renderers s\<rparr>))"
| "sdl_accepts (SDL_CreateTexture renderer w h result) s =
     (case renderer of
        None \<Rightarrow> None
      | Some j \<Rightarrow> if j \<notin> set (List.map fst (ss_renderers s)) then None
                  else case result of
                    None \<Rightarrow> Some s
                  | Some k \<Rightarrow> if k \<in> set (List.map fst (ss_textures s)) then None
                              else Some (s\<lparr>ss_textures := (k, j, w, h) # ss_textures s\<rparr>))"
| "sdl_accepts (SDL_PollEvent event) s = (if ss_video s then Some s else None)"
| "sdl_accepts (SDL_UpdateYUVTexture texture u) s =
     (case texture of None \<Rightarrow> None
      | Some k \<Rightarrow> if k \<in> set (List.map fst (ss_textures s)) then Some s else None)"
| "sdl_accepts (SDL_RenderClear renderer) s =
     (case renderer of None \<Rightarrow> None
      | Some j \<Rightarrow> if j \<in> set (List.map fst (ss_renderers s)) then Some s else None)"
| "sdl_accepts (SDL_RenderCopy renderer texture) s =
     (case renderer of None \<Rightarrow> None
      | Some j \<Rightarrow> (case texture of None \<Rightarrow> None
          | Some k \<Rightarrow> if list_ex (\<lambda>(k', j', _). k' = k \<and> j' = j) (ss_textures s) then Some s else None))"
| "sdl_accepts (SDL_RenderPresent renderer) s =
     (case renderer of None \<Rightarrow> None
      | Some j \<Rightarrow> if j \<in> set (List.map fst (ss_renderers s)) then Some s else None)"
| "sdl_accepts (SDL_DestroyTexture texture) s =
     (case texture of None \<Rightarrow> None
      | Some k \<Rightarrow> if k \<in> set (List.map fst (ss_textures s))
                  then Some (s\<lparr>ss_textures := List.filter (\<lambda>t. fst t \<noteq> k) (ss_textures s)\<rparr>) else None)"
| "sdl_accepts (SDL_DestroyRenderer renderer) s =
     (case renderer of None \<Rightarrow> None
      | Some j \<Rightarrow> if j \<in> set (List.map fst (ss_renderers s)) \<and> list_all (\<lambda>(_, j', _). j' \<noteq> j) (ss_textures s)
                  then Some (s\<lparr>ss_renderers := List.filter (\<lambda>t. fst t \<noteq> j) (ss_renderers s)\<rparr>) else None)"
| "sdl_accepts (SDL_DestroyWindow window) s =
     (case window of None \<Rightarrow> None
      | Some i \<Rightarrow> if i \<in> set (ss_windows s) \<and> list_all (\<lambda>(_, i'). i' \<noteq> i) (ss_renderers s)
                  then Some (s\<lparr>ss_windows := List.filter (\<lambda>t. t \<noteq> i) (ss_windows s)\<rparr>) else None)"
| "sdl_accepts SDL_Quit s =
     (if ss_windows s = [] \<and> ss_renderers s = [] \<and> ss_textures s = [] then Some (s\<lparr>ss_video := False\<rparr>) else None)"

fun sdl_run :: "sdl_call list \<Rightarrow> sdl_state \<Rightarrow> sdl_state option" where
  "sdl_run [] s = Some s"
| "sdl_run (call # calls) s = Option.bind (sdl_accepts call s) (sdl_run calls)"

lemma sdl_run_append: "sdl_run (xs @ ys) s = Option.bind (sdl_run xs s) (sdl_run ys)"
proof (induction xs arbitrary: s)
  case (Cons c xs)
  then show ?case by (cases "sdl_accepts c s") simp_all
qed simp

text \<open>While the window is up SDL holds the three objects the pointers name.\<close>

definition sdl_showing :: "render_config \<Rightarrow> preview_pointers \<Rightarrow> sdl_state \<Rightarrow> bool" where
  "sdl_showing config p s \<longleftrightarrow>
     (case (pp_window p, pp_renderer p, pp_texture p) of
        (Some i, Some j, Some k) \<Rightarrow>
          s = \<lparr>ss_video = True, ss_windows = [i], ss_renderers = [(j, i)],
               ss_textures = [(k, j, rc_window_width config, rc_window_height config)]\<rparr>
      | _ \<Rightarrow> False)"

lemma sdl_showingE:
  assumes "sdl_showing config p s"
  obtains i j k where "pp_window p = Some i" "pp_renderer p = Some j" "pp_texture p = Some k"
    "s = \<lparr>ss_video = True, ss_windows = [i], ss_renderers = [(j, i)],
          ss_textures = [(k, j, rc_window_width config, rc_window_height config)]\<rparr>"
  using assms by (auto simp: sdl_showing_def split: option.splits)

text \<open>Setting up either shows the window or leaves nothing behind, whatever stale pointers there are.\<close>

lemma Preview_Initialize_run:
  assumes "Preview_Initialize sr config p = (ok, p', calls)"
  shows "\<exists>s. sdl_run calls sdl_off = Some s \<and> (if ok then sdl_showing config p' s else s = sdl_off)"
  using assms
  by (auto simp: Preview_Initialize_def sdl_off_def sdl_showing_def Let_def split: if_splits)

lemma poll_events_run: "ss_video s \<Longrightarrow> sdl_run (snd (poll_events events)) s = Some s"
  by (induction events) (auto split: prod.splits)

lemma Preview_RenderFrame_run:
  assumes "sdl_showing config p s"
  shows "sdl_run (snd (Preview_RenderFrame events f p r)) s = Some s"
proof -
  from assms obtain i j k where p: "pp_window p = Some i" "pp_renderer p = Some j" "pp_texture p = Some k"
    and s: "s = \<lparr>ss_video = True, ss_windows = [i], ss_renderers = [(j, i)],
          ss_textures = [(k, j, rc_window_width config, rc_window_height config)]\<rparr>"
    by (rule sdl_showingE)
  have poll: "sdl_run (snd (poll_events events)) s = Some s" by (rule poll_events_run) (simp add: s)
  show ?thesis
  proof (cases "poll_events events")
    case (Pair quit calls)
    with poll have "sdl_run calls s = Some s" by simp
    with Pair p show ?thesis
      by (simp add: Preview_RenderFrame_def sdl_run_append) (simp add: s)
  qed
qed

lemma Preview_Cleanup_run:
  assumes "sdl_showing config p s"
  shows "sdl_run (snd (Preview_Cleanup p)) s = Some sdl_off"
  using assms
  by (elim sdl_showingE) (simp add: Preview_Cleanup_def sdl_off_def Let_def)

section \<open>The thread with its window\<close>

record preview =
  pv_r :: renderer
  pv_q :: ring_buffer
  pv_x :: exporter
  pv_p :: preview_pointers
  pv_calls :: "sdl_call list"

text \<open>One turn of the render thread with the calls it makes; the events are those waiting when it renders.\<close>

definition Preview_thread_turn :: "sdl_results \<Rightarrow> sdl_event list \<Rightarrow> render_input \<Rightarrow> preview \<Rightarrow> preview option" where
  "Preview_thread_turn sr events inp v =
     (let r = pv_r v; q = pv_q v; x = pv_x v; p = pv_p v in
      case re_thread r of
        Spawned \<Rightarrow>
          (let (_, p, calls) = Preview_Initialize sr (re_config r) p;
               (_, r) = RenderLoop_begin (sdl_outcomes sr) (in_clk inp 0) (in_steady_ms inp 0) r
           in Some (v\<lparr>pv_r := r, pv_p := p, pv_calls := pv_calls v @ calls\<rparr>))
      | InLoop \<Rightarrow>
          if re_stop_requested r
          then let (p, calls) = Preview_Cleanup p
               in Some (v\<lparr>pv_r := RenderLoop_end r, pv_p := p, pv_calls := pv_calls v @ calls\<rparr>)
          else (case RenderLoop_pass (inp\<lparr>in_quit := SDL_QUIT \<in> set events\<rparr>) r q x of
                  None \<Rightarrow> None
                | Some (outcome, r', q, x) \<Rightarrow>
                    Some (v\<lparr>pv_r := r', pv_q := q, pv_x := x,
                       pv_calls := pv_calls v
                         @ (case outcome of Rendered f i \<Rightarrow> snd (Preview_RenderFrame events f p r) | _ \<Rightarrow> [])\<rparr>))
      | _ \<Rightarrow> Some v)"

text \<open>The threads around it start and stop the renderer, push frames and reset the pipeline. \<open>Start\<close> over a
  thread that was not joined ends the program; \<open>Stop\<close> goes on once the thread has exited.\<close>

inductive preview_step :: "preview \<Rightarrow> preview \<Rightarrow> bool" where
  start: "re_thread (pv_r v) = NoThread \<Longrightarrow> Re_Start (pv_r v) (pv_q v) (pv_x v) = (ok, r, x)
    \<Longrightarrow> preview_step v (v\<lparr>pv_r := r, pv_x := x\<rparr>)"
| turn: "Preview_thread_turn sr events inp v = Some v' \<Longrightarrow> preview_step v v'"
| stop: "preview_step v (v\<lparr>pv_r := Re_Stop_request (pv_r v)\<rparr>)"
| joined: "re_thread (pv_r v) = Exited \<Longrightarrow> Re_Stop_finish (pv_r v) (pv_q v) (pv_x v) = (r, x)
    \<Longrightarrow> preview_step v (v\<lparr>pv_r := r, pv_x := x\<rparr>)"
| push: "preview_step v (v\<lparr>pv_q := snd (Push (pv_q v) f)\<rparr>)"
| reset: "resetPipeline now steady (pv_r v) (pv_q v) = (r, q) \<Longrightarrow> preview_step v (v\<lparr>pv_r := r, pv_q := q\<rparr>)"

definition preview_begin :: "render_config \<Rightarrow> bool \<Rightarrow> bool \<Rightarrow> int \<Rightarrow> real \<Rightarrow> ring_buffer \<Rightarrow> exporter \<Rightarrow> preview" where
  "preview_begin config clock metrics channel_id steady_now_ms q x =
     \<lparr>pv_r = Renderer_Create True (config\<lparr>rc_mode := PREVIEW\<rparr>) clock metrics channel_id steady_now_ms,
      pv_q = q, pv_x = x, pv_p = PreviewRenderer, pv_calls = []\<rparr>"

text \<open>In the loop the window is up; in every other phase nothing of it exists.\<close>

definition window_state :: "preview \<Rightarrow> sdl_state \<Rightarrow> bool" where
  "window_state v s \<longleftrightarrow>
     (if re_thread (pv_r v) = InLoop then sdl_showing (re_config (pv_r v)) (pv_p v) s else s = sdl_off)"

definition preview_inv :: "render_config \<Rightarrow> preview \<Rightarrow> bool" where
  "preview_inv config v \<longleftrightarrow> re_preview (pv_r v) \<and> re_config (pv_r v) = config
     \<and> pointers_agree (pv_p v) (pv_r v) \<and> (\<exists>s. sdl_run (pv_calls v) sdl_off = Some s \<and> window_state v s)"

lemma preview_invI:
  assumes "re_preview (pv_r v)" "re_config (pv_r v) = config" "pointers_agree (pv_p v) (pv_r v)"
    "sdl_run (pv_calls v) sdl_off = Some s" "window_state v s"
  shows "preview_inv config v"
  using assms by (auto simp: preview_inv_def)

text \<open>What a pass and the calls around the thread leave alone.\<close>

definition same_window :: "renderer \<Rightarrow> renderer \<Rightarrow> bool" where
  "same_window r r' \<longleftrightarrow> re_preview r' = re_preview r \<and> re_config r' = re_config r \<and> re_window r' = re_window r
     \<and> re_renderer r' = re_renderer r \<and> re_texture r' = re_texture r"

lemma same_window_agree: "same_window r r' \<Longrightarrow> pointers_agree p r' = pointers_agree p r"
  by (simp add: same_window_def pointers_agree_def)

lemma finish_frame_window:
  "finish_frame inp f ms i r q x = (outcome, r', q', x') \<Longrightarrow> same_window r r' \<and> re_thread r' = re_thread r"
  by (auto simp: finish_frame_def RenderFrame_def Re_UpdateStats_def same_window_def Let_def split: if_splits)

lemma RenderLoop_pass_window:
  assumes "RenderLoop_pass inp r q x = Some (outcome, r', q', x')"
  shows "same_window r r' \<and> re_thread r' = re_thread r"
  using assms
  by (fastforce simp: RenderLoop_pass_def Let_def count_drop_def same_window_def
      split: prod.splits option.splits if_splits dest: finish_frame_window)

lemma preview_inv_begin: "preview_inv (config\<lparr>rc_mode := PREVIEW\<rparr>) (preview_begin config clock metrics ch now q x)"
  by (rule preview_invI [where s = sdl_off])
    (simp_all add: preview_begin_def Renderer_Create_def pointers_agree_def PreviewRenderer_def window_state_def)

lemma RenderLoop_begin_window:
  assumes "RenderLoop_begin (sdl_outcomes sr) now steady r = (ok, r')" "re_preview r" "pointers_agree p r"
    "Preview_Initialize sr (re_config r) p = (ok', p', calls)"
  shows "ok' = ok \<and> re_preview r' \<and> re_config r' = re_config r \<and> pointers_agree p' r'
    \<and> re_thread r' = (if ok then InLoop else Exited)"
proof -
  obtain ok1 r1 where i: "Initialize (sdl_outcomes sr) r = (ok1, r1)" by fastforce
  from Preview_Initialize_refines [OF assms(2,3) i assms(4)] have ref: "ok' = ok1" "pointers_agree p' r1" by simp_all
  from i assms(2) have same: "re_preview r1" "re_config r1 = re_config r"
    by (auto simp: Initialize_def Let_def split: if_splits)
  from assms(1) i have "ok = ok1"
    "r' = (if ok1 then let r = r1\<lparr>re_running := True, re_thread := InLoop\<rparr>
                       in if re_has_clock r then r\<lparr>re_last_frame_time_utc := now\<rparr>
                          else r\<lparr>re_fallback_last_frame_time_ms := steady\<rparr>
           else r1\<lparr>re_thread := Exited\<rparr>)"
    by (auto simp: RenderLoop_begin_def Let_def split: if_splits)
  with ref same show ?thesis by (simp add: pointers_agree_def Let_def)
qed

lemma preview_turn_inv:
  assumes inv: "preview_inv config v" and turn: "Preview_thread_turn sr events inp v = Some v'"
  shows "preview_inv config v'"
proof -
  from inv obtain s where r: "re_preview (pv_r v)" "re_config (pv_r v) = config" "pointers_agree (pv_p v) (pv_r v)"
    and s: "sdl_run (pv_calls v) sdl_off = Some s" "window_state v s"
    by (auto simp: preview_inv_def)
  show ?thesis
  proof (cases "re_thread (pv_r v)")
    case Spawned
    with s have off: "sdl_run (pv_calls v) sdl_off = Some sdl_off" by (simp add: window_state_def)
    obtain ok p calls where i: "Preview_Initialize sr config (pv_p v) = (ok, p, calls)" by (rule prod_cases3)
    obtain ok' r' where b: "RenderLoop_begin (sdl_outcomes sr) (in_clk inp 0) (in_steady_ms inp 0) (pv_r v) = (ok', r')"
      by fastforce
    from turn Spawned i b r(2) have v': "v' = v\<lparr>pv_r := r', pv_p := p, pv_calls := pv_calls v @ calls\<rparr>"
      by (simp add: Preview_thread_turn_def)
    from RenderLoop_begin_window [OF b r(1,3)] i r(2)
    have ok: "ok = ok'" "re_preview r'" "re_config r' = config" "pointers_agree p r'"
      "re_thread r' = (if ok then InLoop else Exited)" by auto
    from Preview_Initialize_run [OF i] obtain s' where
      s': "sdl_run calls sdl_off = Some s'" "if ok then sdl_showing config p s' else s' = sdl_off" by blast
    show ?thesis
      by (rule preview_invI [where s = s']) (use ok off s' in \<open>auto simp: v' sdl_run_append window_state_def\<close>)
  next
    case InLoop
    with s r(2) have up: "sdl_showing config (pv_p v) s" by (simp add: window_state_def)
    show ?thesis
    proof (cases "re_stop_requested (pv_r v)")
      case True
      with turn InLoop have v': "v' = v\<lparr>pv_r := RenderLoop_end (pv_r v), pv_p := fst (Preview_Cleanup (pv_p v)),
          pv_calls := pv_calls v @ snd (Preview_Cleanup (pv_p v))\<rparr>"
        by (auto simp: Preview_thread_turn_def split: prod.splits)
      show ?thesis
        by (rule preview_invI [where s = sdl_off])
          (use r s Preview_Cleanup_run [OF up] Preview_Cleanup_refines [OF r(1), of "pv_p v"] in
            \<open>simp_all add: v' sdl_run_append window_state_def RenderLoop_end_def Cleanup_def pointers_agree_def\<close>)
    next
      case False
      with turn InLoop obtain outcome r' q' x' where
        pass: "RenderLoop_pass (inp\<lparr>in_quit := SDL_QUIT \<in> set events\<rparr>) (pv_r v) (pv_q v) (pv_x v) = Some (outcome, r', q', x')"
        and v': "v' = v\<lparr>pv_r := r', pv_q := q', pv_x := x', pv_calls := pv_calls v
           @ (case outcome of Rendered f i \<Rightarrow> snd (Preview_RenderFrame events f (pv_p v) (pv_r v)) | _ \<Rightarrow> [])\<rparr>"
        by (auto simp: Preview_thread_turn_def Let_def split: option.splits prod.splits)
      from RenderLoop_pass_window [OF pass] have same: "same_window (pv_r v) r'" "re_thread r' = InLoop"
        using InLoop by simp_all
      have "sdl_run (case outcome of Rendered f i \<Rightarrow> snd (Preview_RenderFrame events f (pv_p v) (pv_r v)) | _ \<Rightarrow> []) s = Some s"
        by (cases outcome) (simp_all add: Preview_RenderFrame_run [OF up])
      with s r same up show ?thesis
        by (intro preview_invI [where s = s])
          (simp_all add: v' sdl_run_append window_state_def same_window_agree, simp_all add: same_window_def)
    qed
  qed (use turn inv in \<open>auto simp: Preview_thread_turn_def\<close>)
qed

text \<open>The other steps keep the thread out of the loop or in it, and touch no pointer.\<close>

lemma preview_inv_around:
  assumes "preview_inv config v" "same_window (pv_r v) r"
    "re_thread r = InLoop \<longleftrightarrow> re_thread (pv_r v) = InLoop"
  shows "preview_inv config (v\<lparr>pv_r := r, pv_q := q, pv_x := x\<rparr>)"
  using assms by (auto simp: preview_inv_def window_state_def same_window_def pointers_agree_def)

lemma preview_inv_step:
  assumes "preview_step v v'" "preview_inv config v"
  shows "preview_inv config v'"
  using assms
proof cases
  case (start ok r x)
  then have "same_window (pv_r v) r" "re_thread r \<noteq> InLoop"
    by (auto simp: Re_Start_def same_window_def Let_def split: if_splits)
  with start preview_inv_around [OF assms(2), where r = r and q = "pv_q v" and x = x] show ?thesis by simp
next
  case (turn sr events inp)
  then show ?thesis by (auto intro: preview_turn_inv [OF assms(2)])
next
  case stop
  with preview_inv_around [OF assms(2), where r = "Re_Stop_request (pv_r v)" and q = "pv_q v" and x = "pv_x v"] show ?thesis
    by (simp add: same_window_def Re_Stop_request_def)
next
  case (joined r x)
  then have "same_window (pv_r v) r" "re_thread r \<noteq> InLoop"
    by (auto simp: Re_Stop_finish_def same_window_def Let_def split: if_splits)
  with joined preview_inv_around [OF assms(2), where r = r and q = "pv_q v" and x = x] show ?thesis by simp
next
  case (push f)
  with preview_inv_around [OF assms(2), where r = "pv_r v" and q = "snd (Push (pv_q v) f)" and x = "pv_x v"] show ?thesis
    by (simp add: same_window_def)
next
  case (reset now steady r q)
  then have "same_window (pv_r v) r" "re_thread r = re_thread (pv_r v)"
    by (auto simp: resetPipeline_def same_window_def Let_def split: if_splits)
  with reset preview_inv_around [OF assms(2), where r = r and q = q and x = "pv_x v"] show ?thesis by simp
qed

lemma preview_inv_reachable:
  assumes "preview_step\<^sup>*\<^sup>* (preview_begin config clock metrics ch now q x) v"
  shows "preview_inv (config\<lparr>rc_mode := PREVIEW\<rparr>) v"
  using assms by (induction rule: rtranclp_induct) (auto intro: preview_inv_begin preview_inv_step)

text \<open>The thread turn is the one of \<open>FrameRenderer\<close>, with the pointers and the calls beside it.\<close>

lemma preview_turn_refines:
  assumes "in_quit inp = (SDL_QUIT \<in> set events)"
  shows "map_option (\<lambda>v. (pv_r v, pv_q v, pv_x v)) (Preview_thread_turn sr events inp v)
    = Re_thread_turn (sdl_outcomes sr) inp (pv_r v) (pv_q v) (pv_x v)"
proof -
  have "inp\<lparr>in_quit := SDL_QUIT \<in> set events\<rparr> = inp" using assms by simp
  then show ?thesis
    by (auto simp: Preview_thread_turn_def Re_thread_turn_def Let_def split: thread_status.splits option.splits prod.splits)
qed

text \<open>A set-up that fails after the window was made leaves \<open>window_\<close> pointing at a destroyed window.\<close>

lemma stale_pointer:
  assumes "sr_init sr" "sr_window sr = Some i" "sr_renderer sr = None"
  shows "\<exists>calls. Preview_Initialize sr config p = (False, p\<lparr>pp_window := Some i\<rparr>, calls) \<and> sdl_run calls sdl_off = Some sdl_off"
  using assms by (simp add: Preview_Initialize_def sdl_off_def Let_def)

text \<open>\<open>SDL_Quit\<close> is not per channel: when a second preview closes, it shuts SDL down under the window
  of the first.\<close>

lemma second_preview_quits_first:
  assumes "sdl_showing config p s" "Preview_Initialize sr config' p' = (True, p'', calls)"
    "pp_window p'' \<noteq> pp_window p" "pp_renderer p'' \<noteq> pp_renderer p" "pp_texture p'' \<noteq> pp_texture p"
  shows "sdl_run (calls @ snd (Preview_Cleanup p'')) s = None"
  using assms
  by (elim sdl_showingE)
    (auto simp: Preview_Initialize_def Preview_Cleanup_def sdl_run_append Let_def split: if_splits)

section \<open>The reads of an update\<close>

text \<open>As documented, an update with no rectangle reads the whole texture: of each plane its rows, a pitch apart,
  the chroma planes at half the size rounded up. Offsets are relative to the first byte of the frame's data.\<close>

definition plane_reads :: "int \<Rightarrow> int \<Rightarrow> int \<Rightarrow> int \<Rightarrow> int set" where
  "plane_reads plane pitch row_bytes rows = {plane + i * pitch + j | i j. 0 \<le> i \<and> i < rows \<and> 0 \<le> j \<and> j < row_bytes}"

definition update_reads_texture :: "(int \<Rightarrow> int \<Rightarrow> yuv_update \<Rightarrow> int set) \<Rightarrow> bool" where
  "update_reads_texture reads \<longleftrightarrow> (\<forall>w h u. reads w h u =
     plane_reads (yu_y_plane u) (yu_y_pitch u) w h
     \<union> plane_reads (yu_u_plane u) (yu_u_pitch u) ((w + 1) div 2) ((h + 1) div 2)
     \<union> plane_reads (yu_v_plane u) (yu_v_pitch u) ((w + 1) div 2) ((h + 1) div 2))"

lemma plane_reads_inside:
  assumes "0 \<le> plane" "0 \<le> w"
  shows "plane_reads plane w w h \<subseteq> {plane..<plane + w * h}"
proof
  fix a assume "a \<in> plane_reads plane w w h"
  then obtain i j where a: "a = plane + i * w + j" "0 \<le> i" "i < h" "0 \<le> j" "j < w" by (auto simp: plane_reads_def)
  then have "0 \<le> i * w" "(i + 1) * w \<le> h * w" using assms by (simp_all add: mult_right_mono)
  with a show "a \<in> {plane..<plane + w * h}" by (simp add: algebra_simps)
qed

lemma plane_reads_row: "0 \<le> i \<Longrightarrow> i < rows \<Longrightarrow> 0 \<le> j \<Longrightarrow> j < row_bytes \<Longrightarrow> plane + i * pitch + j \<in> plane_reads plane pitch row_bytes rows"
  by (auto simp: plane_reads_def)

definition complete_planes :: "frame \<Rightarrow> bool" where
  "complete_planes f \<longleftrightarrow> 0 < fr_width f \<and> 0 < fr_height f \<and> even (fr_width f) \<and> even (fr_height f)
     \<and> int (length (fr_data f)) = fr_width f * fr_height f + 2 * ((fr_width f div 2) * (fr_height f div 2))"

text \<open>C32. A frame with complete planes, at most as large as the window it was configured with, is read within its
  data exactly when it has the size of the window; a smaller one is read beyond its last byte.\<close>

theorem preview_reads:
  assumes "update_reads_texture reads" "complete_planes f" "fr_width f \<le> rc_window_width config"
    "fr_height f \<le> rc_window_height config"
  shows "reads (rc_window_width config) (rc_window_height config) (yuv_planes f) \<subseteq> {0..<int (length (fr_data f))}
    \<longleftrightarrow> fr_width f = rc_window_width config \<and> fr_height f = rc_window_height config"
proof -
  define w h tw th where "w = fr_width f div 2" and "h = fr_height f div 2"
    and "tw = rc_window_width config" and "th = rc_window_height config"
  have dims: "fr_width f = 2 * w" "fr_height f = 2 * h" "0 < w" "0 < h"
    using assms(2) by (auto simp: complete_planes_def w_def h_def elim!: evenE)
  define n where "n = int (length (fr_data f))"
  have n: "n = 4 * (w * h) + 2 * (w * h)" using assms(2) dims by (simp add: complete_planes_def n_def)
  have planes: "yuv_planes f = \<lparr>yu_y_plane = 0, yu_y_pitch = 2 * w, yu_u_plane = 4 * (w * h), yu_u_pitch = w,
      yu_v_plane = 5 * (w * h), yu_v_pitch = w\<rparr>"
    using dims by (simp add: yuv_planes_def sdiv_pos Let_def)
  let ?reads = "reads tw th (yuv_planes f)"
  have reads: "?reads = plane_reads 0 (2 * w) tw th \<union> plane_reads (4 * (w * h)) w ((tw + 1) div 2) ((th + 1) div 2)
      \<union> plane_reads (5 * (w * h)) w ((tw + 1) div 2) ((th + 1) div 2)"
    using assms(1) by (simp add: update_reads_texture_def planes)
  have "?reads \<subseteq> {0..<n}" if "2 * w = tw" "2 * h = th"
  proof -
    have "(tw + 1) div 2 = w" "(th + 1) div 2 = h" "0 \<le> w * h" using that dims by simp_all
    with plane_reads_inside [of 0 "2 * w" "2 * h"] plane_reads_inside [of "4 * (w * h)" w h]
      plane_reads_inside [of "5 * (w * h)" w h] that dims n show ?thesis unfolding reads by (fastforce simp: algebra_simps)
  qed
  moreover have "n \<in> ?reads" if "2 * w \<noteq> tw \<or> 2 * h \<noteq> th"
  proof (cases "2 * h < th")
    case True
    then have "5 * (w * h) + h * w + 0 \<in> plane_reads (5 * (w * h)) w ((tw + 1) div 2) ((th + 1) div 2)"
      using assms(3) dims by (intro plane_reads_row) (auto simp: tw_def)
    then show ?thesis unfolding reads by (simp add: n algebra_simps)
  next
    case False
    with that assms(3,4) dims have "2 * w < tw" "th = 2 * h" by (auto simp: tw_def th_def)
    then have "5 * (w * h) + (h - 1) * w + w \<in> plane_reads (5 * (w * h)) w ((tw + 1) div 2) ((th + 1) div 2)"
      using dims by (intro plane_reads_row) auto
    then show ?thesis unfolding reads by (simp add: n algebra_simps)
  qed
  ultimately show ?thesis unfolding n_def [symmetric] tw_def [symmetric] th_def [symmetric] dims(1,2) by force
qed

theorem preview_reads_witness:
  "\<not> (\<lambda>w h u. plane_reads (yu_y_plane u) (yu_y_pitch u) w h
       \<union> plane_reads (yu_u_plane u) (yu_u_pitch u) ((w + 1) div 2) ((h + 1) div 2)
       \<union> plane_reads (yu_v_plane u) (yu_v_pitch u) ((w + 1) div 2) ((h + 1) div 2)) 1920 1080
     (yuv_planes (empty_frame\<lparr>fr_width := 4, fr_height := 2, fr_data := replicate 12 0\<rparr>)) \<subseteq> {0..<12}"
  (is "\<not> ?reads 1920 1080 (yuv_planes ?f) \<subseteq> _")
proof -
  have "update_reads_texture ?reads" "complete_planes ?f"
    by (simp_all add: update_reads_texture_def complete_planes_def)
  from preview_reads [OF this, of RenderConfig] show ?thesis by (simp add: RenderConfig_def)
qed

text \<open>C16. However the renderer is started, turned, stopped, joined and started again, with frames pushed and the
  pipeline reset in between and whatever SDL returns, its calls to SDL are in order: no call uses an object that
  does not exist, each is destroyed once and inside out, and outside the loop nothing is left; in the loop
  the pointers are the one window, its renderer and its texture of the configured size.\<close>

theorem preview_window_session:
  assumes "preview_step\<^sup>*\<^sup>* (preview_begin config clock metrics ch now q x) v"
  shows "\<exists>s. sdl_run (pv_calls v) sdl_off = Some s
    \<and> (if re_thread (pv_r v) = InLoop then sdl_showing config (pv_p v) s else s = sdl_off)"
proof -
  from preview_inv_reachable [OF assms] obtain s where
    "re_config (pv_r v) = config\<lparr>rc_mode := PREVIEW\<rparr>" "sdl_run (pv_calls v) sdl_off = Some s" "window_state v s"
    by (auto simp: preview_inv_def)
  moreover have "sdl_showing (config\<lparr>rc_mode := PREVIEW\<rparr>) (pv_p v) s = sdl_showing config (pv_p v) s"
    by (simp add: sdl_showing_def split: option.split)
  ultimately show ?thesis by (auto simp: window_state_def)
qed

definition preview_example :: preview where
  "preview_example = preview_begin RenderConfig False False 1 0 (FrameRingBuffer 4) (MetricsExporter 9308 True)"

definition preview_example_results :: sdl_results where
  "preview_example_results = \<lparr>sr_init = True, sr_window = Some 0, sr_renderer = Some 0, sr_texture = Some 0\<rparr>"

text \<open>One frame is shown, the user closes the window, and the thread cleans up.\<close>

definition preview_example_end :: "preview option" where
  "preview_example_end =
     (let v = preview_example;
          v = v\<lparr>pv_r := fst (snd (Re_Start (pv_r v) (pv_q v) (pv_x v)))\<rparr> in
      Option.bind (Preview_thread_turn preview_example_results [] ticking_input v) (\<lambda>v.
      let v = v\<lparr>pv_q := snd (Push (pv_q v) (pts_frame 5))\<rparr> in
      Option.bind (Preview_thread_turn preview_example_results [Other_event] ticking_input v) (\<lambda>v.
      let v = v\<lparr>pv_q := snd (Push (pv_q v) (pts_frame 6))\<rparr> in
      Option.bind (Preview_thread_turn preview_example_results [SDL_QUIT] ticking_input v)
        (Preview_thread_turn preview_example_results [] ticking_input))))"

lemma preview_example_reachable:
  assumes "preview_example_end = Some v"
  shows "preview_step\<^sup>*\<^sup>* (preview_begin RenderConfig False False 1 0 (FrameRingBuffer 4) (MetricsExporter 9308 True)) v"
proof -
  define v0 where "v0 = preview_example"
  obtain ok r x where s: "Re_Start (pv_r v0) (pv_q v0) (pv_x v0) = (ok, r, x)" by (rule prod_cases3)
  have x: "x = pv_x v0" using s
    by (auto simp: Re_Start_def v0_def preview_example_def preview_begin_def Renderer_Create_def split: if_splits)
  define v1 where "v1 = v0\<lparr>pv_r := r, pv_x := x\<rparr>"
  have "preview_step v0 v1" unfolding v1_def
    by (rule preview_step.start [OF _ s]) (simp add: v0_def preview_example_def preview_begin_def Renderer_Create_def)
  from assms obtain v2 v3 v4 where
    "Preview_thread_turn preview_example_results [] ticking_input v1 = Some v2"
    "Preview_thread_turn preview_example_results [Other_event] ticking_input (v2\<lparr>pv_q := snd (Push (pv_q v2) (pts_frame 5))\<rparr>) = Some v3"
    "Preview_thread_turn preview_example_results [SDL_QUIT] ticking_input (v3\<lparr>pv_q := snd (Push (pv_q v3) (pts_frame 6))\<rparr>) = Some v4"
    "Preview_thread_turn preview_example_results [] ticking_input v4 = Some v"
    using s x by (auto simp: preview_example_end_def v0_def [symmetric] v1_def Let_def bind_eq_Some_conv)
  note turns = this [THEN preview_step.turn]
  have push: "preview_step\<^sup>*\<^sup>* v u" if "preview_step (v\<lparr>pv_q := snd (Push (pv_q v) f)\<rparr>) u" for v u f
    using that preview_step.push [of v f] by (meson converse_rtranclp_into_rtranclp r_into_rtranclp)
  from turns(1) have "preview_step\<^sup>*\<^sup>* v1 v2" ..
  also from turns(2) have "preview_step\<^sup>*\<^sup>* v2 v3" by (rule push)
  also from turns(3) have "preview_step\<^sup>*\<^sup>* v3 v4" by (rule push)
  also from turns(4) have "preview_step\<^sup>*\<^sup>* v4 v" ..
  finally have "preview_step\<^sup>*\<^sup>* v0 v" using \<open>preview_step v0 v1\<close> by (rule converse_rtranclp_into_rtranclp [rotated])
  then show ?thesis by (simp add: v0_def preview_example_def)
qed

lemma preview_example_calls:
  "map_option (\<lambda>v. (re_thread (pv_r v), pv_calls v)) preview_example_end = Some (Exited,
     [SDL_Init True, SDL_CreateWindow ''RetroVue Playout Preview'' 1920 1080 (Some 0), SDL_CreateRenderer (Some 0) True (Some 0),
      SDL_CreateTexture (Some 0) 1920 1080 (Some 0), SDL_PollEvent (Some Other_event), SDL_PollEvent None, SDL_RenderClear (Some 0),
      SDL_RenderCopy (Some 0) (Some 0), SDL_RenderPresent (Some 0), SDL_PollEvent (Some SDL_QUIT),
      SDL_DestroyTexture (Some 0), SDL_DestroyRenderer (Some 0), SDL_DestroyWindow (Some 0), SDL_Quit])"
  by (simp add: preview_example_end_def preview_example_def preview_example_results_def ticking_input_def preview_begin_def
     Renderer_Create_def Re_Start_def Preview_thread_turn_def Preview_Initialize_def RenderLoop_begin_def Initialize_def
     sdl_outcomes_def PreviewRenderer_def RenderLoop_pass_def Pop_def Push_def FrameRingBuffer_def next_index_def finish_frame_def
     RenderFrame_def Preview_RenderFrame_def PublishMetrics_def Re_UpdateStats_def Preview_Cleanup_def RenderLoop_end_def
     Cleanup_def RenderStats_def RenderConfig_def pts_frame_def empty_frame_def empty_metadata_def Let_def)

theorem preview_window_session_witness:
  "\<exists>v. preview_example_end = Some v \<and> re_thread (pv_r v) = Exited \<and> length (pv_calls v) = 14
    \<and> sdl_run (pv_calls v) sdl_off = Some sdl_off"
proof -
  from preview_example_calls obtain v where v: "preview_example_end = Some v" "re_thread (pv_r v) = Exited"
    "length (pv_calls v) = 14"
    by (cases preview_example_end) auto
  with preview_window_session [OF preview_example_reachable [OF v(1)]] show ?thesis by auto
qed

end
