(* ===== verification/First_Design.thy ===== *)
theory First_Design
  imports FrameRingBuffer TsOutputSink
begin

text \<open>
  The encoder and the muxer of the first design of the playout sink (\<open>src/playout_sinks/mpegts/MpegTSEncoder.cpp\<close>,
  \<open>TSMuxer.cpp\<close>), which \<open>EncoderPipeline\<close> replaces. Both are placeholders: they remember whether they
  were initialized, and no byte comes out of either. The sink class of
  \<open>include/retrovue/playout_sinks/mpegts/MpegTSPlayoutSink.h\<close> that was to use them has no definition.
\<close>

section \<open>The encoder\<close>

record first_encoder_config =
  ec_width :: int
  ec_height :: int
  ec_bitrate :: int
  ec_gop_size :: int
  ec_target_fps :: real
  ec_stub_mode :: bool

definition EncoderConfig :: first_encoder_config where
  "EncoderConfig = \<lparr>ec_width = 1920, ec_height = 1080, ec_bitrate = 5000000, ec_gop_size = 30, ec_target_fps = 30,
     ec_stub_mode = False\<rparr>"

record first_encoder =
  me_is_initialized :: bool

definition MpegTSEncoder :: first_encoder where
  "MpegTSEncoder = \<lparr>me_is_initialized = False\<rparr>"

definition Me_Initialize :: "first_encoder_config \<Rightarrow> first_encoder \<Rightarrow> bool \<times> first_encoder" where
  "Me_Initialize config e = (True, e\<lparr>me_is_initialized := True\<rparr>)"

definition Me_Cleanup :: "first_encoder \<Rightarrow> first_encoder" where
  "Me_Cleanup e = e\<lparr>me_is_initialized := False\<rparr>"

definition Me_EncodeFrame :: "frame \<Rightarrow> int \<Rightarrow> first_encoder \<Rightarrow> bytes" where
  "Me_EncodeFrame f pts_us e = []"

definition Me_IsInitialized :: "first_encoder \<Rightarrow> bool" where
  "Me_IsInitialized e = me_is_initialized e"

section \<open>The muxer\<close>

record first_muxer_config =
  mx_enable_audio :: bool
  mx_stub_mode :: bool

definition MuxerConfig :: first_muxer_config where
  "MuxerConfig = \<lparr>mx_enable_audio = False, mx_stub_mode = False\<rparr>"

record first_muxer =
  tm_is_initialized :: bool
  tm_output_fd :: int

definition TSMuxer :: first_muxer where
  "TSMuxer = \<lparr>tm_is_initialized = False, tm_output_fd = - 1\<rparr>"

definition Tm_Initialize :: "first_muxer_config \<Rightarrow> int \<Rightarrow> first_muxer \<Rightarrow> bool \<times> first_muxer" where
  "Tm_Initialize config output_fd x = (True, x\<lparr>tm_output_fd := output_fd, tm_is_initialized := True\<rparr>)"

definition Tm_Cleanup :: "first_muxer \<Rightarrow> first_muxer" where
  "Tm_Cleanup x = x\<lparr>tm_output_fd := - 1, tm_is_initialized := False\<rparr>"

text \<open>What is written to the descriptor comes with the answer.\<close>

definition MuxPacket :: "bytes \<Rightarrow> int \<Rightarrow> first_muxer \<Rightarrow> bool \<times> bytes \<times> first_muxer" where
  "MuxPacket packet_data pts_us x = (True, [], x)"

definition Tm_Flush :: "first_muxer \<Rightarrow> bool \<times> bytes \<times> first_muxer" where
  "Tm_Flush x = (True, [], x)"

definition Tm_resetForNewProducer :: "first_muxer \<Rightarrow> first_muxer" where
  "Tm_resetForNewProducer x = x"

definition Tm_IsInitialized :: "first_muxer \<Rightarrow> bool" where
  "Tm_IsInitialized x = tm_is_initialized x"

text \<open>Frames through both, as the sink was to do it: every call succeeds, initialized or not, and nothing is written.\<close>

fun first_design_run :: "(frame \<times> int) list \<Rightarrow> first_encoder \<Rightarrow> first_muxer \<Rightarrow> bool \<times> bytes" where
  "first_design_run [] e x = (let (ok, out, x) = Tm_Flush x in (ok, out))"
| "first_design_run ((f, pts_us) # frames) e x =
     (let packet = Me_EncodeFrame f pts_us e; (ok, out, x) = MuxPacket packet pts_us x;
          (ok', out') = first_design_run frames e x
      in (ok \<and> ok', out @ out'))"

lemma first_design_silent: "first_design_run frames e x = (True, [])"
  by (induction frames e x rule: first_design_run.induct) (simp_all add: Tm_Flush_def MuxPacket_def)

lemma first_design_initialized:
  "Me_IsInitialized (snd (Me_Initialize c e))" "\<not> Me_IsInitialized (Me_Cleanup e)"
  "Tm_IsInitialized (snd (Tm_Initialize mc fd x))" "\<not> Tm_IsInitialized (Tm_Cleanup x)"
  by (simp_all add: Me_IsInitialized_def Me_Initialize_def Me_Cleanup_def Tm_IsInitialized_def Tm_Initialize_def Tm_Cleanup_def)

end
