(* ===== verification/Destruction.thy ===== *)
theory Destruction
  imports Producer_Lifecycle OrchestrationLoop MetricsHttp FFmpegDecoder MpegTSPlayoutSink First_Design
begin

text \<open>
  The destructors, and what is left of an object's threads and library objects when it is gone. All but one
  go through the function that stops or closes the object, so that what that function skips is leaked: a
  listening socket that was never started, and the contexts of an encoder whose opening failed.
\<close>

section \<open>Producers and decoder\<close>

definition VideoFileProducer_destroy :: "decoder_env \<Rightarrow> producer \<Rightarrow> producer" where
  "VideoFileProducer_destroy e p = CloseDecoder (stop e p)"

definition FFmpegDecoder_destroy :: "ff_decoder \<Rightarrow> ff_decoder" where
  "FFmpegDecoder_destroy d = Ff_Close d"

text \<open>A producer is destroyed between calls, stopped or running.\<close>

lemma VideoFileProducer_destroyed:
  assumes "vfp_reachable config clock q0 (p, q)" "rb_wf q0" "vp_state p = STOPPED \<or> vp_state p = RUNNING"
  shows "vp_state (VideoFileProducer_destroy e p) = STOPPED \<and> vp_thread (VideoFileProducer_destroy e p) = NoThread
    \<and> no_decoder (VideoFileProducer_destroy e p)"
proof -
  have inv: "vfp_inv p" using vfp_reachable_inv [OF assms(1,2)] by simp
  have "vfp_inv (stop e p) \<and> vp_state (stop e p) = STOPPED"
  proof (cases "vp_state p = STOPPED")
    case True
    with inv show ?thesis by (simp add: stop_def)
  next
    case False
    with assms(3) have run: "vp_state p = RUNNING" by simp
    have "vfp_step\<^sup>*\<^sup>* (p, q) (stop e p, q)" using stop_steps [OF inv run] .
    then have "vfp_reachable config clock q0 (stop e p, q)"
      using assms(1) by (induction rule: rtranclp_induct) (auto intro: reach_step)
    then have "vfp_inv (stop e p)" using vfp_reachable_inv assms(2) by fastforce
    with run show ?thesis by (simp add: stop_def Let_def stop_finish_def SetState_def)
  qed
  then show ?thesis
    using no_decoder_closed [of "stop e p"]
    by (auto simp: VideoFileProducer_destroy_def vfp_inv_def control_ok_def CloseDecoder_def)
qed

lemma FFmpegDecoder_destroyed:
  "\<not> Ff_IsOpen (FFmpegDecoder_destroy d)" "FFmpegDecoder_destroy (FFmpegDecoder_destroy d) = FFmpegDecoder_destroy d"
  by (simp_all add: FFmpegDecoder_destroy_def Ff_Close_def Ff_IsOpen_def)

section \<open>Loop and metrics\<close>

definition OrchestrationLoop_destroy :: "real \<Rightarrow> orchestration \<Rightarrow> orchestration" where
  "OrchestrationLoop_destroy duration_ms ol = Loop_Stop duration_ms ol"

definition MetricsExporter_destroy :: "exporter \<Rightarrow> exporter option" where
  "MetricsExporter_destroy x = Exporter_Stop x"

definition MetricsHTTPServer_destroy :: "http_server \<Rightarrow> http_server" where
  "MetricsHTTPServer_destroy s = Http_Stop s"

text \<open>No event that was taken is lost, and the server lets go of its socket and its thread.\<close>

lemma MetricsExporter_destroyed:
  assumes "exporter_inv x"
  obtains x' where "MetricsExporter_destroy x = Some x'" "exporter_inv x'" "me_tables x' = settled x"
proof -
  from Exporter_Stop_step [OF assms] obtain x' where
    "Exporter_Stop x = Some x'" "exporter_inv x'" "me_tables x' = settled x" by metis
  then show thesis by (intro that) (simp_all add: MetricsExporter_destroy_def)
qed

lemma MetricsHTTPServer_destroyed:
  "hs_running s \<or> hs_server_thread s \<Longrightarrow>
     \<not> hs_server_thread (MetricsHTTPServer_destroy s) \<and> \<not> hs_server_socket (MetricsHTTPServer_destroy s)"
  by (simp add: MetricsHTTPServer_destroy_def Http_Stop_stopped)

section \<open>The sinks\<close>

definition TsOutputSink_destroy :: "uds_sink \<Rightarrow> uds_sink" where
  "TsOutputSink_destroy u = Us_Stop u"

definition EncoderPipeline_destroy :: "rescale \<Rightarrow> close_env \<Rightarrow> encoder \<Rightarrow> (av_packet list \<times> bytes list \<times> encoder) option" where
  "EncoderPipeline_destroy rescale_q ce e = Ep_close rescale_q ce e"

definition MpegTSPlayoutSink_destroy :: "rescale \<Rightarrow> close_env \<Rightarrow> send_result list \<Rightarrow> playout_sink \<Rightarrow> (delivery list \<times> playout_sink) option" where
  "MpegTSPlayoutSink_destroy rescale_q ce as s = Ms_stop_finish rescale_q ce as (Ms_stop_request s)"

definition MpegTSEncoder_destroy :: "first_encoder \<Rightarrow> first_encoder" where
  "MpegTSEncoder_destroy e = Me_Cleanup e"

definition TSMuxer_destroy :: "first_muxer \<Rightarrow> first_muxer" where
  "TSMuxer_destroy x = Tm_Cleanup x"

text \<open>A socket sink that runs is taken down; one that only listens keeps its descriptor.\<close>

lemma TsOutputSink_destroyed:
  "us_running u \<Longrightarrow> \<not> us_listening (TsOutputSink_destroy u) \<and> us_client_fd (TsOutputSink_destroy u) = None
     \<and> \<not> us_accept_thread (TsOutputSink_destroy u)"
  "\<not> us_running u \<Longrightarrow> us_listening (TsOutputSink_destroy u) = us_listening u"
  by (simp_all add: TsOutputSink_destroy_def Us_Stop_def Us_CleanupSocket_def Let_def)

text \<open>An encoder that is open gives everything back; one whose opening failed does not.\<close>

lemma EncoderPipeline_destroyed:
  "ep_initialized e \<and> \<not> sc_stub_mode (ep_config e) \<Longrightarrow> EncoderPipeline_destroy rescale_q ce e = Some (ps, calls, e')
     \<Longrightarrow> no_handles e'"
  "\<not> ep_initialized e \<Longrightarrow> EncoderPipeline_destroy rescale_q ce e = Some ([], [], e)"
  using Ep_close_open [of rescale_q ce e ps calls e']
  by (simp_all add: EncoderPipeline_destroy_def Ep_close_def)

text \<open>The sink: no thread, no socket, and not running, unless it never ran.\<close>

lemma MpegTSPlayoutSink_destroyed:
  assumes "stops s" "MpegTSPlayoutSink_destroy rescale_q ce as s = Some (ds, s')"
  shows "\<not> Ms_isRunning s' \<and> Ms_state s' = Stopped \<and> ms_ts_output_sink s' = None"
proof -
  have "stops (Ms_stop_request s)" using assms(1) by (simp add: Ms_stop_request_def stops_def)
  with assms(2) show ?thesis
    by (auto simp: MpegTSPlayoutSink_destroy_def Ms_stop_finish_def Ms_isRunning_def Ms_state_def cleanupSocket_def Let_def
        split: option.splits)
qed

lemma first_design_destroyed:
  "\<not> Me_IsInitialized (MpegTSEncoder_destroy e)" "\<not> Tm_IsInitialized (TSMuxer_destroy x)"
  by (simp_all add: MpegTSEncoder_destroy_def TSMuxer_destroy_def first_design_initialized)

end
